(* ===== verification/Prelude.thy ===== *)
theory Prelude
  imports Main "HOL-Library.Sublist" "HOL-Library.Word"
begin

text \<open>
  Shared vocabulary of the development.  A byte is a HOL \<^typ>\<open>char\<close> (eight bits); a Rust
  \<^verbatim>\<open>str\<close> is its UTF-8 bytes, a \<^verbatim>\<open>[u8; N]\<close> buffer is a byte list of
  length N, and a \<^verbatim>\<open>Uuid\<close> is its sixteen bytes.  The functions of the Rust standard library
  that the sources use on strings and integers (\<^verbatim>\<open>split_once\<close>, \<^verbatim>\<open>trim\<close>,
  \<^verbatim>\<open>eq_ignore_ascii_case\<close>, \<^verbatim>\<open>from_utf8\<close>, saturating arithmetic, little-endian
  integers) are defined here, with the generic list and option lemmas the components share.
\<close>

type_synonym bytes = string
type_synonym str = string
type_synonym uuid = string

named_theorems gate_defs \<open>definitions of the name classes and reachability gates\<close>
named_theorems slot_simps \<open>rewrite rules about the slots of a shared-memory table\<close>


section \<open>Strings\<close>

primrec split_once :: "char \<Rightarrow> str \<Rightarrow> (str \<times> str) option" where
  "split_once c [] = None"
| "split_once c (x # xs) =
     (if x = c then Some ([], xs) else map_option (apfst (Cons x)) (split_once c xs))"

definition rsplit_once :: "char \<Rightarrow> str \<Rightarrow> (str \<times> str) option" where
  "rsplit_once c s = map_option (\<lambda>(a, b). (rev b, rev a)) (split_once c (rev s))"

definition starts_with :: "str \<Rightarrow> str \<Rightarrow> bool" where
  "starts_with s p = prefix p s"

definition ends_with :: "str \<Rightarrow> str \<Rightarrow> bool" where
  "ends_with s p = suffix p s"

text \<open>Repeatedly removes a member of the list of non-empty patterns from the front.\<close>

function strip_prefixes :: "str list \<Rightarrow> str \<Rightarrow> str" where
  "strip_prefixes ps s =
     (case find (\<lambda>p. p \<noteq> [] \<and> prefix p s) ps of
        None \<Rightarrow> s
      | Some p \<Rightarrow> strip_prefixes ps (drop (length p) s))"
  by pat_completeness auto

termination
  by (relation "measure (\<lambda>(ps, s). length s)")
     (auto simp: find_Some_iff prefix_def)

declare strip_prefixes.simps [simp del]

definition strip_suffixes :: "str list \<Rightarrow> str \<Rightarrow> str" where
  "strip_suffixes ps s = rev (strip_prefixes (map rev ps) (rev s))"

definition byte_of :: "nat \<Rightarrow> char" where
  "byte_of n = char_of n"

text \<open>The UTF-8 encodings of the Unicode \<^verbatim>\<open>White_Space\<close> characters, the ones
  \<^verbatim>\<open>char::is_whitespace\<close> accepts.\<close>

definition whitespace :: "str list" where
  "whitespace =
     [[CHR 0x09], [CHR 0x0A], [CHR 0x0B], [CHR 0x0C], [CHR 0x0D], [CHR 0x20],
      [CHR 0xC2, CHR 0x85], [CHR 0xC2, CHR 0xA0], [CHR 0xE1, CHR 0x9A, CHR 0x80],
      [CHR 0xE2, CHR 0x80, CHR 0x80], [CHR 0xE2, CHR 0x80, CHR 0x81],
      [CHR 0xE2, CHR 0x80, CHR 0x82], [CHR 0xE2, CHR 0x80, CHR 0x83],
      [CHR 0xE2, CHR 0x80, CHR 0x84], [CHR 0xE2, CHR 0x80, CHR 0x85],
      [CHR 0xE2, CHR 0x80, CHR 0x86], [CHR 0xE2, CHR 0x80, CHR 0x87],
      [CHR 0xE2, CHR 0x80, CHR 0x88], [CHR 0xE2, CHR 0x80, CHR 0x89],
      [CHR 0xE2, CHR 0x80, CHR 0x8A], [CHR 0xE2, CHR 0x80, CHR 0xA8],
      [CHR 0xE2, CHR 0x80, CHR 0xA9], [CHR 0xE2, CHR 0x80, CHR 0xAF],
      [CHR 0xE2, CHR 0x81, CHR 0x9F], [CHR 0xE3, CHR 0x80, CHR 0x80]]"

definition trim :: "str \<Rightarrow> str" where
  "trim s = strip_suffixes whitespace (strip_prefixes whitespace s)"

definition trim_end_matches :: "str \<Rightarrow> str \<Rightarrow> str" where
  "trim_end_matches s p = strip_suffixes [p] s"

definition to_ascii_lower :: "char \<Rightarrow> char" where
  "to_ascii_lower c =
     (let n = of_char c :: nat in if 65 \<le> n \<and> n \<le> 90 then char_of (n + 32) else c)"

definition to_ascii_lowercase :: "str \<Rightarrow> str" where
  "to_ascii_lowercase s = map to_ascii_lower s"

definition eq_ignore_ascii_case :: "str \<Rightarrow> str \<Rightarrow> bool" where
  "eq_ignore_ascii_case a b = (to_ascii_lowercase a = to_ascii_lowercase b)"

text \<open>Number of Unicode scalar values of a valid string: its bytes but the continuation bytes.\<close>

definition is_continuation :: "char \<Rightarrow> bool" where
  "is_continuation c = (let n = of_char c :: nat in 128 \<le> n \<and> n < 192)"


section \<open>UTF-8 validity\<close>

text \<open>The well-formed byte sequences of RFC 3629, the ones \<^verbatim>\<open>std::str::from_utf8\<close> accepts:
  no overlong form, no surrogate, nothing above U+10FFFF.\<close>

definition cont :: "nat \<Rightarrow> bool" where
  "cont n = (0x80 \<le> n \<and> n \<le> 0xBF)"

fun utf8_nats :: "nat list \<Rightarrow> bool" where
  "utf8_nats [] = True"
| "utf8_nats (a # r) =
     (if a \<le> 0x7F then utf8_nats r
      else if 0xC2 \<le> a \<and> a \<le> 0xDF then
        (case r of b # r' \<Rightarrow> cont b \<and> utf8_nats r' | _ \<Rightarrow> False)
      else if 0xE0 \<le> a \<and> a \<le> 0xEF then
        (case r of b # c # r' \<Rightarrow>
           cont b \<and> cont c \<and> (a = 0xE0 \<longrightarrow> 0xA0 \<le> b) \<and> (a = 0xED \<longrightarrow> b \<le> 0x9F) \<and> utf8_nats r'
         | _ \<Rightarrow> False)
      else if 0xF0 \<le> a \<and> a \<le> 0xF4 then
        (case r of b # c # d # r' \<Rightarrow>
           cont b \<and> cont c \<and> cont d \<and> (a = 0xF0 \<longrightarrow> 0x90 \<le> b) \<and> (a = 0xF4 \<longrightarrow> b \<le> 0x8F)
           \<and> utf8_nats r'
         | _ \<Rightarrow> False)
      else False)"

definition utf8_valid :: "bytes \<Rightarrow> bool" where
  "utf8_valid s = utf8_nats (map of_char s)"

definition from_utf8_or_empty :: "bytes \<Rightarrow> str" where
  "from_utf8_or_empty s = (if utf8_valid s then s else [])"


section \<open>Lemmas on strings\<close>

lemma split_once_Some_iff:
  "split_once c s = Some (a, b) \<longleftrightarrow> s = a @ c # b \<and> c \<notin> set a"
proof (induction s arbitrary: a)
  case Nil
  then show ?case by simp
next
  case (Cons x s)
  then show ?case by (cases a) auto
qed

lemma split_once_None_iff: "split_once c s = None \<longleftrightarrow> c \<notin> set s"
  by (induction s) auto

lemma split_once_append [simp]: "c \<notin> set a \<Longrightarrow> split_once c (a @ c # b) = Some (a, b)"
  by (simp add: split_once_Some_iff)

lemma starts_with_append [simp]: "starts_with (p @ s) p"
  by (simp add: starts_with_def)

lemma ends_with_append [simp]: "ends_with (s @ p) p"
  by (simp add: ends_with_def suffix_def)

lemma length_strip_prefixes: "length (strip_prefixes ps s) \<le> length s"
proof (induction ps s rule: strip_prefixes.induct)
  case (1 ps s)
  show ?case
  proof (cases "find (\<lambda>p. p \<noteq> [] \<and> prefix p s) ps")
    case None
    then show ?thesis by (simp add: strip_prefixes.simps [of ps s])
  next
    case (Some p)
    then show ?thesis using "1" [OF Some] by (simp add: strip_prefixes.simps [of ps s])
  qed
qed

lemma strip_prefixes_fixed:
  "strip_prefixes ps s = s \<longleftrightarrow> (\<forall>p \<in> set ps. p \<noteq> [] \<longrightarrow> \<not> prefix p s)"
proof (cases "find (\<lambda>p. p \<noteq> [] \<and> prefix p s) ps")
  case None
  moreover from this have "strip_prefixes ps s = s" by (simp add: strip_prefixes.simps [of ps s])
  ultimately show ?thesis by (auto simp: find_None_iff)
next
  case (Some p)
  then have p: "p \<in> set ps" "p \<noteq> []" "prefix p s" by (auto simp: find_Some_iff)
  then have "length (strip_prefixes ps (drop (length p) s)) < length s"
    using length_strip_prefixes [of ps "drop (length p) s"] prefix_length_le [of p s]
    by (metis diff_less dual_order.strict_trans1 leD length_drop length_greater_0_conv
        not_less_iff_gr_or_eq order_le_less_trans)
  then have "strip_prefixes ps s \<noteq> s"
    using Some by (auto simp: strip_prefixes.simps [of ps s])
  with p show ?thesis by blast
qed

lemma strip_prefixes_idem [simp]:
  "strip_prefixes ps (strip_prefixes ps s) = strip_prefixes ps s"
proof (induction ps s rule: strip_prefixes.induct)
  case (1 ps s)
  then show ?case
    by (cases "find (\<lambda>p. p \<noteq> [] \<and> prefix p s) ps") (simp_all add: strip_prefixes.simps [of ps s])
qed

text \<open>Trimming a string put after a prefix that is itself free of white space at its ends.\<close>

lemma strip_suffixes_append_trimmed:
  assumes "strip_suffixes ps b = b" "a \<noteq> []" "\<forall>p \<in> set ps. last a \<notin> set p"
  shows "strip_suffixes ps (a @ b) = a @ b"
proof -
  have b: "\<forall>p \<in> set (map rev ps). p \<noteq> [] \<longrightarrow> \<not> prefix p (rev b)"
    using assms(1) unfolding strip_suffixes_def strip_prefixes_fixed [symmetric]
    by (metis rev_rev_ident)
  have "\<not> prefix p (rev b @ rev a)" if p: "p \<in> set (map rev ps)" "p \<noteq> []" for p
  proof
    assume pre: "prefix p (rev b @ rev a)"
    then consider "prefix p (rev b)" | us where "p = rev b @ us" "prefix us (rev a)"
      by (auto simp: prefix_append)
    then show False
    proof cases
      case 1
      then show ?thesis using b p by blast
    next
      case 2
      show ?thesis
      proof (cases us)
        case Nil
        then show ?thesis using 2 b p by auto
      next
        case (Cons x xs)
        then have "x = last a" using 2 assms(2) by (cases a rule: rev_cases) auto
        then have "last a \<in> set p" using 2 Cons by simp
        then show ?thesis using p assms(3) by auto
      qed
    qed
  qed
  then have "strip_prefixes (map rev ps) (rev b @ rev a) = rev b @ rev a"
    unfolding strip_prefixes_fixed by blast
  then show ?thesis by (simp add: strip_suffixes_def)
qed

lemma strip_suffixes_trim [simp]: "strip_suffixes whitespace (trim s) = trim s"
  by (simp add: trim_def strip_suffixes_def)

lemma trim_prefixed:
  assumes "strip_prefixes whitespace (a @ trim h) = a @ trim h"
    and "a \<noteq> []" "\<forall>p \<in> set whitespace. last a \<notin> set p"
  shows "trim (a @ trim h) = a @ trim h"
proof -
  have "trim (a @ trim h) = strip_suffixes whitespace (a @ trim h)"
    using assms(1) by (simp add: trim_def [of "a @ trim h"])
  then show ?thesis
    using strip_suffixes_append_trimmed [OF strip_suffixes_trim assms(2,3)] by simp
qed

lemma to_ascii_lowercase_length [simp]: "length (to_ascii_lowercase s) = length s"
  by (simp add: to_ascii_lowercase_def)

lemma eq_ignore_ascii_case_refl [simp]: "eq_ignore_ascii_case s s"
  by (simp add: eq_ignore_ascii_case_def)

lemma eq_ignore_ascii_case_sym: "eq_ignore_ascii_case a b \<Longrightarrow> eq_ignore_ascii_case b a"
  by (simp add: eq_ignore_ascii_case_def)

lemma from_utf8_or_empty_Nil [simp]: "from_utf8_or_empty [] = []"
  by (simp add: from_utf8_or_empty_def)


section \<open>Integers\<close>

text \<open>Unsigned integers at their width, with Rust's saturating operations.\<close>

definition u16_max :: nat where "u16_max = 0xFFFF"
definition u32_max :: nat where "u32_max = 0xFFFFFFFF"
definition u64_max :: nat where "u64_max = 0xFFFFFFFFFFFFFFFF"

definition saturating_add :: "nat \<Rightarrow> nat \<Rightarrow> nat \<Rightarrow> nat" where
  "saturating_add w a b = min (2 ^ w - 1) (a + b)"

definition saturating_mul :: "nat \<Rightarrow> nat \<Rightarrow> nat \<Rightarrow> nat" where
  "saturating_mul w a b = min (2 ^ w - 1) (a * b)"

text \<open>\<^verbatim>\<open>saturating_sub\<close> is subtraction on \<^typ>\<open>nat\<close>.  \<^verbatim>\<open>Option::unwrap_or\<close>:\<close>

definition unwrap_or :: "'a \<Rightarrow> 'a option \<Rightarrow> 'a" where
  "unwrap_or d x = (case x of Some y \<Rightarrow> y | None \<Rightarrow> d)"

lemma unwrap_or_simps [simp]: "unwrap_or d None = d" "unwrap_or d (Some x) = x"
  by (simp_all add: unwrap_or_def)

text \<open>\<^verbatim>\<open>Option::or_else\<close>:\<close>

definition or_else :: "'a option \<Rightarrow> 'a option \<Rightarrow> 'a option" where
  "or_else x y = (case x of Some v \<Rightarrow> Some v | None \<Rightarrow> y)"

lemma or_else_simps [simp]: "or_else None y = y" "or_else (Some x) y = Some x"
  by (simp_all add: or_else_def)


section \<open>Transition systems\<close>

text \<open>Reachability, and the one rule every state machine of the development uses: what holds
  initially and is kept by every step holds in every reachable state.\<close>

inductive reach :: "('s \<Rightarrow> bool) \<Rightarrow> ('s \<Rightarrow> 's \<Rightarrow> bool) \<Rightarrow> 's \<Rightarrow> bool"
  for init :: "'s \<Rightarrow> bool" and step :: "'s \<Rightarrow> 's \<Rightarrow> bool" where
  start: "init s \<Longrightarrow> reach init step s"
| move: "reach init step s \<Longrightarrow> step s s' \<Longrightarrow> reach init step s'"

locale step_invariant =
  fixes init :: "'s \<Rightarrow> bool" and step :: "'s \<Rightarrow> 's \<Rightarrow> bool" and inv :: "'s \<Rightarrow> bool"
  assumes inv_init: "init s \<Longrightarrow> inv s"
    and inv_step: "inv s \<Longrightarrow> step s s' \<Longrightarrow> inv s'"
begin

lemma reach_inv: "reach init step s \<Longrightarrow> inv s"
  by (induction rule: reach.induct) (auto intro: inv_init inv_step)

end

end
