(* ===== verification/Node_Names.thy ===== *)
theory Node_Names
  imports Prelude
begin

text \<open>
  Node names \<^verbatim>\<open>ROLE.name@hive\<close> as \<^verbatim>\<open>src/src/router/mod.rs\<close> reads them: qualification of a
  bare name by the local hive, the hive of a name, the classes of roles the gates ask about, and
  the canonical name a WAN source gets from the hive whose bucket it resolved in.
\<close>

abbreviation (input) at_sign :: char where "at_sign \<equiv> CHR ''@''"

definition SYSTEM_KIND :: str where "SYSTEM_KIND = ''system''"
definition SCOPE_GLOBAL :: str where "SCOPE_GLOBAL = ''global''"
definition PRIMARY_HIVE_ID :: str where "PRIMARY_HIVE_ID = ''motherbee''"
definition EDGE_CONTROL_AUTHORITY :: str where
  "EDGE_CONTROL_AUTHORITY = ''SY.admin@motherbee''"

definition normalize_name :: "str \<Rightarrow> str \<Rightarrow> str" where
  "normalize_name name hive_id = (if at_sign \<in> set name then name else name @ at_sign # hive_id)"

definition extract_hive :: "str \<Rightarrow> str option" where
  "extract_hive name = map_option snd (split_once at_sign name)"

definition node_is_on_hive :: "str \<Rightarrow> str \<Rightarrow> bool" where
  "node_is_on_hive name hive =
     (hive \<noteq> [] \<and> (case split_once at_sign name of
                     Some (role, name_hive) \<Rightarrow> role \<noteq> [] \<and> name_hive = hive
                   | None \<Rightarrow> False))"

definition canonical_wan_src_name :: "str \<Rightarrow> str \<Rightarrow> str" where
  "canonical_wan_src_name name bucket_hive =
     (let role = trim (case split_once at_sign name of Some (r, _) \<Rightarrow> r | None \<Rightarrow> name)
      in role @ at_sign # bucket_hive)"

definition is_system_node :: "str \<Rightarrow> bool" where
  "is_system_node name = (starts_with name ''SY.'' \<or> starts_with name ''RT.'')"

definition is_edge_node :: "str \<Rightarrow> bool" where
  "is_edge_node name =
     (case split_once at_sign name of
        Some (role, _) \<Rightarrow> role = ''SY.edge'' | None \<Rightarrow> name = ''SY.edge'')"

definition is_io_node :: "str \<Rightarrow> bool" where
  "is_io_node name =
     (case split_once at_sign name of
        Some (role, _) \<Rightarrow> starts_with role ''IO.'' | None \<Rightarrow> starts_with name ''IO.'')"

definition is_vault_node :: "str \<Rightarrow> bool" where
  "is_vault_node name =
     (case split_once at_sign name of
        Some (role, _) \<Rightarrow> role = ''SY.vault'' | None \<Rightarrow> name = ''SY.vault'')"

definition is_system_kind :: "str \<Rightarrow> bool" where
  "is_system_kind msg_type = eq_ignore_ascii_case msg_type SYSTEM_KIND"

definition lsa_route_applies :: "str \<Rightarrow> str \<Rightarrow> bool" where
  "lsa_route_applies advertised_by target =
     (ends_with target ''@*'' \<or> node_is_on_hive target advertised_by)"

definition bytes_to_string :: "bytes \<Rightarrow> nat \<Rightarrow> str" where
  "bytes_to_string buf len = from_utf8_or_empty (take (min len (length buf)) buf)"


section \<open>Lemmas\<close>

text \<open>The role of a name: what stands before the first \<^verbatim>\<open>@\<close>.\<close>

definition role_of :: "str \<Rightarrow> str" where
  "role_of name = (case split_once at_sign name of Some (r, _) \<Rightarrow> r | None \<Rightarrow> name)"

lemma is_edge_node_role: "is_edge_node name \<longleftrightarrow> role_of name = ''SY.edge''"
  by (auto simp: is_edge_node_def role_of_def split: option.splits)

lemma is_vault_node_role: "is_vault_node name \<longleftrightarrow> role_of name = ''SY.vault''"
  by (auto simp: is_vault_node_def role_of_def split: option.splits)

lemma is_io_node_role: "is_io_node name \<longleftrightarrow> starts_with (role_of name) ''IO.''"
  by (auto simp: is_io_node_def role_of_def split: option.splits)

lemma role_of_no_at: "at_sign \<notin> set (role_of name)"
  by (auto simp: role_of_def split_once_None_iff split_once_Some_iff split: option.splits)

lemma role_of_prefix: "prefix (role_of name) name"
  by (auto simp: role_of_def split_once_Some_iff prefix_def split: option.splits)

lemma role_of_append [simp]: "at_sign \<notin> set r \<Longrightarrow> role_of (r @ at_sign # h) = r"
  by (simp add: role_of_def)

lemma normalize_name_has_hive: "\<exists>h. extract_hive (normalize_name name hive) = Some h"
proof (cases "at_sign \<in> set name")
  case True
  then obtain a b where "split_once at_sign name = Some (a, b)"
    by (metis option.exhaust split_once_None_iff surj_pair)
  then show ?thesis using True by (simp add: normalize_name_def extract_hive_def)
next
  case False
  then show ?thesis by (simp add: normalize_name_def extract_hive_def)
qed

lemma normalize_name_idem: "normalize_name (normalize_name n h) h' = normalize_name n h"
  by (simp add: normalize_name_def)

lemma node_is_on_hive_iff:
  "node_is_on_hive name hive \<longleftrightarrow> hive \<noteq> [] \<and> role_of name \<noteq> [] \<and> extract_hive name = Some hive"
  by (auto simp: node_is_on_hive_def role_of_def extract_hive_def split: option.splits)

lemma node_is_on_hive_unique:
  "node_is_on_hive name h \<Longrightarrow> node_is_on_hive name h' \<Longrightarrow> h = h'"
  by (simp add: node_is_on_hive_iff)

lemma set_strip_prefixes: "set (strip_prefixes ps s) \<subseteq> set s"
proof (induction ps s rule: strip_prefixes.induct)
  case (1 ps s)
  show ?case
  proof (cases "find (\<lambda>p. p \<noteq> [] \<and> prefix p s) ps")
    case None
    then show ?thesis by (simp add: strip_prefixes.simps [of ps s])
  next
    case (Some p)
    then show ?thesis
      using "1" [OF Some] set_drop_subset [of "length p" s]
      by (simp add: strip_prefixes.simps [of ps s])
  qed
qed

lemma set_trim: "set (trim s) \<subseteq> set s"
  using set_strip_prefixes [of "map rev whitespace" "rev (strip_prefixes whitespace s)"]
    set_strip_prefixes [of whitespace s]
  by (auto simp: trim_def strip_suffixes_def)

lemma canonical_wan_src_name_role:
  "canonical_wan_src_name name h = trim (role_of name) @ at_sign # h"
  by (simp add: canonical_wan_src_name_def role_of_def)

lemma canonical_wan_src_name_hive [simp]:
  "extract_hive (canonical_wan_src_name name h) = Some h"
proof -
  have "at_sign \<notin> set (trim (role_of name))"
    using set_trim [of "role_of name"] role_of_no_at [of name] by auto
  then show ?thesis by (simp add: canonical_wan_src_name_role extract_hive_def)
qed

end
