(* ===== verification/Stream_Codec.thy ===== *)
theory Stream_Codec
  imports Node_Names "HOL-Library.Monad_Syntax"
begin

text \<open>
  Records of the router's stream and their segment format (\<^verbatim>\<open>src/src/router/stream.rs\<close>): a body
  length, an FNV-1a checksum folded to 32 bits and the body, all integers big-endian.  The round
  trip is stated for a whole segment followed by a torn write, which is what recovery reads after a
  crash.
\<close>

unbundle bit_operations_syntax

section \<open>Big-endian integers\<close>

primrec to_be_bytes :: "nat \<Rightarrow> nat \<Rightarrow> bytes" where
  "to_be_bytes 0 n = []"
| "to_be_bytes (Suc w) n = to_be_bytes w (n div 256) @ [char_of n]"

definition from_be_bytes :: "bytes \<Rightarrow> nat" where
  "from_be_bytes bs = foldl (\<lambda>a c. a * 256 + of_char c) 0 bs"

lemma length_to_be_bytes [simp]: "length (to_be_bytes w n) = w"
  by (induction w arbitrary: n) auto

lemma from_be_bytes_to_be_bytes: "from_be_bytes (to_be_bytes w n) = n mod 256 ^ w"
proof (induction w arbitrary: n)
  case 0
  then show ?case by (simp add: from_be_bytes_def)
next
  case (Suc w)
  have "from_be_bytes (to_be_bytes (Suc w) n) = (n div 256 mod 256 ^ w) * 256 + n mod 256"
    using Suc by (simp add: from_be_bytes_def)
  also have "\<dots> = n mod (256 * 256 ^ w)" by (simp add: mod_mult2_eq)
  finally show ?case by simp
qed

lemma from_be_bytes_inverse [simp]: "n < 256 ^ w \<Longrightarrow> from_be_bytes (to_be_bytes w n) = n"
  by (simp add: from_be_bytes_to_be_bytes)


section \<open>Records\<close>

datatype source = Turns | Nodes

definition source_byte :: "source \<Rightarrow> char" where
  "source_byte s = (case s of Turns \<Rightarrow> CHR 0x00 | Nodes \<Rightarrow> CHR 0x01)"

definition source_from_byte :: "char \<Rightarrow> source option" where
  "source_from_byte b =
     (if b = CHR 0x00 then Some Turns else if b = CHR 0x01 then Some Nodes else None)"

record stream_record =
  r_seq :: nat
  r_ts_ms :: nat
  r_source :: source
  r_subject :: str
  r_producer :: str
  r_payload :: bytes

definition RECORD_HEADER_BYTES :: nat where "RECORD_HEADER_BYTES = 12"

definition record_size :: "stream_record \<Rightarrow> nat" where
  "record_size r =
     RECORD_HEADER_BYTES + 8 + 8 + 1 + 2 + length (r_subject r) + 2 + length (r_producer r)
     + length (r_payload r)"

definition checksum :: "bytes \<Rightarrow> 32 word" where
  "checksum bs =
     (let hash = foldl (\<lambda>h b. (h XOR of_char b) * 0x100000001b3) (0xcbf29ce484222325 :: 64 word) bs
      in ucast (hash XOR drop_bit 32 hash))"

definition encode_body :: "stream_record \<Rightarrow> bytes" where
  "encode_body r =
     to_be_bytes 8 (r_seq r) @ to_be_bytes 8 (r_ts_ms r) @ [source_byte (r_source r)]
     @ to_be_bytes 2 (length (r_subject r)) @ r_subject r
     @ to_be_bytes 2 (length (r_producer r)) @ r_producer r @ r_payload r"

definition encode_record :: "stream_record \<Rightarrow> bytes" where
  "encode_record r =
     (let body = encode_body r
      in to_be_bytes 4 (length body) @ to_be_bytes 4 (unat (checksum body)) @ body)"

text \<open>\<^verbatim>\<open>body.get(at..at + n)\<close> of the closure \<^verbatim>\<open>take\<close>: the slice and what follows it.\<close>

definition take_slice :: "nat \<Rightarrow> bytes \<Rightarrow> (bytes \<times> bytes) option" where
  "take_slice n bs = (if n \<le> length bs then Some (take n bs, drop n bs) else None)"

definition utf8_str :: "bytes \<Rightarrow> str option" where
  "utf8_str bs = (if utf8_valid bs then Some bs else None)"

definition decode_body :: "bytes \<Rightarrow> stream_record option" where
  "decode_body body = do {
     (seq, body) \<leftarrow> take_slice 8 body;
     (ts_ms, body) \<leftarrow> take_slice 8 body;
     (src, body) \<leftarrow> take_slice 1 body;
     source \<leftarrow> source_from_byte (hd src);
     (slen, body) \<leftarrow> take_slice 2 body;
     (subject, body) \<leftarrow> take_slice (from_be_bytes slen) body;
     subject \<leftarrow> utf8_str subject;
     (plen, body) \<leftarrow> take_slice 2 body;
     (producer, body) \<leftarrow> take_slice (from_be_bytes plen) body;
     producer \<leftarrow> utf8_str producer;
     Some \<lparr> r_seq = from_be_bytes seq, r_ts_ms = from_be_bytes ts_ms, r_source = source,
            r_subject = subject, r_producer = producer, r_payload = body \<rparr>
   }"

text \<open>The records of a segment from offset \<^verbatim>\<open>at\<close>, and how many leading bytes are whole.\<close>

function decode_from :: "bytes \<Rightarrow> nat \<Rightarrow> stream_record list \<times> nat" where
  "decode_from bytes at =
     (if length bytes - at < RECORD_HEADER_BYTES then ([], at)
      else
        let len = from_be_bytes (take 4 (drop at bytes));
            sum = from_be_bytes (take 4 (drop (at + 4) bytes));
            start = at + 8
        in case take_slice len (drop start bytes) of
             None \<Rightarrow> ([], at)
           | Some (body, _) \<Rightarrow>
               if unat (checksum body) \<noteq> sum then ([], at)
               else (case decode_body body of
                       None \<Rightarrow> ([], at)
                     | Some record \<Rightarrow>
                         (let (records, whole) = decode_from bytes (start + len)
                          in (record # records, whole))))"
  by pat_completeness auto

termination
  by (relation "measure (\<lambda>(bs, at). length bs - at)") (auto simp: RECORD_HEADER_BYTES_def)

declare decode_from.simps [simp del]

definition decode_records :: "bytes \<Rightarrow> stream_record list \<times> nat" where
  "decode_records bytes = decode_from bytes 0"


section \<open>Round trip\<close>

text \<open>The records a segment can hold: integers within their widths and UTF-8 names.\<close>

definition wf_record :: "stream_record \<Rightarrow> bool" where
  "wf_record r \<longleftrightarrow>
     r_seq r < 2 ^ 64 \<and> r_ts_ms r < 2 ^ 64 \<and>
     length (r_subject r) < 2 ^ 16 \<and> length (r_producer r) < 2 ^ 16 \<and>
     length (encode_body r) < 2 ^ 32 \<and> utf8_valid (r_subject r) \<and> utf8_valid (r_producer r)"

lemma take_slice_append [simp]: "length a = n \<Longrightarrow> take_slice n (a @ b) = Some (a, b)"
  by (simp add: take_slice_def)

lemma take_slice_1_Cons [simp]: "take_slice (Suc 0) (x # b) = Some ([x], b)"
  by (simp add: take_slice_def)

lemma source_roundtrip [simp]: "source_from_byte (source_byte s) = Some s"
  by (cases s) (simp_all add: source_from_byte_def source_byte_def)

lemma decode_encode_body: "wf_record r \<Longrightarrow> decode_body (encode_body r) = Some r"
  by (simp add: decode_body_def encode_body_def wf_record_def utf8_str_def)

lemma length_encode_body:
  "length (encode_body r) = 21 + length (r_subject r) + length (r_producer r) + length (r_payload r)"
  by (simp add: encode_body_def)

lemma length_encode_record: "length (encode_record r) = 8 + length (encode_body r)"
  by (simp add: encode_record_def Let_def)

lemma unat_checksum_bound: "unat (checksum b) < 256 ^ 4"
  using unsigned_less [of "checksum b"] by simp

text \<open>One record is decoded from the front of what remains.\<close>

lemma decode_from_step:
  assumes "wf_record r" "drop at bytes = encode_record r @ rest"
  shows "decode_from bytes at =
    (let (records, whole) = decode_from bytes (at + length (encode_record r))
     in (r # records, whole))"
proof -
  let ?b = "encode_body r"
  have at: "at \<le> length bytes"
    using assms(2) length_encode_record [of r] by (metis append_is_Nil_conv drop_all
        length_0_conv add_is_0 linear zero_neq_numeral)
  have len: "length bytes - at = 8 + length ?b + length rest"
    using arg_cong [OF assms(2), of length] by (simp add: length_encode_record)
  have d: "drop at bytes =
      to_be_bytes 4 (length ?b) @ to_be_bytes 4 (unat (checksum ?b)) @ ?b @ rest"
    using assms(2) by (simp add: encode_record_def Let_def)
  have 1: "take 4 (drop at bytes) = to_be_bytes 4 (length ?b)" by (simp add: d)
  have "drop (at + 4) bytes = drop 4 (drop at bytes)" by (simp add: add.commute)
  then have 2: "take 4 (drop (at + 4) bytes) = to_be_bytes 4 (unat (checksum ?b))" by (simp add: d)
  have "drop (at + 8) bytes = drop 8 (drop at bytes)" by (simp add: add.commute)
  then have 3: "drop (at + 8) bytes = ?b @ rest" by (simp add: d)
  have 4: "from_be_bytes (to_be_bytes 4 (length ?b)) = length ?b"
    using assms(1) by (simp add: wf_record_def)
  have 5: "from_be_bytes (to_be_bytes 4 (unat (checksum ?b))) = unat (checksum ?b)"
    using unat_checksum_bound by (rule from_be_bytes_inverse)
  have 6: "\<not> length bytes - at < RECORD_HEADER_BYTES"
    using len length_encode_body [of r] by (simp add: RECORD_HEADER_BYTES_def)
  show ?thesis
    by (subst decode_from.simps)
       (simp add: 1 2 3 4 5 6 Let_def decode_encode_body [OF assms(1)] length_encode_record
         add.assoc)
qed

text \<open>A torn write: a proper prefix of one encoded record.\<close>

definition torn :: "bytes \<Rightarrow> bool" where
  "torn t \<longleftrightarrow> (\<exists>r rest. wf_record r \<and> rest \<noteq> [] \<and> encode_record r = t @ rest)"

lemma torn_Nil: "wf_record r \<Longrightarrow> torn []"
  unfolding torn_def using length_encode_record [of r] by (intro exI [of _ r]) auto

lemma decode_from_torn:
  assumes "torn t" "drop at bytes = t" "at \<le> length bytes"
  shows "decode_from bytes at = ([], at)"
proof (cases "length bytes - at < RECORD_HEADER_BYTES")
  case True
  then show ?thesis by (subst decode_from.simps) simp
next
  case False
  obtain r rest where r: "wf_record r" "rest \<noteq> []" "encode_record r = t @ rest"
    using assms(1) by (auto simp: torn_def)
  let ?b = "encode_body r"
  have lt: "length t = length bytes - at" using assms by auto
  then have t8: "8 \<le> length t" using False by (simp add: RECORD_HEADER_BYTES_def)
  have "take 4 t = take 4 (encode_record r)" using r(3) t8 by simp
  also have "\<dots> = to_be_bytes 4 (length ?b)" by (simp add: encode_record_def Let_def)
  finally have 1: "from_be_bytes (take 4 (drop at bytes)) = length ?b"
    using assms(2) r(1) by (simp add: wf_record_def)
  have "length (drop (at + 8) bytes) < length ?b"
    using r(2,3) lt length_encode_record [of r] t8 by (cases rest) auto
  then show ?thesis
    using False by (subst decode_from.simps) (simp add: 1 take_slice_def Let_def)
qed

lemma decode_from_concat:
  assumes "\<forall>r \<in> set rs. wf_record r" "torn t"
    and "drop at bytes = concat (map encode_record rs) @ t" "at \<le> length bytes"
  shows "decode_from bytes at = (rs, length bytes - length t)"
  using assms
proof (induction rs arbitrary: at)
  case Nil
  moreover from this have "length t = length bytes - at" by auto
  ultimately show ?case by (simp add: decode_from_torn)
next
  case (Cons r rs)
  let ?at = "at + length (encode_record r)"
  have "drop ?at bytes = drop (length (encode_record r)) (drop at bytes)" by (simp add: add.commute)
  then have "drop ?at bytes = concat (map encode_record rs) @ t" using Cons.prems(3) by simp
  moreover have "?at \<le> length bytes"
    using arg_cong [OF Cons.prems(3), of length] Cons.prems(4) by simp
  ultimately have "decode_from bytes ?at = (rs, length bytes - length t)" using Cons by simp
  then show ?case using decode_from_step [of r at bytes] Cons.prems by simp
qed

lemma decode_records_concat:
  assumes "\<forall>r \<in> set rs. wf_record r" "torn t"
  shows "decode_records (concat (map encode_record rs) @ t) =
    (rs, length (concat (map encode_record rs)))"
  using decode_from_concat [OF assms, of 0 "concat (map encode_record rs) @ t"]
  by (simp add: decode_records_def)

definition sample_record :: stream_record where
  "sample_record =
     \<lparr> r_seq = 7, r_ts_ms = 1000, r_source = Nodes, r_subject = ''storage.usage'',
       r_producer = ''AI.a@h'', r_payload = ''{}'' \<rparr>"

lemma wf_sample_record: "wf_record (sample_record \<lparr> r_seq := n \<rparr>)" if "n < 2 ^ 64"
  using that
  by (simp add: wf_record_def length_encode_body sample_record_def utf8_valid_def)

lemma torn_empty [simp]: "torn []"
  using torn_Nil [OF wf_sample_record [of 7]] by simp


section \<open>Properties\<close>

text \<open>C29: recovery of a segment.  Whatever records were written whole, and wherever the write of the
  next one was cut, decoding the segment returns exactly those records, in order, and the length of
  the torn tail is what the returned offset leaves: the checksum is not even needed for a cut.\<close>

theorem decode_records_recovers:
  assumes "\<forall>r \<in> set rs. wf_record r" "torn t"
  shows "decode_records (concat (map encode_record rs) @ t) =
    (rs, length (concat (map encode_record rs)))"
  using assms by (rule decode_records_concat)

lemma torn_sample: "torn (take 10 (encode_record sample_record))"
  unfolding torn_def
  using wf_sample_record [of 7]
  by (intro exI [of _ sample_record] exI [of _ "drop 10 (encode_record sample_record)"])
     (simp add: length_encode_record length_encode_body sample_record_def)

theorem decode_records_recovers_witness:
  "decode_records
     (concat (map encode_record [sample_record, sample_record \<lparr> r_seq := 8 \<rparr>])
      @ take 10 (encode_record sample_record)) =
   ([sample_record, sample_record \<lparr> r_seq := 8 \<rparr>],
    length (concat (map encode_record [sample_record, sample_record \<lparr> r_seq := 8 \<rparr>])))"
proof (rule decode_records_recovers)
  show "\<forall>r \<in> set [sample_record, sample_record \<lparr> r_seq := 8 \<rparr>]. wf_record r"
    using wf_sample_record [of 7] wf_sample_record [of 8] by (simp add: sample_record_def)
qed (rule torn_sample)

text \<open>The size the caps account for is four bytes more than what a segment holds.\<close>

lemma record_size_encoded: "record_size r = length (encode_record r) + 4"
  by (simp add: record_size_def RECORD_HEADER_BYTES_def length_encode_record length_encode_body)

end
