(* ===== verification/Protocol.thy ===== *)
theory Protocol
  imports Node_Names
begin

text \<open>
  The wire types of \<^verbatim>\<open>crates/fluxbee_sdk/src/protocol.rs\<close> and the action classes of
  \<^verbatim>\<open>crates/fluxbee_sdk/src/policy.rs\<close>: messages with their routing and meta headers, the
  destination and its JSON form, the builders of the system messages a router sends, the scope of a
  configuration notice and the interest of a consumer in a vault notice.  A JSON value is a tree; a
  number is kept as its text, since no modelled code computes with one.
\<close>

section \<open>Data\<close>

datatype json =
    JNull | JBool bool | JNum str | JStr str | JArr "json list" | JObj "(str \<times> json) list"

datatype destination = Unicast str | Broadcast | Resolve

datatype action_class =
    SendMessage | Read | Write | SystemConfig | TopologyChange | ExternalAction | IdentityChange
  | WorkflowStep | NodeLifecycle

datatype action_result = Blocked | Applied | Failed | Accepted

datatype turn_direction = TurnIn | TurnOut

text \<open>The summaries of a memory package are JSON values here: the router carries them and never
  reads them.  The turns are a list, because delivery drops the oldest ones.\<close>

record memory_turn =
  turn_direction_of :: turn_direction
  turn_src_ilk :: "str option"
  turn_via :: "str option"
  turn_writer :: "json option"
  turn_to :: "json option"
  turn_to_via :: "str option"
  turn_text :: str
  turn_attachments :: nat
  turn_choice :: "json option"
  turn_ts :: str

record memory_package =
  package_version :: nat
  package_thread_id :: str
  dominant_context :: "json option"
  dominant_reason :: "json option"
  package_contexts :: "json list"
  package_reasons :: "json list"
  package_memories :: "json list"
  package_feelings :: "json list"
  package_news :: "json list"
  package_turns :: "memory_turn list"
  package_truncated :: "json option"

record routing =
  rt_src :: str
  rt_src_l2_name :: "str option"
  rt_dst :: destination
  rt_ttl :: nat
  rt_trace_id :: str

record meta =
  mt_msg_type :: str
  mt_msg :: "str option"
  mt_src_ilk :: "str option"
  mt_dst_ilk :: "str option"
  mt_ich :: "str option"
  mt_thread_id :: "str option"
  mt_memory_package :: "memory_package option"
  mt_scope :: "str option"
  mt_target :: "str option"
  mt_action :: "str option"
  mt_action_class :: "action_class option"
  mt_action_result :: "action_result option"
  mt_result_origin :: "str option"
  mt_result_detail_code :: "str option"
  mt_priority :: "str option"
  mt_context :: "json option"
  mt_via_tap :: bool

record message =
  msg_routing :: routing
  msg_meta :: meta
  msg_payload :: json

record lsa_node =
  ln_uuid :: str
  ln_name :: str
  ln_vpn_id :: nat

record lsa_route =
  lr_prefix :: str
  lr_match_kind :: str
  lr_action :: str
  lr_next_hop_hive :: str
  lr_metric :: nat

record lsa_vpn =
  lv_pattern :: str
  lv_match_kind :: str
  lv_vpn_id :: nat

record lsa_tap =
  lt_match_src :: str
  lt_match_dst :: str
  lt_target :: str
  lt_mode :: str
  lt_enabled :: bool

record lsa_payload =
  lp_hive :: str
  lp_router_id :: str
  lp_router_name :: str
  lp_seq :: nat
  lp_timestamp :: str
  lp_nodes :: "lsa_node list"
  lp_routes :: "lsa_route list"
  lp_vpns :: "lsa_vpn list"
  lp_taps :: "lsa_tap list"

record wan_reachability_entry =
  we_uuid :: str
  we_name :: str
  we_hive_id :: str
  we_vpn_id :: nat

record wan_reachability_payload =
  wp_origin_hive :: str
  wp_router_id :: str
  wp_router_name :: str
  wp_seq :: nat
  wp_timestamp :: str
  wp_entries :: "wan_reachability_entry list"


section \<open>Kinds and classes\<close>

definition is_solution_kind :: "str \<Rightarrow> bool" where
  "is_solution_kind msg_type =
     (\<not> is_system_kind msg_type \<and> msg_type \<noteq> ''admin'' \<and> msg_type \<noteq> ''query_response'')"

definition classify_routed_message :: "str \<Rightarrow> action_class option" where
  "classify_routed_message msg_type =
     (if msg_type \<in> {''system'', ''admin'', ''query_response''} then None else Some SendMessage)"

definition classify_admin_action :: "str \<Rightarrow> action_class option" where
  "classify_admin_action action =
     (if action \<in> set [''list_hives'', ''get_hive'', ''list_nodes'', ''list_tenant_nodes'',
          ''get_node_status'', ''node_help'', ''get_node_config'', ''get_node_state'',
          ''get_versions'', ''list_versions'', ''inventory'', ''opa_get_status'',
          ''opa_get_policy'', ''list_routes'', ''list_vpns'', ''list_runtimes'', ''get_runtime'',
          ''get_runtimes'', ''node_control_config_get''] then Some Read
      else if action \<in> set [''set_node_config'', ''node_control_config_set'',
          ''publish_artifact'', ''unpublish_artifact'', ''record_drift_alert''] then Some Write
      else if action \<in> set [''add_route'', ''delete_route'', ''add_vpn'', ''delete_vpn'',
          ''opa_apply'', ''opa_compile_apply'', ''opa_rollback'', ''opa_clear'',
          ''update_policy_matrix'', ''clear_override'', ''sync_hint'', ''update'',
          ''set_storage'', ''core_rollback'', ''remove_runtime_version''] then Some SystemConfig
      else if action \<in> set [''add_hive'', ''remove_hive''] then Some TopologyChange
      else if action \<in> set [''run_node'', ''kill_node'', ''remove_node_instance'']
        then Some NodeLifecycle
      else if action \<in> set [''create_tenant'', ''update_tenant'', ''approve_tenant'',
          ''list_ilks'', ''get_ilk'', ''delete_ilk'', ''restore_ilk'', ''purge_ilk'',
          ''delete_tenant'', ''restore_tenant'', ''purge_tenant'', ''list_vocabulary'',
          ''add_vocabulary'', ''deprecate_vocabulary''] then Some IdentityChange
      else if action = ''send_node_message'' then Some SendMessage
      else None)"

definition classify_system_message :: "str \<Rightarrow> action_class option" where
  "classify_system_message msg =
     (if msg \<in> set [''CONFIG_GET'', ''STATUS'', ''PING'', ''NODE_CONFIG_GET'', ''NODE_STATE_GET'',
          ''NODE_STATUS_GET'', ''NODE_HELP'', ''GET_VERSIONS'', ''GET_RUNTIMES'', ''LIST_NODES'',
          ''GET_RUNTIME'', ''INVENTORY_REQUEST'', ''ILK_LIST'', ''ILK_GET''] then Some Read
      else if msg \<in> set [''CONFIG_SET'', ''NODE_CONFIG_SET''] then Some Write
      else if msg \<in> set [''RUNTIME_UPDATE'', ''SYSTEM_UPDATE'', ''SYSTEM_CORE_ROLLBACK'',
          ''SYSTEM_SYNC_HINT'', ''OPA_APPLY'', ''OPA_COMPILE_APPLY'', ''OPA_ROLLBACK'']
        then Some SystemConfig
      else if msg \<in> set [''ADD_HIVE_FINALIZE'', ''REMOVE_HIVE_CLEANUP''] then Some TopologyChange
      else if msg \<in> set [''SPAWN_NODE'', ''KILL_NODE'', ''REMOVE_NODE_INSTANCE'']
        then Some NodeLifecycle
      else None)"

definition action_class_requires_result :: "action_class \<Rightarrow> bool" where
  "action_class_requires_result c = (c \<noteq> SendMessage \<and> c \<noteq> Read)"

definition is_status :: "str option \<Rightarrow> str \<Rightarrow> bool" where
  "is_status s v = (case s of Some x \<Rightarrow> eq_ignore_ascii_case x v | None \<Rightarrow> False)"

definition derive_action_outcome ::
  "action_class option \<Rightarrow> str option \<Rightarrow> str option \<Rightarrow> action_result option \<times> str option" where
  "derive_action_outcome action_class status error_code =
     (case action_class of
        None \<Rightarrow> (None, None)
      | Some c \<Rightarrow>
          if \<not> action_class_requires_result c then (None, None)
          else if is_status status ''ok'' then (Some Applied, None)
          else if is_status status ''accepted'' then (Some Accepted, None)
          else if is_status status ''blocked'' \<or> is_status error_code ''FORBIDDEN''
            then (Some Blocked, Some ''node'')
          else if status \<noteq> None then (Some Failed, None)
          else (None, None))"


section \<open>Destinations\<close>

definition serialize_dst :: "destination \<Rightarrow> json" where
  "serialize_dst d =
     (case d of Unicast v \<Rightarrow> JStr v | Broadcast \<Rightarrow> JStr ''broadcast'' | Resolve \<Rightarrow> JNull)"

definition deserialize_dst :: "json \<Rightarrow> destination option" where
  "deserialize_dst v =
     (case v of
        JNull \<Rightarrow> Some Resolve
      | JStr s \<Rightarrow> Some (if s = ''broadcast'' then Broadcast else Unicast s)
      | _ \<Rightarrow> None)"


section \<open>Builders\<close>

definition meta_default :: meta where
  "meta_default =
     \<lparr> mt_msg_type = [], mt_msg = None, mt_src_ilk = None, mt_dst_ilk = None, mt_ich = None,
       mt_thread_id = None, mt_memory_package = None, mt_scope = None, mt_target = None,
       mt_action = None, mt_action_class = None, mt_action_result = None,
       mt_result_origin = None, mt_result_detail_code = None, mt_priority = None,
       mt_context = None, mt_via_tap = False \<rparr>"

definition build_system_message ::
  "str \<Rightarrow> destination \<Rightarrow> nat \<Rightarrow> str \<Rightarrow> str \<Rightarrow> json \<Rightarrow> message" where
  "build_system_message src dst ttl trace_id msg payload =
     \<lparr> msg_routing = \<lparr> rt_src = src, rt_src_l2_name = None, rt_dst = dst, rt_ttl = ttl,
                       rt_trace_id = trace_id \<rparr>,
       msg_meta = meta_default \<lparr> mt_msg_type := SYSTEM_KIND, mt_msg := Some msg \<rparr>,
       msg_payload = payload \<rparr>"

definition build_hello :: "str \<Rightarrow> str \<Rightarrow> json \<Rightarrow> message" where
  "build_hello src trace_id payload =
     build_system_message src Resolve 1 trace_id ''HELLO'' payload"

definition build_router_hello :: "str \<Rightarrow> str \<Rightarrow> json \<Rightarrow> message" where
  "build_router_hello src trace_id payload =
     build_system_message src Resolve 1 trace_id ''HELLO'' payload"

definition build_wan_hello :: "str \<Rightarrow> str \<Rightarrow> json \<Rightarrow> message" where
  "build_wan_hello src trace_id payload =
     build_system_message src Resolve 1 trace_id ''HELLO'' payload"

definition build_wan_accept :: "str \<Rightarrow> str \<Rightarrow> str \<Rightarrow> json \<Rightarrow> message" where
  "build_wan_accept src dst trace_id payload =
     build_system_message src (Unicast dst) 1 trace_id ''WAN_ACCEPT'' payload"

definition build_wan_reject :: "str \<Rightarrow> str \<Rightarrow> str \<Rightarrow> json \<Rightarrow> message" where
  "build_wan_reject src dst trace_id payload =
     build_system_message src (Unicast dst) 1 trace_id ''WAN_REJECT'' payload"

definition build_announce :: "str \<Rightarrow> str \<Rightarrow> str \<Rightarrow> json \<Rightarrow> message" where
  "build_announce src dst trace_id payload =
     build_system_message src (Unicast dst) 1 trace_id ''ANNOUNCE'' payload"

definition build_unreachable :: "str \<Rightarrow> str \<Rightarrow> str \<Rightarrow> str \<Rightarrow> str \<Rightarrow> message" where
  "build_unreachable src dst trace_id original_dst reason =
     build_system_message src (Unicast dst) 16 trace_id ''UNREACHABLE''
       (JObj [(''original_dst'', JStr original_dst), (''reason'', JStr reason)])"

definition build_ttl_exceeded :: "str \<Rightarrow> str \<Rightarrow> str \<Rightarrow> str \<Rightarrow> str \<Rightarrow> message" where
  "build_ttl_exceeded src dst trace_id original_dst last_hop =
     build_system_message src (Unicast dst) 16 trace_id ''TTL_EXCEEDED''
       (JObj [(''original_dst'', JStr original_dst), (''last_hop'', JStr last_hop)])"

definition build_lsa :: "str \<Rightarrow> str \<Rightarrow> str \<Rightarrow> json \<Rightarrow> message" where
  "build_lsa src dst trace_id payload =
     build_system_message src (Unicast dst) 1 trace_id ''LSA'' payload"

definition build_wan_reachability :: "str \<Rightarrow> str \<Rightarrow> str \<Rightarrow> json \<Rightarrow> message" where
  "build_wan_reachability src dst trace_id payload =
     build_system_message src (Unicast dst) 1 trace_id ''WAN_REACHABILITY'' payload"

definition build_echo :: "str \<Rightarrow> destination \<Rightarrow> str \<Rightarrow> message" where
  "build_echo src dst trace_id = build_system_message src dst 1 trace_id ''ECHO'' (JObj [])"

definition build_echo_reply :: "str \<Rightarrow> destination \<Rightarrow> str \<Rightarrow> message" where
  "build_echo_reply src dst trace_id =
     build_system_message src dst 1 trace_id ''ECHO_REPLY'' (JObj [])"

definition build_time_sync :: "str \<Rightarrow> destination \<Rightarrow> str \<Rightarrow> json \<Rightarrow> message" where
  "build_time_sync src dst trace_id payload =
     (let msg = build_system_message src dst 1 trace_id ''TIME_SYNC'' payload
      in msg \<lparr> msg_meta := (msg_meta msg) \<lparr> mt_scope := Some SCOPE_GLOBAL \<rparr> \<rparr>)"

definition build_withdraw :: "str \<Rightarrow> destination \<Rightarrow> str \<Rightarrow> str \<Rightarrow> message" where
  "build_withdraw src dst trace_id u =
     build_system_message src dst 1 trace_id ''WITHDRAW'' (JObj [(''uuid'', JStr u)])"


definition source_l2_name :: "message \<Rightarrow> str option" where
  "source_l2_name msg = rt_src_l2_name (msg_routing msg)"


section \<open>Notices\<close>

text \<open>\<^verbatim>\<open>ConfigChangedPayload::addressed_to\<close>, on the payload's \<^verbatim>\<open>hive\<close> field.\<close>

definition addressed_to :: "str option \<Rightarrow> str \<Rightarrow> bool" where
  "addressed_to hive local_hive =
     (case map_option trim hive of
        None \<Rightarrow> True | Some h \<Rightarrow> h = [] \<or> h = local_hive)"

definition DEFAULT_ROOT_TENANT_ID :: str where
  "DEFAULT_ROOT_TENANT_ID = ''tnt:00000000-0000-0000-0000-000000000001''"

record vault_secret_changed =
  vc_resource_type :: str
  vc_tenant_id :: str
  vc_ilk :: "str option"
  vc_assigned_ilks :: "str list"
  vc_general :: bool

record vault_secret_interest =
  vi_resource_type :: str
  vi_my_tenant :: str
  vi_my_ilk :: "str option"
  vi_system_caller :: bool

definition non_blank :: "str option \<Rightarrow> str option" where
  "non_blank s = (case map_option trim s of Some v \<Rightarrow> (if v = [] then None else Some v) | None \<Rightarrow> None)"

definition matches_interest :: "vault_secret_changed \<Rightarrow> vault_secret_interest \<Rightarrow> bool" where
  "matches_interest ev i =
     (vc_resource_type ev = vi_resource_type i \<and>
      ((case non_blank (vi_my_ilk i) of
          Some mine \<Rightarrow> non_blank (vc_ilk ev) = Some mine \<or> mine \<in> trim ` set (vc_assigned_ilks ev)
        | None \<Rightarrow> False)
       \<or> (vc_general ev \<and>
          (vc_tenant_id ev = vi_my_tenant i
           \<or> (vi_system_caller i \<and> vc_tenant_id ev = DEFAULT_ROOT_TENANT_ID)))))"


section \<open>Lemmas\<close>

lemma deserialize_serialize_dst:
  "deserialize_dst (serialize_dst d) = Some (if d = Unicast ''broadcast'' then Broadcast else d)"
  by (cases d) (auto simp: deserialize_dst_def serialize_dst_def)

lemma is_system_kind_SYSTEM_KIND [simp]: "is_system_kind SYSTEM_KIND"
  by (simp add: is_system_kind_def)

lemma built_system_message [simp]:
  "mt_msg_type (msg_meta (build_system_message s d t i m p)) = SYSTEM_KIND"
  "mt_msg (msg_meta (build_system_message s d t i m p)) = Some m"
  "rt_src_l2_name (msg_routing (build_system_message s d t i m p)) = None"
  "rt_dst (msg_routing (build_system_message s d t i m p)) = d"
  "rt_ttl (msg_routing (build_system_message s d t i m p)) = t"
  "rt_src (msg_routing (build_system_message s d t i m p)) = s"
  "mt_via_tap (msg_meta (build_system_message s d t i m p)) = False"
  by (simp_all add: build_system_message_def meta_default_def)

lemma classified_is_solution_or_system:
  "classify_routed_message k = Some SendMessage \<Longrightarrow> is_solution_kind k \<or> is_system_kind k"
  by (auto simp: classify_routed_message_def is_solution_kind_def split: if_splits)

end
