(* ===== verification/Stream_Log.thy ===== *)
theory Stream_Log
  imports Stream_Codec Protocol "HOL-Library.AList"
begin

text \<open>
  The log of the router's stream shared by the disk thread and the senders
  (\<^verbatim>\<open>src/src/router/stream.rs\<close>): which producer may append, which sinks a subject has, the window
  and the caps, the batches of a sink and their acknowledgements.  The sinks' map is an association
  list; its order is the iteration order of the code's hash map, which nothing depends on.  The
  four critical sections of the code's lock are the steps of \<^verbatim>\<open>log_step\<close>, interleaved in any order.
\<close>

section \<open>The window and its knobs\<close>

definition STREAM_MAX_AGE_SECS :: nat where "STREAM_MAX_AGE_SECS = 120"
definition STREAM_MAX_BYTES :: nat where "STREAM_MAX_BYTES = 32 * 1024 * 1024"
definition STREAM_NODE_APPENDS_SHARE_PERCENT :: nat where
  "STREAM_NODE_APPENDS_SHARE_PERCENT = 25"
definition STREAM_BATCH_MAX_RECORDS :: nat where "STREAM_BATCH_MAX_RECORDS = 256"
definition STREAM_BATCH_MAX_BYTES :: nat where "STREAM_BATCH_MAX_BYTES = 96 * 1024"
definition STREAM_USAGE_RESERVE_BYTES :: nat where "STREAM_USAGE_RESERVE_BYTES = 1024 * 1024"
definition STREAM_RETRY_MIN_MS :: nat where "STREAM_RETRY_MIN_MS = 500"
definition STREAM_RETRY_MAX_MS :: nat where "STREAM_RETRY_MAX_MS = 8000"
definition BATCH_ENVELOPE_BYTES :: nat where "BATCH_ENVELOPE_BYTES = 1024"
definition BATCH_RECORD_OVERHEAD_BYTES :: nat where "BATCH_RECORD_OVERHEAD_BYTES = 96"

definition SUBJECT_STORAGE_TURNS :: str where "SUBJECT_STORAGE_TURNS = ''storage.turns''"
definition SUBJECT_COGNITION_TURNS :: str where "SUBJECT_COGNITION_TURNS = ''cognition.turns''"
definition SUBJECT_STORAGE_USAGE :: str where "SUBJECT_STORAGE_USAGE = ''storage.usage''"
definition MSG_STREAM_ACK :: str where "MSG_STREAM_ACK = ''STREAM_ACK''"


section \<open>Producers and sinks\<close>

definition role_runs_cognition :: "str \<Rightarrow> bool" where
  "role_runs_cognition role = (to_ascii_lowercase (trim role) \<in> {''motherbee'', ''worker''})"

definition usage_producer_allowed :: "str \<Rightarrow> str \<Rightarrow> bool" where
  "usage_producer_allowed producer role =
     (let name = to_ascii_lowercase (role_of producer)
      in if name = ''sy.cognition'' then role_runs_cognition role
         else if name \<in> {''sy.frontdesk.gov'', ''sy.architect'', ''sy.admin''}
           then eq_ignore_ascii_case (trim role) ''motherbee''
         else True)"

definition subject_allowed :: "str \<Rightarrow> str \<Rightarrow> str \<Rightarrow> bool" where
  "subject_allowed subject producer role =
     (subject = SUBJECT_STORAGE_USAGE \<and> usage_producer_allowed producer role)"

definition sinks_for :: "str \<Rightarrow> str \<Rightarrow> str \<Rightarrow> str list" where
  "sinks_for subject role hive_id =
     (if subject = SUBJECT_COGNITION_TURNS then
        (if role_runs_cognition role then [''SY.cognition@'' @ hive_id] else [])
      else if subject = SUBJECT_STORAGE_TURNS \<or> subject = SUBJECT_STORAGE_USAGE
        then [''SY.storage@'' @ PRIMARY_HIVE_ID]
      else [])"

definition all_sinks :: "str \<Rightarrow> str \<Rightarrow> str list" where
  "all_sinks role hive_id =
     foldl (\<lambda>sinks sink. if sink \<in> set sinks then sinks else sinks @ [sink]) []
       (concat (map (\<lambda>subject. sinks_for subject role hive_id)
          [SUBJECT_STORAGE_TURNS, SUBJECT_STORAGE_USAGE, SUBJECT_COGNITION_TURNS]))"


section \<open>The shared log\<close>

record sink_state =
  ss_cursor :: nat
  ss_in_flight_up_to :: nat
  ss_delivered :: nat
  ss_expired :: nat
  ss_oversize :: nat
  ss_failures :: nat
  ss_last_ack_ms :: nat

definition sink_default :: sink_state where
  "sink_default = \<lparr> ss_cursor = 0, ss_in_flight_up_to = 0, ss_delivered = 0, ss_expired = 0,
                    ss_oversize = 0, ss_failures = 0, ss_last_ack_ms = 0 \<rparr>"

record shared =
  sh_records :: "stream_record list"
  sh_turn_bytes :: nat
  sh_node_bytes :: nat
  sh_usage_lost :: nat
  sh_next_seq :: nat
  sh_fsynced_seq :: nat
  sh_sinks :: "(str \<times> sink_state) list"
  sh_role :: str
  sh_hive_id :: str

record counters =
  ct_appended_turns :: nat
  ct_appended_nodes :: nat
  ct_dropped_queue_turns :: nat
  ct_dropped_queue_nodes :: nat
  ct_dropped_cap_turns :: nat
  ct_dropped_cap_nodes :: nat
  ct_refused :: nat
  ct_disk_errors :: nat
  ct_usage_lost :: nat

record incoming =
  in_source :: source
  in_ts_ms :: nat
  in_subject :: str
  in_producer :: str
  in_payload :: bytes

definition sinks_of :: "shared \<Rightarrow> str \<Rightarrow> str list" where
  "sinks_of sh subject = sinks_for subject (sh_role sh) (sh_hive_id sh)"

definition aged :: "nat \<Rightarrow> stream_record \<Rightarrow> bool" where
  "aged now r = (now - r_ts_ms r > STREAM_MAX_AGE_SECS * 1000)"

definition record_done :: "shared \<Rightarrow> stream_record \<Rightarrow> nat \<Rightarrow> bool" where
  "record_done sh r now =
     list_all (\<lambda>sink. case map_of (sh_sinks sh) sink of
         Some state \<Rightarrow> ss_cursor state \<ge> r_seq r
                       \<or> (aged now r \<and> ss_in_flight_up_to state < r_seq r)
       | None \<Rightarrow> aged now r) (sinks_of sh (r_subject r))"

text \<open>A record leaving the log: counted as expired for each of its sinks that did not take it.\<close>

definition expire_for :: "stream_record \<Rightarrow> str \<Rightarrow> shared \<Rightarrow> shared" where
  "expire_for r sink sh =
     (case map_of (sh_sinks sh) sink of
        Some state \<Rightarrow>
          if ss_cursor state < r_seq r then
            sh \<lparr> sh_sinks := AList.update sink (state \<lparr> ss_expired := ss_expired state + 1 \<rparr>) (sh_sinks sh),
                 sh_usage_lost := (if r_subject r = SUBJECT_STORAGE_USAGE
                                   then sh_usage_lost sh + 1 else sh_usage_lost sh) \<rparr>
          else sh
      | None \<Rightarrow> sh)"

definition sub_bytes :: "source \<Rightarrow> nat \<Rightarrow> shared \<Rightarrow> shared" where
  "sub_bytes source sz sh =
     (case source of
        Turns \<Rightarrow> sh \<lparr> sh_turn_bytes := sh_turn_bytes sh - sz \<rparr>
      | Nodes \<Rightarrow> sh \<lparr> sh_node_bytes := sh_node_bytes sh - sz \<rparr>)"

definition pop_front :: "stream_record \<Rightarrow> stream_record list \<Rightarrow> shared \<Rightarrow> shared" where
  "pop_front r rest sh =
     sub_bytes (r_source r) (record_size r)
       (fold (expire_for r) (sinks_of sh (r_subject r)) (sh \<lparr> sh_records := rest \<rparr>))"

lemma sh_records_fold_expire [simp]:
  "sh_records (fold (expire_for r) ks sh) = sh_records sh"
  by (induction ks arbitrary: sh) (auto simp: expire_for_def split: option.splits)

lemma sh_records_pop_front [simp]: "sh_records (pop_front r rest sh) = rest"
  by (auto simp: pop_front_def sub_bytes_def split: source.splits)

function trim_loop :: "nat \<Rightarrow> shared \<Rightarrow> shared" where
  "trim_loop now sh =
     (case sh_records sh of
        [] \<Rightarrow> sh
      | r # rest \<Rightarrow>
          if record_done sh r now then trim_loop now (pop_front r rest sh) else sh)"
  by pat_completeness auto

termination
  by (relation "measure (\<lambda>(now, sh). length (sh_records sh))") auto

declare trim_loop.simps [simp del]

definition first_kept :: "shared \<Rightarrow> nat" where
  "first_kept sh = (case sh_records sh of r # _ \<Rightarrow> r_seq r | [] \<Rightarrow> sh_next_seq sh)"

definition log_trim :: "nat \<Rightarrow> shared \<Rightarrow> shared \<times> nat" where
  "log_trim now sh = (let sh' = trim_loop now sh in (sh', first_kept sh'))"

definition node_cap :: nat where
  "node_cap = STREAM_MAX_BYTES * STREAM_NODE_APPENDS_SHARE_PERCENT div 100"

definition fits :: "shared \<Rightarrow> source \<Rightarrow> str \<Rightarrow> nat \<Rightarrow> bool" where
  "fits sh source subject sz =
     (let total = sh_turn_bytes sh + sh_node_bytes sh + sz
      in case source of
           Turns \<Rightarrow> total \<le> STREAM_MAX_BYTES \<and> sh_turn_bytes sh + sz \<le> STREAM_MAX_BYTES - node_cap
         | Nodes \<Rightarrow>
             if subject = SUBJECT_STORAGE_USAGE
             then total \<le> STREAM_MAX_BYTES \<and> sh_node_bytes sh + sz \<le> node_cap
             else total \<le> STREAM_MAX_BYTES
               \<and> sh_node_bytes sh + sz \<le> node_cap - STREAM_USAGE_RESERVE_BYTES)"

text \<open>The part of \<^verbatim>\<open>take_incoming\<close> under the lock: the record placed in the log, if any.\<close>

definition push_record :: "stream_record \<Rightarrow> shared \<Rightarrow> shared" where
  "push_record r sh =
     (let sh = sh \<lparr> sh_next_seq := sh_next_seq sh + 1, sh_records := sh_records sh @ [r] \<rparr>
      in case r_source r of
           Turns \<Rightarrow> sh \<lparr> sh_turn_bytes := sh_turn_bytes sh + record_size r \<rparr>
         | Nodes \<Rightarrow> sh \<lparr> sh_node_bytes := sh_node_bytes sh + record_size r \<rparr>)"

definition count_appended :: "source \<Rightarrow> counters \<Rightarrow> counters" where
  "count_appended source c =
     (case source of
        Turns \<Rightarrow> c \<lparr> ct_appended_turns := ct_appended_turns c + 1 \<rparr>
      | Nodes \<Rightarrow> c \<lparr> ct_appended_nodes := ct_appended_nodes c + 1 \<rparr>)"

definition count_dropped_cap :: "stream_record \<Rightarrow> counters \<Rightarrow> counters" where
  "count_dropped_cap r c =
     (let c = (case r_source r of
          Turns \<Rightarrow> c \<lparr> ct_dropped_cap_turns := ct_dropped_cap_turns c + 1 \<rparr>
        | Nodes \<Rightarrow> c \<lparr> ct_dropped_cap_nodes := ct_dropped_cap_nodes c + 1 \<rparr>)
      in if r_subject r = SUBJECT_STORAGE_USAGE
         then c \<lparr> ct_usage_lost := ct_usage_lost c + 1 \<rparr> else c)"

definition incoming_record :: "shared \<Rightarrow> incoming \<Rightarrow> stream_record" where
  "incoming_record sh i =
     \<lparr> r_seq = sh_next_seq sh, r_ts_ms = in_ts_ms i, r_source = in_source i,
       r_subject = in_subject i, r_producer = in_producer i, r_payload = in_payload i \<rparr>"

definition take_incoming ::
  "nat \<Rightarrow> incoming \<Rightarrow> shared \<Rightarrow> counters \<Rightarrow> shared \<times> counters \<times> stream_record option" where
  "take_incoming now i sh c =
     (let r = incoming_record sh i; sz = record_size r in
      if fits sh (r_source r) (r_subject r) sz
      then (push_record r sh, count_appended (r_source r) c, Some r)
      else let sh = fst (log_trim now sh) in
        if fits sh (r_source r) (r_subject r) sz
        then (push_record r sh, count_appended (r_source r) c, Some r)
        else (sh, count_dropped_cap r c, None))"


section \<open>Batches\<close>

datatype batch_plan = Idle | Skipped | Send "stream_record list" nat nat

record plan_acc =
  pa_passed :: nat
  pa_scanned :: nat
  pa_out :: "stream_record list"
  pa_bytes :: nat
  pa_expired :: nat
  pa_oversize :: nat
  pa_usage_lost :: nat

definition batch_record_size :: "stream_record \<Rightarrow> nat" where
  "batch_record_size r =
     length (r_payload r) + length (r_subject r) + length (r_producer r) + BATCH_RECORD_OVERHEAD_BYTES"

definition too_big :: "stream_record \<Rightarrow> bool" where
  "too_big r = (batch_record_size r + BATCH_ENVELOPE_BYTES > STREAM_BATCH_MAX_BYTES)"

text \<open>The loop of \<^verbatim>\<open>plan_batch\<close> over the log; \<^verbatim>\<open>takes\<close> says whether the sink takes a record.\<close>

fun plan_scan ::
  "(stream_record \<Rightarrow> bool) \<Rightarrow> nat \<Rightarrow> nat \<Rightarrow> stream_record list \<Rightarrow> plan_acc \<Rightarrow> plan_acc" where
  "plan_scan takes cursor now [] a = a"
| "plan_scan takes cursor now (r # rest) a =
     (if r_seq r \<le> cursor then plan_scan takes cursor now rest a
      else if \<not> takes r then
        plan_scan takes cursor now rest
          (a \<lparr> pa_scanned := r_seq r,
               pa_passed := (if pa_out a = [] then r_seq r else pa_passed a) \<rparr>)
      else if aged now r \<or> too_big r then
        (if pa_out a \<noteq> [] then a
         else plan_scan takes cursor now rest
           (a \<lparr> pa_expired := (if aged now r then pa_expired a + 1 else pa_expired a),
                pa_oversize := (if aged now r then pa_oversize a else pa_oversize a + 1),
                pa_usage_lost := (if r_subject r = SUBJECT_STORAGE_USAGE
                                  then pa_usage_lost a + 1 else pa_usage_lost a),
                pa_passed := r_seq r, pa_scanned := r_seq r \<rparr>))
      else if pa_out a \<noteq> [] \<and> (length (pa_out a) \<ge> STREAM_BATCH_MAX_RECORDS
             \<or> pa_bytes a + batch_record_size r > STREAM_BATCH_MAX_BYTES) then a
      else plan_scan takes cursor now rest
             (a \<lparr> pa_bytes := pa_bytes a + batch_record_size r, pa_scanned := r_seq r,
                  pa_out := pa_out a @ [r] \<rparr>))"

definition plan_start :: "nat \<Rightarrow> plan_acc" where
  "plan_start cursor =
     \<lparr> pa_passed = cursor, pa_scanned = cursor, pa_out = [], pa_bytes = BATCH_ENVELOPE_BYTES,
       pa_expired = 0, pa_oversize = 0, pa_usage_lost = 0 \<rparr>"

definition sink_entry :: "shared \<Rightarrow> str \<Rightarrow> sink_state" where
  "sink_entry sh sink =
     (case map_of (sh_sinks sh) sink of Some state \<Rightarrow> state | None \<Rightarrow> sink_default)"

definition sink_takes :: "shared \<Rightarrow> str \<Rightarrow> stream_record \<Rightarrow> bool" where
  "sink_takes sh sink r = (sink \<in> set (sinks_of sh (r_subject r)))"

text \<open>The sink's entry after a scan.\<close>

definition planned_sink :: "sink_state \<Rightarrow> plan_acc \<Rightarrow> sink_state" where
  "planned_sink state a =
     (let state = state \<lparr> ss_expired := ss_expired state + pa_expired a,
                          ss_oversize := ss_oversize state + pa_oversize a \<rparr>;
          state = (if pa_passed a > ss_cursor state then state \<lparr> ss_cursor := pa_passed a \<rparr> else state)
      in if pa_out a = [] then state
         else state \<lparr> ss_in_flight_up_to := r_seq (last (pa_out a)) \<rparr>)"

definition plan_batch :: "shared \<Rightarrow> str \<Rightarrow> nat \<Rightarrow> shared \<times> batch_plan" where
  "plan_batch sh sink now =
     (let cursor = ss_cursor (sink_entry sh sink);
          a = plan_scan (sink_takes sh sink) cursor now (sh_records sh) (plan_start cursor)
      in (sh \<lparr> sh_usage_lost := sh_usage_lost sh + pa_usage_lost a,
               sh_sinks := AList.update sink (planned_sink (sink_entry sh sink) a) (sh_sinks sh) \<rparr>,
          if pa_out a = [] then (if pa_passed a > cursor then Skipped else Idle)
          else Send (pa_out a) (r_seq (last (pa_out a))) (pa_scanned a)))"

text \<open>\<^verbatim>\<open>accept_ack\<close>; \<^verbatim>\<open>ack_of\<close> decodes the payload of an acknowledgement.\<close>

definition accept_ack ::
  "(json \<Rightarrow> nat option) \<Rightarrow> message \<Rightarrow> str \<Rightarrow> nat \<Rightarrow> nat \<Rightarrow> nat \<Rightarrow> nat option" where
  "accept_ack ack_of msg sink cursor last_seq scanned_up_to =
     (if mt_msg (msg_meta msg) \<noteq> Some MSG_STREAM_ACK then None
      else case rt_src_l2_name (msg_routing msg) of
        None \<Rightarrow> None
      | Some from \<Rightarrow>
          if \<not> eq_ignore_ascii_case from sink then None
          else case ack_of (msg_payload msg) of
            None \<Rightarrow> None
          | Some up_to_seq \<Rightarrow>
              if up_to_seq \<le> cursor \<or> up_to_seq > last_seq then None
              else if up_to_seq = last_seq then Some scanned_up_to
              else Some up_to_seq)"

text \<open>What \<^verbatim>\<open>run_sink\<close> does with the reply of a batch: no reply at all is \<^verbatim>\<open>None\<close>.\<close>

definition finish_batch ::
  "(json \<Rightarrow> nat option) \<Rightarrow> nat \<Rightarrow> str \<Rightarrow> stream_record list \<times> nat \<times> nat \<Rightarrow> message option \<Rightarrow>
   shared \<Rightarrow> shared \<times> bool" where
  "finish_batch ack_of now sink batch reply sh =
     (let (records, last_seq, scanned_up_to) = batch;
          state = (sink_entry sh sink) \<lparr> ss_in_flight_up_to := 0 \<rparr>;
          cursor = (case reply of
              None \<Rightarrow> None
            | Some msg \<Rightarrow> accept_ack ack_of msg sink (ss_cursor state) last_seq scanned_up_to)
      in case cursor of
           Some cursor \<Rightarrow>
             (sh \<lparr> sh_sinks := AList.update sink
                (state \<lparr> ss_delivered := ss_delivered state
                           + length (filter (\<lambda>r. r_seq r \<le> cursor) records),
                         ss_cursor := cursor, ss_last_ack_ms := now \<rparr>) (sh_sinks sh) \<rparr>, True)
         | None \<Rightarrow>
             (sh \<lparr> sh_sinks := AList.update sink
                (state \<lparr> ss_failures := ss_failures state + 1 \<rparr>) (sh_sinks sh) \<rparr>, False))"

definition next_backoff :: "bool \<Rightarrow> nat \<Rightarrow> nat" where
  "next_backoff accepted backoff =
     (if accepted then STREAM_RETRY_MIN_MS else min (backoff * 2) STREAM_RETRY_MAX_MS)"



section \<open>The log as a state machine\<close>

text \<open>The critical sections of the code's lock as steps: the disk thread takes an incoming record,
  trims the log or publishes what it synced; the sender of a sink plans its next batch, and later
  books its reply.  Between the two the sender waits, and its batch is in \<^verbatim>\<open>lg_flight\<close>.  \<^verbatim>\<open>lg_owed\<close>
  counts the records placed in the log for a sink, and the two \<^verbatim>\<open>lg_open\<close> fields keep the bytes the
  log started with: history the code does not hold.\<close>

record log_sys =
  lg_shared :: shared
  lg_counters :: counters
  lg_flight :: "str \<Rightarrow> (stream_record list \<times> nat \<times> nat) option"
  lg_owed :: "str \<Rightarrow> nat"
  lg_open_turn_bytes :: nat
  lg_open_node_bytes :: nat

inductive log_step :: "(json \<Rightarrow> nat option) \<Rightarrow> log_sys \<Rightarrow> log_sys \<Rightarrow> bool"
  for ack_of :: "json \<Rightarrow> nat option" where
  take: "take_incoming now i (lg_shared s) (lg_counters s) = (sh, c, placed) \<Longrightarrow>
    log_step ack_of s
      (s \<lparr> lg_shared := sh, lg_counters := c,
           lg_owed := (\<lambda>k. lg_owed s k
             + (case placed of Some r \<Rightarrow> (if sink_takes sh k r then 1 else 0) | None \<Rightarrow> 0)) \<rparr>)"
| housekeeping: "log_step ack_of s (s \<lparr> lg_shared := fst (log_trim now (lg_shared s)) \<rparr>)"
| synced: "log_step ack_of s (s \<lparr> lg_shared := (lg_shared s) \<lparr> sh_fsynced_seq := n \<rparr> \<rparr>)"
| plan: "sink \<in> set (all_sinks (sh_role (lg_shared s)) (sh_hive_id (lg_shared s))) \<Longrightarrow>
    lg_flight s sink = None \<Longrightarrow> plan_batch (lg_shared s) sink now = (sh, plan) \<Longrightarrow>
    log_step ack_of s
      (s \<lparr> lg_shared := sh,
           lg_flight := (case plan of
               Send records last_seq scanned \<Rightarrow>
                 (lg_flight s) (sink := Some (records, last_seq, scanned))
             | _ \<Rightarrow> lg_flight s) \<rparr>)"
| reply: "lg_flight s sink = Some batch \<Longrightarrow>
    finish_batch ack_of now sink batch result (lg_shared s) = (sh, accepted) \<Longrightarrow>
    log_step ack_of s (s \<lparr> lg_shared := sh, lg_flight := (lg_flight s) (sink := None) \<rparr>)"

inductive_cases log_stepE: "log_step ack_of s s'"

end
