(* ===== verification/Stream_Accounting.thy ===== *)
theory Stream_Accounting
  imports Stream_Log
begin

text \<open>
  Soundness of the stream's log under any interleaving of its critical sections: the order of its
  records, its byte counters and caps, what a batch in flight stands for, and the conservation of
  every record per sink.  The operations' lemmas come first, one group each for trimming, scanning,
  planning and booking a reply; the state machine's invariant and its interpretation follow.
\<close>

section \<open>Order, bytes and tallies of a log\<close>

definition log_ordered :: "shared \<Rightarrow> bool" where
  "log_ordered sh \<longleftrightarrow>
     sorted_wrt (<) (map r_seq (sh_records sh)) \<and> (\<forall>r \<in> set (sh_records sh). r_seq r < sh_next_seq sh)"

definition bytes_of :: "source \<Rightarrow> stream_record list \<Rightarrow> nat" where
  "bytes_of s rs = sum_list (map record_size (filter (\<lambda>r. r_source r = s) rs))"

definition bytes_exact :: "shared \<Rightarrow> bool" where
  "bytes_exact sh \<longleftrightarrow>
     sh_turn_bytes sh = bytes_of Turns (sh_records sh) \<and>
     sh_node_bytes sh = bytes_of Nodes (sh_records sh)"

definition pending :: "shared \<Rightarrow> str \<Rightarrow> nat \<Rightarrow> stream_record list" where
  "pending sh k cursor = filter (\<lambda>r. cursor < r_seq r \<and> sink_takes sh k r) (sh_records sh)"

text \<open>What became of the records of a sink: taken, lost, or still in the log.\<close>

definition tally :: "shared \<Rightarrow> str \<Rightarrow> nat" where
  "tally sh k =
     (case map_of (sh_sinks sh) k of
        None \<Rightarrow> 0
      | Some st \<Rightarrow> ss_delivered st + ss_expired st + ss_oversize st
                   + length (pending sh k (ss_cursor st)))"

text \<open>The batch a sink waits on is the part of the log it stands for.\<close>

definition flight_ok :: "shared \<Rightarrow> str \<Rightarrow> (stream_record list \<times> nat \<times> nat) option \<Rightarrow> bool" where
  "flight_ok sh k fl \<longleftrightarrow>
     (case fl of
        None \<Rightarrow> True
      | Some (records, last_seq, scanned) \<Rightarrow>
          (\<exists>st. map_of (sh_sinks sh) k = Some st \<and> ss_in_flight_up_to st = last_seq \<and>
                records \<noteq> [] \<and> last_seq = r_seq (last records) \<and> last_seq \<le> scanned \<and>
                scanned < sh_next_seq sh \<and>
                records = filter (\<lambda>r. r_seq r \<le> scanned) (pending sh k (ss_cursor st))))"

lemma distinct_sinks_for: "distinct (sinks_for s role h)"
  by (simp add: sinks_for_def)

lemma expire_for_sinks:
  "map_of (sh_sinks (expire_for r k' sh)) k =
     map_option (\<lambda>st. if k = k' \<and> ss_cursor st < r_seq r
                      then st \<lparr> ss_expired := ss_expired st + 1 \<rparr> else st) (map_of (sh_sinks sh) k)"
  by (cases "map_of (sh_sinks sh) k"; cases "map_of (sh_sinks sh) k'")
     (auto simp: expire_for_def update_conv')

lemma fold_expire_sinks:
  "distinct ks \<Longrightarrow>
   map_of (sh_sinks (fold (expire_for r) ks sh)) k =
     map_option (\<lambda>st. if k \<in> set ks \<and> ss_cursor st < r_seq r
                      then st \<lparr> ss_expired := ss_expired st + 1 \<rparr> else st) (map_of (sh_sinks sh) k)"
proof (induction ks arbitrary: sh)
  case Nil
  then show ?case by (simp add: option.map_ident)
next
  case (Cons k' ks)
  then show ?case
    by (cases "map_of (sh_sinks sh) k") (auto simp: expire_for_sinks)
qed

lemma fold_expire_frame [simp]:
  "sh_turn_bytes (fold (expire_for r) ks sh) = sh_turn_bytes sh"
  "sh_node_bytes (fold (expire_for r) ks sh) = sh_node_bytes sh"
  "sh_next_seq (fold (expire_for r) ks sh) = sh_next_seq sh"
  "sh_role (fold (expire_for r) ks sh) = sh_role sh"
  "sh_hive_id (fold (expire_for r) ks sh) = sh_hive_id sh"
  by (induction ks arbitrary: sh) (auto simp: expire_for_def split: option.splits)

lemma sub_bytes_frame [simp]:
  "sh_records (sub_bytes s n sh) = sh_records sh"
  "sh_next_seq (sub_bytes s n sh) = sh_next_seq sh"
  "sh_sinks (sub_bytes s n sh) = sh_sinks sh"
  "sh_role (sub_bytes s n sh) = sh_role sh"
  "sh_hive_id (sub_bytes s n sh) = sh_hive_id sh"
  by (auto simp: sub_bytes_def split: source.splits)

lemma pop_front_frame [simp]:
  "sh_next_seq (pop_front r rest sh) = sh_next_seq sh"
  "sh_role (pop_front r rest sh) = sh_role sh"
  "sh_hive_id (pop_front r rest sh) = sh_hive_id sh"
  "sink_takes (pop_front r rest sh) = sink_takes sh"
  by (simp_all add: pop_front_def sink_takes_def sinks_of_def fun_eq_iff)

lemma pop_front_sinks:
  "map_of (sh_sinks (pop_front r rest sh)) k =
     map_option (\<lambda>st. if sink_takes sh k r \<and> ss_cursor st < r_seq r
                      then st \<lparr> ss_expired := ss_expired st + 1 \<rparr> else st) (map_of (sh_sinks sh) k)"
  by (simp add: pop_front_def fold_expire_sinks distinct_sinks_for sinks_of_def sink_takes_def)

lemma pop_front_bytes:
  "bytes_exact sh \<Longrightarrow> sh_records sh = r # rest \<Longrightarrow> bytes_exact (pop_front r rest sh)"
  by (cases "r_source r") (auto simp: bytes_exact_def bytes_of_def pop_front_def sub_bytes_def)

lemma pop_front_ordered:
  "log_ordered sh \<Longrightarrow> sh_records sh = r # rest \<Longrightarrow> log_ordered (pop_front r rest sh)"
  by (simp add: log_ordered_def)

lemma pop_front_tally:
  "sh_records sh = r # rest \<Longrightarrow> tally (pop_front r rest sh) k = tally sh k"
  by (auto simp: tally_def pop_front_sinks pending_def split: option.splits)

lemma pop_front_flight:
  assumes "flight_ok sh k fl" "sh_records sh = r # rest" "record_done sh r now" "log_ordered sh"
  shows "flight_ok (pop_front r rest sh) k fl"
proof (cases fl)
  case None
  then show ?thesis by (simp add: flight_ok_def)
next
  case (Some b)
  obtain records l sc where b: "fl = Some (records, l, sc)" using Some by (cases b) auto
  then obtain st where st: "map_of (sh_sinks sh) k = Some st" "ss_in_flight_up_to st = l"
      "records \<noteq> []" "l = r_seq (last records)" "l \<le> sc" "sc < sh_next_seq sh"
      "records = filter (\<lambda>r. r_seq r \<le> sc) (pending sh k (ss_cursor st))"
    using assms(1) by (auto simp: flight_ok_def)
  have sorted: "sorted_wrt (<) (map r_seq records)"
    using assms(4) unfolding st(7) pending_def log_ordered_def
    by (simp add: sorted_wrt_map sorted_wrt_filter)
  have out: "\<not> (ss_cursor st < r_seq r \<and> r_seq r \<le> sc \<and> sink_takes sh k r)"
  proof
    assume c: "ss_cursor st < r_seq r \<and> r_seq r \<le> sc \<and> sink_takes sh k r"
    then have "r \<in> set records" unfolding st(7) using assms(2) by (simp add: pending_def)
    then have "r_seq r \<le> l" unfolding st(4) using sorted st(3)
      by (cases records rule: rev_cases) (auto simp: sorted_wrt_append)
    moreover have "ss_cursor st \<ge> r_seq r \<or> ss_in_flight_up_to st < r_seq r"
      using assms(3) c st(1) unfolding record_done_def list_all_iff sink_takes_def by fastforce
    ultimately show False using c st(2) by simp
  qed
  show ?thesis
    unfolding b flight_ok_def using st out assms(2)
    by (auto simp: pop_front_sinks pending_def)
qed

lemma trim_loop_preserves:
  assumes "\<And>sh r rest now. P sh \<Longrightarrow> sh_records sh = r # rest \<Longrightarrow> record_done sh r now \<Longrightarrow>
      P (pop_front r rest sh)"
  shows "P sh \<Longrightarrow> P (trim_loop now sh)"
proof (induction now sh rule: trim_loop.induct)
  case (1 now sh)
  show ?case
  proof (cases "sh_records sh")
    case Nil
    then show ?thesis using "1.prems" by (simp add: trim_loop.simps [of now sh])
  next
    case (Cons r rest)
    then show ?thesis
      using "1.prems" "1.IH" [OF Cons] assms [of sh r rest now]
      by (simp add: trim_loop.simps [of now sh])
  qed
qed


section \<open>One scan of the log\<close>

text \<open>After the records \<^verbatim>\<open>P\<close> of the log: what is passed is counted, what is beyond it is the batch.\<close>

definition scan_inv ::
  "(stream_record \<Rightarrow> bool) \<Rightarrow> nat \<Rightarrow> nat \<Rightarrow> stream_record list \<Rightarrow> plan_acc \<Rightarrow> bool" where
  "scan_inv takes cursor now P a \<longleftrightarrow>
     cursor \<le> pa_passed a \<and> pa_passed a \<le> pa_scanned a \<and>
     (pa_scanned a = cursor \<or> pa_scanned a \<in> r_seq ` set P) \<and>
     (\<forall>r \<in> set P. r_seq r \<le> pa_scanned a) \<and>
     (pa_out a = [] \<longrightarrow> pa_scanned a = pa_passed a) \<and>
     pa_expired a + pa_oversize a =
       length (filter (\<lambda>r. cursor < r_seq r \<and> r_seq r \<le> pa_passed a \<and> takes r) P) \<and>
     pa_out a = filter (\<lambda>r. pa_passed a < r_seq r \<and> takes r) P"

definition batch_bounded :: "nat \<Rightarrow> plan_acc \<Rightarrow> bool" where
  "batch_bounded now a \<longleftrightarrow>
     (\<forall>r \<in> set (pa_out a). \<not> aged now r) \<and>
     pa_bytes a = BATCH_ENVELOPE_BYTES + sum_list (map batch_record_size (pa_out a)) \<and>
     length (pa_out a) \<le> STREAM_BATCH_MAX_RECORDS \<and> pa_bytes a \<le> STREAM_BATCH_MAX_BYTES"

text \<open>One iteration of the loop: its cases and what the loop continues with.\<close>

definition pass_lost :: "nat \<Rightarrow> stream_record \<Rightarrow> plan_acc \<Rightarrow> plan_acc" where
  "pass_lost now r a =
     a \<lparr> pa_expired := (if aged now r then pa_expired a + 1 else pa_expired a),
         pa_oversize := (if aged now r then pa_oversize a else pa_oversize a + 1),
         pa_usage_lost := (if r_subject r = SUBJECT_STORAGE_USAGE
                           then pa_usage_lost a + 1 else pa_usage_lost a),
         pa_passed := r_seq r, pa_scanned := r_seq r \<rparr>"

definition add_record :: "stream_record \<Rightarrow> plan_acc \<Rightarrow> plan_acc" where
  "add_record r a =
     a \<lparr> pa_bytes := pa_bytes a + batch_record_size r, pa_scanned := r_seq r,
         pa_out := pa_out a @ [r] \<rparr>"

lemma plan_scan_iteration:
  obtains
    (old) "r_seq r \<le> cursor"
      "plan_scan takes cursor now (r # rest) a = plan_scan takes cursor now rest a"
  | (pass) "cursor < r_seq r" "\<not> takes r" "pa_out a = []"
      "plan_scan takes cursor now (r # rest) a =
       plan_scan takes cursor now rest (a \<lparr> pa_scanned := r_seq r, pa_passed := r_seq r \<rparr>)"
  | (over) "cursor < r_seq r" "\<not> takes r" "pa_out a \<noteq> []"
      "plan_scan takes cursor now (r # rest) a =
       plan_scan takes cursor now rest (a \<lparr> pa_scanned := r_seq r \<rparr>)"
  | (lost) "cursor < r_seq r" "takes r" "pa_out a = []"
      "plan_scan takes cursor now (r # rest) a = plan_scan takes cursor now rest (pass_lost now r a)"
  | (stop) "plan_scan takes cursor now (r # rest) a = a"
  | (add) "cursor < r_seq r" "takes r" "\<not> aged now r" "\<not> too_big r"
      "pa_out a \<noteq> [] \<Longrightarrow> length (pa_out a) < STREAM_BATCH_MAX_RECORDS \<and>
             pa_bytes a + batch_record_size r \<le> STREAM_BATCH_MAX_BYTES"
      "plan_scan takes cursor now (r # rest) a = plan_scan takes cursor now rest (add_record r a)"
proof -
  consider "r_seq r \<le> cursor" | "cursor < r_seq r" "\<not> takes r" "pa_out a = []"
    | "cursor < r_seq r" "\<not> takes r" "pa_out a \<noteq> []"
    | "cursor < r_seq r" "takes r" "aged now r \<or> too_big r"
    | "cursor < r_seq r" "takes r" "\<not> (aged now r \<or> too_big r)"
    by fastforce
  then show thesis
  proof cases
    case 1
    then show ?thesis by (intro old) simp_all
  next
    case 2
    then show ?thesis by (intro pass) simp_all
  next
    case 3
    then show ?thesis by (intro over) simp_all
  next
    case 4
    show ?thesis
    proof (cases "pa_out a = []")
      case True
      then show ?thesis using 4 by (intro lost) (simp_all add: pass_lost_def)
    next
      case False
      then show ?thesis using 4 by (intro stop) simp
    qed
  next
    case 5
    show ?thesis
    proof (cases "pa_out a \<noteq> [] \<and> (length (pa_out a) \<ge> STREAM_BATCH_MAX_RECORDS
             \<or> pa_bytes a + batch_record_size r > STREAM_BATCH_MAX_BYTES)")
      case True
      then show ?thesis using 5 by (intro stop) simp
    next
      case False
      then show ?thesis using 5 by (intro add) (auto simp: add_record_def)
    qed
  qed
qed

lemma batch_bounded_frame:
  "pa_out a' = pa_out a \<Longrightarrow> pa_bytes a' = pa_bytes a \<Longrightarrow> batch_bounded now a' = batch_bounded now a"
  by (simp add: batch_bounded_def)

lemma batch_bounded_add:
  assumes "batch_bounded now a" "\<not> (aged now r \<or> too_big r)"
    and "\<not> (pa_out a \<noteq> [] \<and> (length (pa_out a) \<ge> STREAM_BATCH_MAX_RECORDS
             \<or> pa_bytes a + batch_record_size r > STREAM_BATCH_MAX_BYTES))"
  shows "batch_bounded now (add_record r a)"
  using assms
  by (cases "pa_out a = []")
     (auto simp: batch_bounded_def add_record_def too_big_def STREAM_BATCH_MAX_RECORDS_def)

lemma plan_scan_bounded:
  "batch_bounded now a \<Longrightarrow> batch_bounded now (plan_scan takes cursor now rs a)"
proof (induction rs arbitrary: a)
  case (Cons r rest)
  note frame = batch_bounded_frame [of _ a now, THEN iffD2, OF _ _ Cons.prems]
  show ?case
  proof (cases rule: plan_scan_iteration [of r cursor takes now rest a])
    case add
    have "batch_bounded now (add_record r a)"
      using Cons.prems add(3-5) by (intro batch_bounded_add) (auto simp: not_le)
    then show ?thesis using Cons.IH add by simp
  qed (use Cons.prems Cons.IH frame in \<open>simp_all add: pass_lost_def\<close>)
qed simp

lemma scan_inv_bounds:
  assumes "scan_inv takes cursor now P a"
  shows "cursor \<le> pa_passed a" "pa_passed a \<le> pa_scanned a" "\<forall>r \<in> set P. r_seq r \<le> pa_scanned a"
    and "pa_scanned a = cursor \<or> pa_scanned a \<in> r_seq ` set P"
    and "pa_out a = [] \<Longrightarrow> pa_scanned a = pa_passed a"
    and "pa_expired a + pa_oversize a =
      length (filter (\<lambda>r. cursor < r_seq r \<and> r_seq r \<le> pa_passed a \<and> takes r) P)"
    and "pa_out a = filter (\<lambda>r. pa_passed a < r_seq r \<and> takes r) P"
  using assms unfolding scan_inv_def by argo+

lemma scan_inv_below:
  assumes "scan_inv takes cursor now P a" "cursor < n" "\<forall>p \<in> set P. r_seq p < n"
  shows "pa_scanned a < n"
  using scan_inv_bounds(4) [OF assms(1)] assms(2,3) by (elim disjE imageE) simp_all

lemma scan_inv_skip:
  assumes "scan_inv takes cursor now P a" "r_seq r \<le> cursor"
  shows "scan_inv takes cursor now (P @ [r]) a"
proof -
  have "\<not> cursor < r_seq r" "\<not> pa_passed a < r_seq r" "r_seq r \<le> pa_scanned a"
    using scan_inv_bounds(1,2) [OF assms(1)] assms(2) by linarith+
  then show ?thesis using assms(1) by (auto simp: scan_inv_def)
qed

lemma scan_inv_pass:
  assumes inv: "scan_inv takes cursor now P a" and out: "pa_out a = []" and "cursor < r_seq r"
    and less: "\<forall>p \<in> set P. r_seq p < r_seq r"
    and a': "pa_passed a' = r_seq r" "pa_scanned a' = r_seq r" "pa_out a' = []"
      "pa_expired a' + pa_oversize a' = pa_expired a + pa_oversize a + (if takes r then 1 else 0)"
  shows "scan_inv takes cursor now (P @ [r]) a'"
proof -
  have "filter (\<lambda>r. cursor < r_seq r \<and> r_seq r \<le> pa_passed a \<and> takes r) P =
        filter (\<lambda>p. cursor < r_seq p \<and> r_seq p \<le> r_seq r \<and> takes p) P"
    using scan_inv_bounds(3,5) [OF inv] out less by (intro filter_cong) (auto simp: less_imp_le)
  moreover have "filter (\<lambda>p. r_seq r < r_seq p \<and> takes p) P = []"
    using less by (auto simp: filter_empty_conv)
  moreover have "\<forall>p \<in> set P. r_seq p \<le> r_seq r" using less by (simp add: less_imp_le)
  ultimately show ?thesis using inv assms(3) a' by (simp add: scan_inv_def)
qed

lemma scan_inv_over:
  assumes inv: "scan_inv takes cursor now P a" and "pa_out a \<noteq> []" "\<not> takes r"
    and "cursor < r_seq r" "\<forall>p \<in> set P. r_seq p < r_seq r"
  shows "scan_inv takes cursor now (P @ [r]) (a \<lparr> pa_scanned := r_seq r \<rparr>)"
proof -
  have "pa_passed a \<le> r_seq r" "\<forall>p \<in> set P. r_seq p \<le> r_seq r"
    using scan_inv_below [OF inv assms(4,5)] scan_inv_bounds(2) [OF inv] assms(5)
    by (simp_all add: less_imp_le)
  then show ?thesis using assms by (simp add: scan_inv_def)
qed

lemma scan_inv_add:
  assumes inv: "scan_inv takes cursor now P a" and "takes r"
    and "cursor < r_seq r" "\<forall>p \<in> set P. r_seq p < r_seq r"
  shows "scan_inv takes cursor now (P @ [r]) (add_record r a)"
proof -
  have "pa_passed a < r_seq r" "\<forall>p \<in> set P. r_seq p \<le> r_seq r"
    using scan_inv_below [OF inv assms(3,4)] scan_inv_bounds(2) [OF inv] assms(4)
    by (simp_all add: less_imp_le)
  then show ?thesis using assms by (simp add: scan_inv_def add_record_def)
qed

lemma plan_scan_inv:
  assumes "sorted_wrt (<) (map r_seq (P @ Q))" "scan_inv takes cursor now P a"
  shows "\<exists>P' Q'. P @ Q = P' @ Q' \<and> scan_inv takes cursor now P' (plan_scan takes cursor now Q a)"
  using assms
proof (induction Q arbitrary: P a)
  case Nil
  then show ?case by auto
next
  case (Cons r rest)
  note inv = Cons.prems(2)
  have less: "\<forall>p \<in> set P. r_seq p < r_seq r" using Cons.prems(1) by (simp add: sorted_wrt_append)
  have cont: "\<exists>P' Q'. P @ r # rest = P' @ Q' \<and>
      scan_inv takes cursor now P' (plan_scan takes cursor now rest a')"
    if "scan_inv takes cursor now (P @ [r]) a'" for a'
    using Cons.IH [OF _ that] Cons.prems(1) by simp
  show ?case
  proof (cases rule: plan_scan_iteration [of r cursor takes now rest a])
    case old
    then show ?thesis using cont [OF scan_inv_skip [OF inv old(1)]] by simp
  next
    case pass
    have "scan_inv takes cursor now (P @ [r]) (a \<lparr> pa_scanned := r_seq r, pa_passed := r_seq r \<rparr>)"
      by (rule scan_inv_pass [OF inv pass(3,1) less]) (use pass in auto)
    then show ?thesis using cont pass(4) by simp
  next
    case over
    then show ?thesis using cont [OF scan_inv_over [OF inv over(3,2,1) less]] by simp
  next
    case lost
    have "scan_inv takes cursor now (P @ [r]) (pass_lost now r a)"
      by (rule scan_inv_pass [OF inv lost(3,1) less]) (use lost in \<open>auto simp: pass_lost_def\<close>)
    then show ?thesis using cont lost(4) by simp
  next
    case stop
    then show ?thesis using inv by auto
  next
    case add
    then show ?thesis using cont [OF scan_inv_add [OF inv add(2,1) less]] by simp
  qed
qed

lemma plan_scan_result:
  assumes sorted: "sorted_wrt (<) (map r_seq L)"
    and a_def: "a = plan_scan takes cursor now L (plan_start cursor)"
  shows "cursor \<le> pa_passed a" "pa_passed a \<le> pa_scanned a"
    and "pa_scanned a = cursor \<or> pa_scanned a \<in> r_seq ` set L"
    and "pa_expired a + pa_oversize a =
      length (filter (\<lambda>r. cursor < r_seq r \<and> r_seq r \<le> pa_passed a \<and> takes r) L)"
    and "pa_out a = filter (\<lambda>r. pa_passed a < r_seq r \<and> r_seq r \<le> pa_scanned a \<and> takes r) L"
proof -
  have "scan_inv takes cursor now [] (plan_start cursor)"
    by (simp add: scan_inv_def plan_start_def)
  from plan_scan_inv [of "[]" L, OF _ this] sorted obtain P Q where L: "L = P @ Q"
    and inv: "scan_inv takes cursor now P a"
    by (auto simp: a_def)
  have beyond: "pa_scanned a < r_seq q \<or> r_seq q \<le> cursor" if "q \<in> set Q" for q
    using scan_inv_bounds(4) [OF inv] sorted that unfolding L
    by (cases "r_seq q \<le> cursor") (auto simp: sorted_wrt_append)
  note bounds = scan_inv_bounds(1,2) [OF inv]
  show "cursor \<le> pa_passed a" "pa_passed a \<le> pa_scanned a" by (fact bounds)+
  show "pa_scanned a = cursor \<or> pa_scanned a \<in> r_seq ` set L"
    using scan_inv_bounds(4) [OF inv] by (auto simp: L)
  have "filter (\<lambda>r. cursor < r_seq r \<and> r_seq r \<le> pa_passed a \<and> takes r) Q = []"
    "filter (\<lambda>r. pa_passed a < r_seq r \<and> r_seq r \<le> pa_scanned a \<and> takes r) Q = []"
    using beyond bounds by (force simp: filter_empty_conv)+
  moreover have "filter (\<lambda>r. pa_passed a < r_seq r \<and> r_seq r \<le> pa_scanned a \<and> takes r) P =
      filter (\<lambda>r. pa_passed a < r_seq r \<and> takes r) P"
    using scan_inv_bounds(3) [OF inv] by (intro filter_cong) auto
  ultimately show "pa_expired a + pa_oversize a =
      length (filter (\<lambda>r. cursor < r_seq r \<and> r_seq r \<le> pa_passed a \<and> takes r) L)"
    "pa_out a = filter (\<lambda>r. pa_passed a < r_seq r \<and> r_seq r \<le> pa_scanned a \<and> takes r) L"
    using inv by (simp_all add: scan_inv_def L)
qed


section \<open>The operations keep the log sound\<close>

lemma sink_takes_frame [simp]:
  "sink_takes (sh \<lparr> sh_sinks := x \<rparr>) = sink_takes sh"
  "sink_takes (sh \<lparr> sh_usage_lost := n \<rparr>) = sink_takes sh"
  "sink_takes (sh \<lparr> sh_records := rs \<rparr>) = sink_takes sh"
  "sink_takes (sh \<lparr> sh_next_seq := n \<rparr>) = sink_takes sh"
  "sink_takes (sh \<lparr> sh_turn_bytes := n \<rparr>) = sink_takes sh"
  "sink_takes (sh \<lparr> sh_node_bytes := n \<rparr>) = sink_takes sh"
  "sink_takes (sh \<lparr> sh_fsynced_seq := n \<rparr>) = sink_takes sh"
  by (simp_all add: sink_takes_def sinks_of_def fun_eq_iff)

lemma trim_loop_frame [simp]:
  "sh_next_seq (trim_loop now sh) = sh_next_seq sh"
  "sh_role (trim_loop now sh) = sh_role sh"
  "sh_hive_id (trim_loop now sh) = sh_hive_id sh"
  "sink_takes (trim_loop now sh) = sink_takes sh"
  by (rule trim_loop_preserves [where P = "\<lambda>s. sh_next_seq s = sh_next_seq sh"], simp_all)
     (rule trim_loop_preserves [where P = "\<lambda>s. sh_role s = sh_role sh"], simp_all,
      rule trim_loop_preserves [where P = "\<lambda>s. sh_hive_id s = sh_hive_id sh"], simp_all,
      rule trim_loop_preserves [where P = "\<lambda>s. sink_takes s = sink_takes sh"], simp_all)

lemma trim_loop_ordered: "log_ordered sh \<Longrightarrow> log_ordered (trim_loop now sh)"
  by (rule trim_loop_preserves) (auto intro: pop_front_ordered)

lemma trim_loop_bytes: "bytes_exact sh \<Longrightarrow> bytes_exact (trim_loop now sh)"
  by (rule trim_loop_preserves) (auto intro: pop_front_bytes)

lemma trim_loop_tally: "tally (trim_loop now sh) k = tally sh k"
  by (rule trim_loop_preserves [where P = "\<lambda>s. tally s k = tally sh k"])
     (simp_all add: pop_front_tally)

lemma trim_loop_flight:
  assumes "log_ordered sh" "flight_ok sh k fl"
  shows "flight_ok (trim_loop now sh) k fl"
proof -
  have "log_ordered (trim_loop now sh) \<and> flight_ok (trim_loop now sh) k fl"
    by (rule trim_loop_preserves [where P = "\<lambda>s. log_ordered s \<and> flight_ok s k fl"])
       (use assms in \<open>auto intro: pop_front_ordered pop_front_flight\<close>)
  then show ?thesis ..
qed

lemma trim_loop_keys:
  "map_of (sh_sinks (trim_loop now sh)) k = None \<longleftrightarrow> map_of (sh_sinks sh) k = None"
  by (rule trim_loop_preserves
      [where P = "\<lambda>s. (map_of (sh_sinks s) k = None) = (map_of (sh_sinks sh) k = None)"])
     (simp_all add: pop_front_sinks)

lemma trim_loop_cursor:
  "map_of (sh_sinks (trim_loop now sh)) k = Some st \<Longrightarrow>
   \<exists>st0. map_of (sh_sinks sh) k = Some st0 \<and> ss_cursor st = ss_cursor st0"
proof -
  have "\<forall>st. map_of (sh_sinks (trim_loop now sh)) k = Some st \<longrightarrow>
      (\<exists>st0. map_of (sh_sinks sh) k = Some st0 \<and> ss_cursor st = ss_cursor st0)"
    by (rule trim_loop_preserves
        [where P = "\<lambda>s. \<forall>st. map_of (sh_sinks s) k = Some st \<longrightarrow>
          (\<exists>st0. map_of (sh_sinks sh) k = Some st0 \<and> ss_cursor st = ss_cursor st0)"])
       (auto simp: pop_front_sinks split: if_splits)
  then show "map_of (sh_sinks (trim_loop now sh)) k = Some st \<Longrightarrow> ?thesis" by blast
qed

text \<open>Appending a record with the next sequence number.\<close>

lemma push_record_frame [simp]:
  "sh_records (push_record r sh) = sh_records sh @ [r]"
  "sh_next_seq (push_record r sh) = sh_next_seq sh + 1"
  "sh_sinks (push_record r sh) = sh_sinks sh"
  "sh_role (push_record r sh) = sh_role sh"
  "sh_hive_id (push_record r sh) = sh_hive_id sh"
  "sink_takes (push_record r sh) = sink_takes sh"
  by (auto simp: push_record_def Let_def split: source.splits)

lemma push_record_ordered:
  "log_ordered sh \<Longrightarrow> r_seq r = sh_next_seq sh \<Longrightarrow> log_ordered (push_record r sh)"
  by (auto simp: log_ordered_def sorted_wrt_append less_Suc_eq)

lemma push_record_bytes: "bytes_exact sh \<Longrightarrow> bytes_exact (push_record r sh)"
  by (cases "r_source r") (auto simp: bytes_exact_def bytes_of_def push_record_def)

lemma push_record_tally:
  assumes "map_of (sh_sinks sh) k = Some st" "ss_cursor st < r_seq r"
  shows "tally (push_record r sh) k = tally sh k + (if sink_takes sh k r then 1 else 0)"
  using assms by (simp add: tally_def pending_def)

lemma push_record_flight:
  assumes "flight_ok sh k fl" "r_seq r = sh_next_seq sh"
  shows "flight_ok (push_record r sh) k fl"
  using assms by (auto simp: flight_ok_def pending_def split: option.splits)

lemma length_filter_split:
  "length (filter P xs) = length (filter (\<lambda>x. P x \<and> Q x) xs) + length (filter (\<lambda>x. P x \<and> \<not> Q x) xs)"
  by (induction xs) auto

text \<open>The state of a sink after a plan, and what the plan is.\<close>

lemma plan_batch_shape:
  assumes "log_ordered sh" "map_of (sh_sinks sh) sink = Some st" "plan_batch sh sink now = (sh', plan)"
  obtains passed scanned out lost_e lost_o where
    "ss_cursor st \<le> passed" "passed \<le> scanned"
    "scanned = ss_cursor st \<or> scanned \<in> r_seq ` set (sh_records sh)"
    "lost_e + lost_o = length (filter (\<lambda>r. ss_cursor st < r_seq r \<and> r_seq r \<le> passed
        \<and> sink_takes sh sink r) (sh_records sh))"
    "out = filter (\<lambda>r. passed < r_seq r \<and> r_seq r \<le> scanned \<and> sink_takes sh sink r) (sh_records sh)"
    "map_of (sh_sinks sh') = (map_of (sh_sinks sh))(sink \<mapsto>
       st \<lparr> ss_expired := ss_expired st + lost_e, ss_oversize := ss_oversize st + lost_o,
            ss_cursor := passed,
            ss_in_flight_up_to := (if out = [] then ss_in_flight_up_to st else r_seq (last out)) \<rparr>)"
    "plan = (if out = [] then (if passed > ss_cursor st then Skipped else Idle)
             else Send out (r_seq (last out)) scanned)"
    "sh_records sh' = sh_records sh" "sh_next_seq sh' = sh_next_seq sh"
    "sh_turn_bytes sh' = sh_turn_bytes sh" "sh_node_bytes sh' = sh_node_bytes sh"
    "sink_takes sh' = sink_takes sh" "sh_role sh' = sh_role sh" "sh_hive_id sh' = sh_hive_id sh"
    "length out \<le> STREAM_BATCH_MAX_RECORDS"
    "BATCH_ENVELOPE_BYTES + sum_list (map batch_record_size out) \<le> STREAM_BATCH_MAX_BYTES"
    "\<forall>r \<in> set out. \<not> aged now r"
proof -
  let ?c = "ss_cursor st"
  define a where "a = plan_scan (sink_takes sh sink) ?c now (sh_records sh) (plan_start ?c)"
  have sorted: "sorted_wrt (<) (map r_seq (sh_records sh))" using assms(1) by (simp add: log_ordered_def)
  note res = plan_scan_result [OF sorted a_def]
  have entry: "sink_entry sh sink = st" using assms(2) by (simp add: sink_entry_def)
  have "batch_bounded now (plan_start ?c)"
    by (simp add: batch_bounded_def plan_start_def BATCH_ENVELOPE_BYTES_def STREAM_BATCH_MAX_BYTES_def)
  then have bounded: "batch_bounded now a" unfolding a_def by (rule plan_scan_bounded)
  have sh': "sh' = sh \<lparr> sh_usage_lost := sh_usage_lost sh + pa_usage_lost a,
      sh_sinks := AList.update sink (planned_sink st a) (sh_sinks sh) \<rparr>"
    and plan: "plan = (if pa_out a = [] then (if pa_passed a > ?c then Skipped else Idle)
             else Send (pa_out a) (r_seq (last (pa_out a))) (pa_scanned a))"
    using assms(3) unfolding plan_batch_def entry Let_def a_def [symmetric] by auto
  have st': "planned_sink st a = st \<lparr> ss_expired := ss_expired st + pa_expired a,
      ss_oversize := ss_oversize st + pa_oversize a, ss_cursor := pa_passed a,
      ss_in_flight_up_to := (if pa_out a = [] then ss_in_flight_up_to st
                             else r_seq (last (pa_out a))) \<rparr>"
    using res(1) by (simp add: planned_sink_def Let_def le_less) auto
  show thesis
    by (rule that [OF res _ plan])
       (use bounded in \<open>simp_all add: sh' st' update_conv' batch_bounded_def\<close>)
qed


definition cursors_ok :: "shared \<Rightarrow> bool" where
  "cursors_ok sh \<longleftrightarrow> (\<forall>k st. map_of (sh_sinks sh) k = Some st \<longrightarrow> ss_cursor st < sh_next_seq sh)"

lemma pending_split:
  assumes "c \<le> d"
  shows "length (pending sh k c) =
    length (filter (\<lambda>r. c < r_seq r \<and> r_seq r \<le> d \<and> sink_takes sh k r) (sh_records sh))
    + length (pending sh k d)"
proof -
  have "filter (\<lambda>r. (c < r_seq r \<and> sink_takes sh k r) \<and> r_seq r \<le> d) (sh_records sh) =
        filter (\<lambda>r. c < r_seq r \<and> r_seq r \<le> d \<and> sink_takes sh k r) (sh_records sh)"
    by (intro filter_cong) auto
  moreover have "filter (\<lambda>r. (c < r_seq r \<and> sink_takes sh k r) \<and> \<not> r_seq r \<le> d) (sh_records sh) =
        pending sh k d"
    unfolding pending_def using assms by (intro filter_cong) auto
  ultimately show ?thesis
    using length_filter_split [of "\<lambda>r. c < r_seq r \<and> sink_takes sh k r" "sh_records sh"
        "\<lambda>r. r_seq r \<le> d"]
    by (simp add: pending_def [of sh k c])
qed

lemma pending_cong:
  "sh_records sh' = sh_records sh \<Longrightarrow> sink_takes sh' = sink_takes sh \<Longrightarrow> pending sh' = pending sh"
  by (simp add: pending_def fun_eq_iff)

lemma plan_batch_sound:
  assumes "log_ordered sh" "cursors_ok sh" "map_of (sh_sinks sh) sink = Some st"
    and plan: "plan_batch sh sink now = (sh', plan)"
  shows "tally sh' k = tally sh k"
    and "log_ordered sh'" "cursors_ok sh'" "bytes_exact sh \<Longrightarrow> bytes_exact sh'"
    and "plan = Send recs l sc \<Longrightarrow> flight_ok sh' sink (Some (recs, l, sc))"
    and "k \<noteq> sink \<Longrightarrow> flight_ok sh k fl \<Longrightarrow> flight_ok sh' k fl"
    and "map_of (sh_sinks sh') k = None \<longleftrightarrow> map_of (sh_sinks sh) k = None"
    and "sink_takes sh' = sink_takes sh" "sh_role sh' = sh_role sh" "sh_hive_id sh' = sh_hive_id sh"
proof -
  obtain passed scanned out e o' where
    le: "ss_cursor st \<le> passed" "passed \<le> scanned"
      "scanned = ss_cursor st \<or> scanned \<in> r_seq ` set (sh_records sh)" and
    lost: "e + o' = length (filter (\<lambda>r. ss_cursor st < r_seq r \<and> r_seq r \<le> passed
        \<and> sink_takes sh sink r) (sh_records sh))" and
    out: "out = filter (\<lambda>r. passed < r_seq r \<and> r_seq r \<le> scanned \<and> sink_takes sh sink r) (sh_records sh)" and
    sinks: "map_of (sh_sinks sh') = (map_of (sh_sinks sh))(sink \<mapsto>
       st \<lparr> ss_expired := ss_expired st + e, ss_oversize := ss_oversize st + o', ss_cursor := passed,
            ss_in_flight_up_to := (if out = [] then ss_in_flight_up_to st else r_seq (last out)) \<rparr>)" and
    pl: "plan = (if out = [] then (if passed > ss_cursor st then Skipped else Idle)
             else Send out (r_seq (last out)) scanned)" and
    fr: "sh_records sh' = sh_records sh" "sh_next_seq sh' = sh_next_seq sh"
      "sh_turn_bytes sh' = sh_turn_bytes sh" "sh_node_bytes sh' = sh_node_bytes sh"
      "sink_takes sh' = sink_takes sh" "sh_role sh' = sh_role sh" "sh_hive_id sh' = sh_hive_id sh"
    by (rule plan_batch_shape [OF assms(1,3) plan])
  note pend = pending_cong [OF fr(1,5)]
  have scanned: "scanned < sh_next_seq sh"
    using le(3) assms(1-3) by (auto simp: cursors_ok_def log_ordered_def)
  show "tally sh' k = tally sh k"
    using lost pending_split [OF le(1), of sh sink] assms(3)
    by (cases "k = sink") (simp_all add: tally_def sinks pend split: option.split)
  show "log_ordered sh'" using assms(1) fr by (simp add: log_ordered_def)
  show "cursors_ok sh'" using assms(2) le(2) scanned fr(2) by (auto simp: cursors_ok_def sinks)
  show "bytes_exact sh \<Longrightarrow> bytes_exact sh'" using fr by (simp add: bytes_exact_def)
  show "flight_ok sh' sink (Some (recs, l, sc))" if "plan = Send recs l sc"
  proof -
    have ne: "out \<noteq> []" "recs = out" "l = r_seq (last out)" "sc = scanned"
      using pl that by (auto split: if_splits)
    have "last out \<in> set out" using ne(1) by simp
    then have "r_seq (last out) \<le> scanned" unfolding out by simp
    moreover have "out = filter (\<lambda>r. r_seq r \<le> scanned) (pending sh sink passed)"
      unfolding out pending_def filter_filter by (intro filter_cong) auto
    ultimately show ?thesis using ne scanned fr(2) by (simp add: flight_ok_def sinks pend)
  qed
  show "flight_ok sh' k fl" if "k \<noteq> sink" "flight_ok sh k fl"
    using that fr(2) by (auto simp: flight_ok_def sinks pend split: option.splits)
  show "map_of (sh_sinks sh') k = None \<longleftrightarrow> map_of (sh_sinks sh) k = None"
    using assms(3) by (simp add: sinks)
  show "sink_takes sh' = sink_takes sh" "sh_role sh' = sh_role sh" "sh_hive_id sh' = sh_hive_id sh"
    by (fact fr)+
qed

lemma accept_ack_range:
  assumes "accept_ack ack_of msg sink cursor last_seq scanned = Some c" "last_seq \<le> scanned"
  shows "cursor < c \<and> c \<le> scanned"
  using assms by (auto simp: accept_ack_def split: if_splits option.splits)

lemma finish_batch_sound:
  assumes "log_ordered sh" "cursors_ok sh" "flight_ok sh sink (Some batch)"
    and fin: "finish_batch ack_of now sink batch reply sh = (sh', ok)"
  shows "tally sh' k = tally sh k"
    and "log_ordered sh'" "cursors_ok sh'" "bytes_exact sh \<Longrightarrow> bytes_exact sh'"
    and "k \<noteq> sink \<Longrightarrow> flight_ok sh k fl \<Longrightarrow> flight_ok sh' k fl"
    and "map_of (sh_sinks sh') k = None \<longleftrightarrow> map_of (sh_sinks sh) k = None"
    and "sink_takes sh' = sink_takes sh" "sh_role sh' = sh_role sh" "sh_hive_id sh' = sh_hive_id sh"
proof -
  obtain recs l sc where b: "batch = (recs, l, sc)" by (cases batch) auto
  with assms(3) obtain st where st: "map_of (sh_sinks sh) sink = Some st" "l \<le> sc"
      "sc < sh_next_seq sh" "recs = filter (\<lambda>r. r_seq r \<le> sc) (pending sh sink (ss_cursor st))"
    by (auto simp: flight_ok_def)
  have entry: "sink_entry sh sink = st" using st(1) by (simp add: sink_entry_def)
  obtain st' where sh': "sh' = sh \<lparr> sh_sinks := AList.update sink st' (sh_sinks sh) \<rparr>"
    and st': "ss_expired st' = ss_expired st" "ss_oversize st' = ss_oversize st"
      "ss_cursor st \<le> ss_cursor st'" "ss_cursor st' < sh_next_seq sh"
      "ss_delivered st' = ss_delivered st + length (filter (\<lambda>r. ss_cursor st < r_seq r \<and>
         r_seq r \<le> ss_cursor st' \<and> sink_takes sh sink r) (sh_records sh))"
  proof (cases "case reply of None \<Rightarrow> None | Some msg \<Rightarrow> accept_ack ack_of msg sink (ss_cursor st) l sc")
    case None
    show thesis
      by (rule that [of "st \<lparr> ss_in_flight_up_to := 0, ss_failures := ss_failures st + 1 \<rparr>"])
         (use fin None assms(2) st(1) in
           \<open>auto simp: finish_batch_def b entry Let_def cursors_ok_def filter_empty_conv
              split: option.splits\<close>)
  next
    case (Some c)
    then have c: "ss_cursor st < c" "c \<le> sc"
      using st(2) accept_ack_range by (auto split: option.splits)
    have "filter (\<lambda>r. r_seq r \<le> c) recs =
        filter (\<lambda>r. ss_cursor st < r_seq r \<and> r_seq r \<le> c \<and> sink_takes sh sink r) (sh_records sh)"
      unfolding st(4) pending_def filter_filter using c by (intro filter_cong) auto
    with Some c st(3) show thesis
      by (intro that [of "st \<lparr> ss_in_flight_up_to := 0, ss_delivered := ss_delivered st
             + length (filter (\<lambda>r. r_seq r \<le> c) recs), ss_cursor := c, ss_last_ack_ms := now \<rparr>"])
         (use fin in \<open>auto simp: finish_batch_def b entry Let_def split: option.splits\<close>)
  qed
  have pend: "pending sh' = pending sh" by (rule pending_cong) (simp_all add: sh')
  show "tally sh' k = tally sh k"
    using st' pending_split [OF st'(3), of sh sink] st(1)
    by (cases "k = sink") (simp_all add: tally_def sh' update_conv' pend [unfolded sh'] split: option.split)
  show "log_ordered sh'" using assms(1) by (simp add: log_ordered_def sh')
  show "cursors_ok sh'" using assms(2) st'(4) by (auto simp: cursors_ok_def sh' update_conv')
  show "bytes_exact sh \<Longrightarrow> bytes_exact sh'" by (simp add: bytes_exact_def sh')
  show "flight_ok sh' k fl" if "k \<noteq> sink" "flight_ok sh k fl"
    using that by (auto simp: flight_ok_def sh' update_conv' pend [unfolded sh'] split: option.splits)
  show "map_of (sh_sinks sh') k = None \<longleftrightarrow> map_of (sh_sinks sh) k = None"
    using st(1) by (simp add: sh' update_conv')
  show "sink_takes sh' = sink_takes sh" "sh_role sh' = sh_role sh" "sh_hive_id sh' = sh_hive_id sh"
    by (simp_all add: sh')
qed

definition log_inv :: "log_sys \<Rightarrow> bool" where
  "log_inv s \<longleftrightarrow>
     log_ordered (lg_shared s) \<and> cursors_ok (lg_shared s) \<and> bytes_exact (lg_shared s) \<and>
     sh_turn_bytes (lg_shared s) \<le> max (lg_open_turn_bytes s) (STREAM_MAX_BYTES - node_cap) \<and>
     sh_node_bytes (lg_shared s) \<le> max (lg_open_node_bytes s) node_cap \<and>
     (\<forall>k. flight_ok (lg_shared s) k (lg_flight s k)) \<and>
     (\<forall>k \<in> set (all_sinks (sh_role (lg_shared s)) (sh_hive_id (lg_shared s))).
        map_of (sh_sinks (lg_shared s)) k \<noteq> None) \<and>
     (\<forall>k. map_of (sh_sinks (lg_shared s)) k \<noteq> None \<longrightarrow> tally (lg_shared s) k = lg_owed s k)"

text \<open>A stream that has just been opened: nothing in flight, nothing counted, and for each sink the
  records of the log beyond its cursor are what it is owed.\<close>

definition log_opened :: "log_sys \<Rightarrow> bool" where
  "log_opened s \<longleftrightarrow>
     log_ordered (lg_shared s) \<and> cursors_ok (lg_shared s) \<and> bytes_exact (lg_shared s) \<and>
     lg_open_turn_bytes s = sh_turn_bytes (lg_shared s) \<and>
     lg_open_node_bytes s = sh_node_bytes (lg_shared s) \<and>
     lg_flight s = (\<lambda>_. None) \<and>
     (\<forall>k \<in> set (all_sinks (sh_role (lg_shared s)) (sh_hive_id (lg_shared s))).
        map_of (sh_sinks (lg_shared s)) k \<noteq> None) \<and>
     (\<forall>k st. map_of (sh_sinks (lg_shared s)) k = Some st \<longrightarrow>
        ss_delivered st = 0 \<and> ss_expired st = 0 \<and> ss_oversize st = 0 \<and>
        lg_owed s k = length (pending (lg_shared s) k (ss_cursor st)))"

lemma log_inv_opened: "log_opened s \<Longrightarrow> log_inv s"
  by (auto simp: log_opened_def log_inv_def flight_ok_def tally_def)

lemma fits_caps:
  assumes "fits sh (r_source r) (r_subject r) (record_size r)"
    and "sh_turn_bytes sh \<le> max m (STREAM_MAX_BYTES - node_cap)"
    and "sh_node_bytes sh \<le> max n node_cap"
  shows "sh_turn_bytes (push_record r sh) \<le> max m (STREAM_MAX_BYTES - node_cap)"
    and "sh_node_bytes (push_record r sh) \<le> max n node_cap"
  using assms
  by (cases "r_source r"; auto simp: fits_def push_record_def Let_def split: if_splits)+

lemma trim_loop_shrinks:
  "sh_turn_bytes (trim_loop now sh) \<le> sh_turn_bytes sh \<and>
   sh_node_bytes (trim_loop now sh) \<le> sh_node_bytes sh"
  by (rule trim_loop_preserves [where P = "\<lambda>s. sh_turn_bytes s \<le> sh_turn_bytes sh \<and>
        sh_node_bytes s \<le> sh_node_bytes sh"])
     (auto simp: pop_front_def sub_bytes_def split: source.splits)

text \<open>Trimming is a sound step of its own, and of \<^verbatim>\<open>take_incoming\<close> when the log is full.\<close>

lemma log_inv_trim:
  assumes "log_inv s"
  shows "log_inv (s \<lparr> lg_shared := trim_loop now (lg_shared s) \<rparr>)"
  using assms trim_loop_shrinks [of now "lg_shared s"]
  by (auto simp: log_inv_def trim_loop_ordered trim_loop_bytes trim_loop_flight trim_loop_tally
      trim_loop_keys cursors_ok_def dest: trim_loop_cursor)

lemma log_inv_push:
  assumes inv: "log_inv s" and seq: "r_seq r = sh_next_seq (lg_shared s)"
    and fits: "fits (lg_shared s) (r_source r) (r_subject r) (record_size r)"
  shows "log_inv (s \<lparr> lg_shared := push_record r (lg_shared s), lg_counters := c,
     lg_owed := (\<lambda>k. lg_owed s k + (if sink_takes (lg_shared s) k r then 1 else 0)) \<rparr>)"
proof -
  have "tally (push_record r (lg_shared s)) k =
      lg_owed s k + (if sink_takes (lg_shared s) k r then 1 else 0)"
    if "map_of (sh_sinks (lg_shared s)) k \<noteq> None" for k
    using that inv seq push_record_tally [of "lg_shared s" k _ r]
    by (auto simp: log_inv_def cursors_ok_def)
  then show ?thesis
    using inv seq fits_caps [OF fits]
    by (auto simp: log_inv_def push_record_ordered push_record_bytes push_record_flight
        cursors_ok_def intro: less_SucI)
qed

lemma log_inv_take:
  assumes inv: "log_inv s"
    and tk: "take_incoming now i (lg_shared s) (lg_counters s) = (sh, c, placed)"
  shows "log_inv (s \<lparr> lg_shared := sh, lg_counters := c,
     lg_owed := (\<lambda>k. lg_owed s k
       + (case placed of Some r \<Rightarrow> (if sink_takes sh k r then 1 else 0) | None \<Rightarrow> 0)) \<rparr>)"
proof -
  let ?r = "incoming_record (lg_shared s) i"
  let ?t = "s \<lparr> lg_shared := trim_loop now (lg_shared s) \<rparr>"
  have seq: "r_seq ?r = sh_next_seq (lg_shared s)" by (simp add: incoming_record_def)
  note trimmed = log_inv_trim [OF inv, of now]
  consider (room) "fits (lg_shared s) (r_source ?r) (r_subject ?r) (record_size ?r)"
      "sh = push_record ?r (lg_shared s)" "placed = Some ?r"
    | (made) "fits (lg_shared ?t) (r_source ?r) (r_subject ?r) (record_size ?r)"
      "sh = push_record ?r (lg_shared ?t)" "placed = Some ?r"
    | (full) "sh = lg_shared ?t" "placed = None"
    using tk by (auto simp: take_incoming_def log_trim_def Let_def split: if_splits)
  then show ?thesis
  proof cases
    case room
    then show ?thesis using log_inv_push [OF inv seq room(1), of c] by simp
  next
    case made
    then show ?thesis using log_inv_push [OF trimmed _ made(1), of c] seq by simp
  next
    case full
    then show ?thesis using trimmed by (simp add: log_inv_def)
  qed
qed

lemma log_inv_plan:
  assumes inv: "log_inv s" and sink: "sink \<in> set (all_sinks (sh_role (lg_shared s)) (sh_hive_id (lg_shared s)))"
    and "lg_flight s sink = None" and plan: "plan_batch (lg_shared s) sink now = (sh, plan)"
  shows "log_inv (s \<lparr> lg_shared := sh,
     lg_flight := (case plan of
         Send records last_seq scanned \<Rightarrow> (lg_flight s) (sink := Some (records, last_seq, scanned))
       | _ \<Rightarrow> lg_flight s) \<rparr>)"
proof -
  obtain st where st: "map_of (sh_sinks (lg_shared s)) sink = Some st"
    using inv sink by (auto simp: log_inv_def)
  note pre = inv [unfolded log_inv_def]
  have ord: "log_ordered (lg_shared s)" "cursors_ok (lg_shared s)" using pre by blast+
  note sound = plan_batch_sound [OF ord st plan]
  have bytes: "sh_turn_bytes sh = sh_turn_bytes (lg_shared s)" "sh_node_bytes sh = sh_node_bytes (lg_shared s)"
    by (rule plan_batch_shape [OF ord(1) st plan], assumption)+
  define fl where "fl = (case plan of
         Send records last_seq scanned \<Rightarrow> (lg_flight s) (sink := Some (records, last_seq, scanned))
       | _ \<Rightarrow> lg_flight s)"
  have "flight_ok sh k (fl k)" for k
    using pre assms(3) sound(5,6)
    by (cases "k = sink") (auto simp: fl_def flight_ok_def [of _ _ None] split: batch_plan.split)
  then show ?thesis
    unfolding fl_def [symmetric] using pre sound(1-4,7-) bytes by (simp add: log_inv_def)
qed

lemma log_inv_reply:
  assumes inv: "log_inv s" and flight: "lg_flight s sink = Some batch"
    and fin: "finish_batch ack_of now sink batch result (lg_shared s) = (sh, accepted)"
  shows "log_inv (s \<lparr> lg_shared := sh, lg_flight := (lg_flight s) (sink := None) \<rparr>)"
proof -
  note pre = inv [unfolded log_inv_def]
  have ord: "log_ordered (lg_shared s)" "cursors_ok (lg_shared s)"
      "flight_ok (lg_shared s) sink (Some batch)"
    using pre flight by (metis)+
  note sound = finish_batch_sound [OF ord fin]
  have bytes: "sh_turn_bytes sh = sh_turn_bytes (lg_shared s)" "sh_node_bytes sh = sh_node_bytes (lg_shared s)"
    using fin by (auto simp: finish_batch_def Let_def split: prod.splits option.splits)
  have "flight_ok sh k (((lg_flight s) (sink := None)) k)" for k
    using pre sound(5) by (cases "k = sink") (auto simp: flight_ok_def [of _ _ None])
  then show ?thesis using pre sound(1-4,6-) bytes by (auto simp: log_inv_def)
qed

lemma fsynced_frame:
  "log_ordered (sh \<lparr> sh_fsynced_seq := n \<rparr>) = log_ordered sh"
  "cursors_ok (sh \<lparr> sh_fsynced_seq := n \<rparr>) = cursors_ok sh"
  "bytes_exact (sh \<lparr> sh_fsynced_seq := n \<rparr>) = bytes_exact sh"
  "pending (sh \<lparr> sh_fsynced_seq := n \<rparr>) = pending sh"
  "flight_ok (sh \<lparr> sh_fsynced_seq := n \<rparr>) k fl = flight_ok sh k fl"
  "tally (sh \<lparr> sh_fsynced_seq := n \<rparr>) k = tally sh k"
  by (simp_all add: log_ordered_def cursors_ok_def bytes_exact_def fun_eq_iff flight_ok_def tally_def
      pending_def split: option.split prod.split)

lemma log_inv_step: "log_inv s \<Longrightarrow> log_step ack_of s s' \<Longrightarrow> log_inv s'"
proof (erule log_stepE)
  fix n assume "log_inv s" "s' = s \<lparr> lg_shared := (lg_shared s) \<lparr> sh_fsynced_seq := n \<rparr> \<rparr>"
  then show "log_inv s'"
    by (simp add: log_inv_def fsynced_frame)
qed (auto simp: log_trim_def Let_def intro: log_inv_take log_inv_trim log_inv_plan log_inv_reply)

interpretation stream_log: step_invariant log_opened "log_step ack_of" log_inv
  by unfold_locales (auto intro: log_inv_opened log_inv_step)



section \<open>Properties\<close>

text \<open>C9: no record of the stream is lost unseen.  In every state the log reaches, under any
  interleaving of appends, trims, batches, replies of anyone and lost replies, what a sink took, what
  it lost to the window, what was too big for it and what still waits for it in the log add up to the
  records placed in the log for it: each record is counted exactly once.\<close>

theorem stream_conservation:
  assumes "reach log_opened (log_step ack_of) s"
    and "map_of (sh_sinks (lg_shared s)) k = Some st"
  shows "ss_delivered st + ss_expired st + ss_oversize st
      + length (pending (lg_shared s) k (ss_cursor st)) = lg_owed s k"
  using stream_log.reach_inv [OF assms(1)] assms(2) by (auto simp: log_inv_def tally_def)

text \<open>The log stays ordered and within its caps.  In every reachable state the records have
  strictly increasing sequence numbers below the next one, the byte counters are exactly the sizes of
  the records held, no cursor is past the last number given out, and neither share exceeds its cap
  by more than what the log was opened with.\<close>

theorem stream_log_sound:
  assumes "reach log_opened (log_step ack_of) s"
  shows "sorted_wrt (<) (map r_seq (sh_records (lg_shared s))) \<and>
    (\<forall>r \<in> set (sh_records (lg_shared s)). r_seq r < sh_next_seq (lg_shared s)) \<and>
    sh_turn_bytes (lg_shared s) = bytes_of Turns (sh_records (lg_shared s)) \<and>
    sh_node_bytes (lg_shared s) = bytes_of Nodes (sh_records (lg_shared s)) \<and>
    (\<forall>k st. map_of (sh_sinks (lg_shared s)) k = Some st \<longrightarrow>
       ss_cursor st < sh_next_seq (lg_shared s)) \<and>
    sh_turn_bytes (lg_shared s) \<le> max (lg_open_turn_bytes s) (STREAM_MAX_BYTES - node_cap) \<and>
    sh_node_bytes (lg_shared s) \<le> max (lg_open_node_bytes s) node_cap"
  using stream_log.reach_inv [OF assms]
  by (simp add: log_inv_def log_ordered_def bytes_exact_def cursors_ok_def)


text \<open>C28: a batch fits a frame and carries exactly what is due.  For an ordered log, the batch planned
  for a sink has at most 256 records and 96 KiB with its envelope, none past the window, and is all
  the sink's records from the new cursor to the scanned point; nothing the sink takes below the new
  cursor is left out uncounted.\<close>

theorem plan_batch_exact:
  assumes "log_ordered sh" "map_of (sh_sinks sh) sink = Some st"
    and "plan_batch sh sink now = (sh', Send records last_seq scanned)"
  shows "length records \<le> 256 \<and>
    1024 + sum_list (map batch_record_size records) \<le> 98304 \<and>
    (\<forall>r \<in> set records. \<not> aged now r) \<and>
    (\<exists>st'. map_of (sh_sinks sh') sink = Some st' \<and> ss_cursor st \<le> ss_cursor st' \<and>
       records = filter (\<lambda>r. r_seq r \<le> scanned) (pending sh sink (ss_cursor st')) \<and>
       ss_expired st' + ss_oversize st' = ss_expired st + ss_oversize st
         + length (filter (\<lambda>r. r_seq r \<le> ss_cursor st') (pending sh sink (ss_cursor st))))"
proof -
  obtain passed out e o' where
    le: "ss_cursor st \<le> passed" and
    lost: "e + o' = length (filter (\<lambda>r. ss_cursor st < r_seq r \<and> r_seq r \<le> passed
        \<and> sink_takes sh sink r) (sh_records sh))" and
    out: "out = filter (\<lambda>r. passed < r_seq r \<and> r_seq r \<le> scanned \<and> sink_takes sh sink r) (sh_records sh)" and
    sinks: "map_of (sh_sinks sh') = (map_of (sh_sinks sh))(sink \<mapsto>
       st \<lparr> ss_expired := ss_expired st + e, ss_oversize := ss_oversize st + o', ss_cursor := passed,
            ss_in_flight_up_to := (if out = [] then ss_in_flight_up_to st else r_seq (last out)) \<rparr>)" and
    rec: "records = out" and
    bound: "length out \<le> STREAM_BATCH_MAX_RECORDS"
      "BATCH_ENVELOPE_BYTES + sum_list (map batch_record_size out) \<le> STREAM_BATCH_MAX_BYTES"
      "\<forall>r \<in> set out. \<not> aged now r"
    by (rule plan_batch_shape [OF assms]) (auto split: if_splits)
  have "out = filter (\<lambda>r. r_seq r \<le> scanned) (pending sh sink passed)"
    unfolding out pending_def filter_filter by (intro filter_cong) auto
  moreover have "filter (\<lambda>r. r_seq r \<le> passed) (pending sh sink (ss_cursor st)) =
      filter (\<lambda>r. ss_cursor st < r_seq r \<and> r_seq r \<le> passed \<and> sink_takes sh sink r) (sh_records sh)"
    unfolding pending_def filter_filter by (intro filter_cong) auto
  ultimately show ?thesis
    using le lost bound rec
    by (simp add: sinks STREAM_BATCH_MAX_RECORDS_def BATCH_ENVELOPE_BYTES_def STREAM_BATCH_MAX_BYTES_def)
qed

section \<open>A run\<close>

definition demo_storage :: str where "demo_storage = ''SY.storage@motherbee''"

definition demo_open :: log_sys where
  "demo_open =
     \<lparr> lg_shared =
         \<lparr> sh_records = [], sh_turn_bytes = 0, sh_node_bytes = 0, sh_usage_lost = 0, sh_next_seq = 1,
           sh_fsynced_seq = 0,
           sh_sinks = [(demo_storage, sink_default), (''SY.cognition@motherbee'', sink_default)],
           sh_role = ''motherbee'', sh_hive_id = ''motherbee'' \<rparr>,
       lg_counters =
         \<lparr> ct_appended_turns = 0, ct_appended_nodes = 0, ct_dropped_queue_turns = 0,
           ct_dropped_queue_nodes = 0, ct_dropped_cap_turns = 0, ct_dropped_cap_nodes = 0,
           ct_refused = 0, ct_disk_errors = 0, ct_usage_lost = 0 \<rparr>,
       lg_flight = (\<lambda>_. None), lg_owed = (\<lambda>_. 0), lg_open_turn_bytes = 0, lg_open_node_bytes = 0 \<rparr>"

definition demo_incoming :: incoming where
  "demo_incoming = \<lparr> in_source = Turns, in_ts_ms = 1000, in_subject = ''storage.turns'',
                     in_producer = ''AI.a@motherbee'', in_payload = ''{}'' \<rparr>"

definition demo_record :: stream_record where
  "demo_record = \<lparr> r_seq = 1, r_ts_ms = 1000, r_source = Turns, r_subject = ''storage.turns'',
                   r_producer = ''AI.a@motherbee'', r_payload = ''{}'' \<rparr>"

definition demo_ack :: message where
  "demo_ack =
     (let m = build_system_message ''sink-uuid'' (Unicast ''stream-uuid'') 1 ''t'' MSG_STREAM_ACK JNull
      in m \<lparr> msg_routing := (msg_routing m) \<lparr> rt_src_l2_name := Some demo_storage \<rparr> \<rparr>)"

definition demo_taken :: log_sys where
  "demo_taken = demo_open \<lparr>
     lg_shared := push_record demo_record (lg_shared demo_open),
     lg_counters := count_appended Turns (lg_counters demo_open),
     lg_owed := (\<lambda>k. lg_owed demo_open k + (if k = demo_storage then 1 else 0)) \<rparr>"

lemma demo_all_sinks: "all_sinks ''motherbee'' ''motherbee'' = [demo_storage, ''SY.cognition@motherbee'']"
  by code_simp

lemma demo_opened: "log_opened demo_open"
  by (auto simp: log_opened_def demo_open_def demo_all_sinks log_ordered_def cursors_ok_def
      bytes_exact_def bytes_of_def pending_def sink_default_def split: if_splits)

lemma demo_takes: "sink_takes (lg_shared demo_open) k demo_record \<longleftrightarrow> k = demo_storage"
  by (simp add: sink_takes_def sinks_of_def sinks_for_def demo_record_def SUBJECT_COGNITION_TURNS_def
      SUBJECT_STORAGE_TURNS_def PRIMARY_HIVE_ID_def demo_storage_def)

lemma demo_take:
  "take_incoming 1000 demo_incoming (lg_shared demo_open) (lg_counters demo_open) =
     (push_record demo_record (lg_shared demo_open), count_appended Turns (lg_counters demo_open),
      Some demo_record)"
proof -
  have r: "incoming_record (lg_shared demo_open) demo_incoming = demo_record"
    by (simp add: incoming_record_def demo_open_def demo_incoming_def demo_record_def)
  have "fits (lg_shared demo_open) (r_source demo_record) (r_subject demo_record)
      (record_size demo_record)"
    by (simp add: fits_def demo_open_def demo_record_def record_size_def RECORD_HEADER_BYTES_def
        STREAM_MAX_BYTES_def node_cap_def STREAM_NODE_APPENDS_SHARE_PERCENT_def)
  then show ?thesis by (simp add: take_incoming_def r Let_def) (simp add: demo_record_def)
qed

lemma demo_reach: "reach log_opened (log_step ack_of) demo_taken"
proof -
  have "log_step ack_of demo_open demo_taken"
    using log_step.take [OF demo_take, of ack_of]
    by (simp add: demo_taken_def demo_takes)
  then show ?thesis using demo_opened by (meson reach.intros)
qed

lemma demo_sink: "map_of (sh_sinks (lg_shared demo_taken)) demo_storage = Some sink_default"
  by (simp add: demo_taken_def demo_open_def)

theorem stream_conservation_witness:
  "ss_delivered sink_default + ss_expired sink_default + ss_oversize sink_default
     + length (pending (lg_shared demo_taken) demo_storage (ss_cursor sink_default)) = 1"
  using stream_conservation [OF demo_reach demo_sink] by (simp add: demo_taken_def) (simp add: demo_open_def)

theorem stream_log_sound_witness:
  "sh_turn_bytes (lg_shared demo_taken) = bytes_of Turns [demo_record]"
  using stream_log_sound [OF demo_reach] by (simp add: demo_taken_def demo_open_def)


theorem plan_batch_exact_witness:
  "\<exists>sh'. plan_batch (lg_shared demo_taken) demo_storage 2000 = (sh', Send [demo_record] 1 1) \<and>
     length [demo_record] \<le> 256"
proof -
  have ord: "log_ordered (lg_shared demo_taken)"
    by (simp add: log_ordered_def demo_taken_def) (simp add: demo_open_def demo_record_def)
  have "snd (plan_batch (lg_shared demo_taken) demo_storage 2000) = Send [demo_record] 1 1"
    using demo_takes
    by (simp add: plan_batch_def sink_entry_def demo_sink Let_def)
       (simp add: demo_taken_def demo_open_def plan_start_def sink_default_def aged_def too_big_def
        batch_record_size_def demo_record_def STREAM_MAX_AGE_SECS_def BATCH_RECORD_OVERHEAD_BYTES_def
        BATCH_ENVELOPE_BYTES_def STREAM_BATCH_MAX_BYTES_def)
  then obtain sh' where "plan_batch (lg_shared demo_taken) demo_storage 2000 = (sh', Send [demo_record] 1 1)"
    by (metis surjective_pairing)
  with plan_batch_exact [OF ord demo_sink this] show ?thesis by blast
qed

end
