(* ===== verification/Stream_Disk.thy ===== *)
theory Stream_Disk
  imports Stream_Accounting
begin

text \<open>
  The stream's disk side (\<^verbatim>\<open>src/src/router/stream.rs\<close>): the segment files, the saved state, recovery
  at start and the disk thread's housekeeping.  A segment file is named by the first sequence number
  it was opened for, so its path is that number; the files of the directory are a list of paths and
  contents.  Every system call that may fail takes its outcome as an argument: \<^verbatim>\<open>WriteFails n\<close>
  is a write that stopped after \<^verbatim>\<open>n\<close> bytes, at the latest before its last one.  The saved state is
  read as a whole: a missing or unreadable \<^verbatim>\<open>state.json\<close> is no state.
\<close>

section \<open>Segments\<close>

definition STREAM_SEGMENT_BYTES :: nat where "STREAM_SEGMENT_BYTES = 4 * 1024 * 1024"

datatype io_outcome = IoOk | SyncFails | OpenFails | WriteFails nat

record segment =
  sg_last_seq :: nat
  sg_path :: nat

text \<open>\<^verbatim>\<open>state.json\<close>: epoch, next sequence number and cursors.\<close>

record saved_state =
  sv_epoch :: nat
  sv_next_seq :: nat
  sv_cursors :: "(str \<times> nat) list"

record disk =
  dk_files :: "(nat \<times> bytes) list"
  dk_synced :: "nat \<Rightarrow> nat"
  dk_state :: "saved_state option"
  dk_segments :: "segment list"
  dk_current :: "(nat \<times> nat) option"
  dk_last_written_seq :: nat
  dk_dirty :: bool

definition file_at :: "disk \<Rightarrow> nat \<Rightarrow> bytes" where
  "file_at d p = (case map_of (dk_files d) p of Some b \<Rightarrow> b | None \<Rightarrow> [])"

text \<open>Opening for append creates the file when it is missing; writing appends to it.\<close>

definition open_append :: "nat \<Rightarrow> disk \<Rightarrow> disk" where
  "open_append p d =
     (if p \<in> fst ` set (dk_files d) then d else d \<lparr> dk_files := dk_files d @ [(p, [])] \<rparr>)"

definition append_bytes :: "nat \<Rightarrow> bytes \<Rightarrow> disk \<Rightarrow> disk" where
  "append_bytes p b d =
     d \<lparr> dk_files := map (\<lambda>(q, c). if q = p then (q, c @ b) else (q, c)) (dk_files d) \<rparr>"

definition sync_data :: "nat \<Rightarrow> disk \<Rightarrow> disk" where
  "sync_data p d = d \<lparr> dk_synced := (dk_synced d) (p := length (file_at d p)) \<rparr>"

definition set_last_seq :: "nat \<Rightarrow> segment list \<Rightarrow> segment list" where
  "set_last_seq seq segs =
     (if segs = [] then [] else butlast segs @ [(last segs) \<lparr> sg_last_seq := seq \<rparr>])"

text \<open>Rolling to a new segment, in \<^verbatim>\<open>Disk::write\<close>: \<^verbatim>\<open>None\<close> when a call failed, after the current
  file was let go.\<close>

definition disk_roll :: "io_outcome \<Rightarrow> nat \<Rightarrow> disk \<Rightarrow> disk \<times> bool" where
  "disk_roll out seq d =
     (let d1 = d \<lparr> dk_current := None \<rparr> in
      if dk_current d \<noteq> None \<and> out = SyncFails then (d1, False)
      else let d2 = (case dk_current d of Some (p, _) \<Rightarrow> sync_data p d1 | None \<Rightarrow> d1) in
        if out = OpenFails then (d2, False)
        else ((open_append seq d2)
                \<lparr> dk_segments := dk_segments d2 @ [\<lparr> sg_last_seq = seq, sg_path = seq \<rparr>],
                  dk_current := Some (seq, 0) \<rparr>, True))"

definition disk_write :: "io_outcome \<Rightarrow> stream_record \<Rightarrow> disk \<Rightarrow> disk \<times> bool" where
  "disk_write out r d =
     (let roll = (case dk_current d of Some (_, sz) \<Rightarrow> sz \<ge> STREAM_SEGMENT_BYTES | None \<Rightarrow> True);
          (d, opened) = (if roll then disk_roll out (r_seq r) d else (d, True))
      in if \<not> opened then (d, False)
         else case dk_current d of
           None \<Rightarrow> (d, False)
         | Some (p, sz) \<Rightarrow>
             let bytes = encode_record r in
             (case out of
                WriteFails n \<Rightarrow> (append_bytes p (take (min n (length bytes - 1)) bytes) d, False)
              | _ \<Rightarrow>
                  ((append_bytes p bytes d)
                     \<lparr> dk_current := Some (p, sz + length bytes),
                       dk_segments := set_last_seq (r_seq r) (dk_segments d),
                       dk_last_written_seq := r_seq r, dk_dirty := True \<rparr>, True)))"

definition disk_append :: "io_outcome \<Rightarrow> stream_record \<Rightarrow> disk \<Rightarrow> disk \<times> bool" where
  "disk_append out r d =
     (let (d, written) = disk_write out r d
      in if written then (d, True) else (d \<lparr> dk_current := None \<rparr>, False))"

text \<open>\<^verbatim>\<open>Disk::fsync\<close>: \<^verbatim>\<open>None\<close> is the error, \<^verbatim>\<open>Some None\<close> nothing to do.\<close>

definition disk_fsync :: "bool \<Rightarrow> disk \<Rightarrow> disk \<times> nat option option" where
  "disk_fsync fails d =
     (if \<not> dk_dirty d then (d, Some None)
      else case dk_current d of
        Some (p, _) \<Rightarrow>
          if fails then (d, None)
          else ((sync_data p d) \<lparr> dk_dirty := False \<rparr>, Some (Some (dk_last_written_seq d)))
      | None \<Rightarrow> (d \<lparr> dk_dirty := False \<rparr>, Some (Some (dk_last_written_seq d))))"

definition remove_files :: "nat list \<Rightarrow> disk \<Rightarrow> disk" where
  "remove_files ps d = d \<lparr> dk_files := filter (\<lambda>(p, _). p \<notin> set ps) (dk_files d) \<rparr>"

function disk_trim_old :: "nat \<Rightarrow> disk \<Rightarrow> disk" where
  "disk_trim_old keep_from d =
     (case dk_segments d of
        first # second # rest \<Rightarrow>
          if sg_last_seq first \<ge> keep_from then d
          else disk_trim_old keep_from
                 ((remove_files [sg_path first] d) \<lparr> dk_segments := second # rest \<rparr>)
      | _ \<Rightarrow> d)"
  by pat_completeness auto

termination
  by (relation "measure (\<lambda>(k, d). length (dk_segments d))") (auto simp: remove_files_def)

declare disk_trim_old.simps [simp del]

definition disk_trim :: "nat \<Rightarrow> bool \<Rightarrow> disk \<Rightarrow> disk" where
  "disk_trim keep_from nothing_left d =
     (if nothing_left
      then (remove_files (map sg_path (dk_segments d)) d)
             \<lparr> dk_current := None, dk_dirty := False, dk_segments := [] \<rparr>
      else disk_trim_old keep_from d)"

definition disk_save_state :: "bool \<Rightarrow> saved_state \<Rightarrow> disk \<Rightarrow> disk \<times> bool" where
  "disk_save_state fails st d = (if fails then (d, False) else (d \<lparr> dk_state := Some st \<rparr>, True))"


section \<open>Recovery\<close>

record recovered =
  rc_disk :: "disk option"
  rc_records :: "stream_record list"
  rc_next_seq :: nat
  rc_cursors :: "(str \<times> nat) list"
  rc_epoch :: nat

text \<open>The segment files in the order of their names.\<close>

definition segment_files :: "disk \<Rightarrow> (nat \<times> bytes) list" where
  "segment_files d = sort_key fst (dk_files d)"

definition on_disk :: "disk \<Rightarrow> stream_record list" where
  "on_disk d = concat (map (\<lambda>(p, b). fst (decode_records b)) (segment_files d))"

definition segment_of :: "nat \<times> bytes \<Rightarrow> segment" where
  "segment_of f =
     (let (p, b) = f; decoded = fst (decode_records b)
      in \<lparr> sg_last_seq = (if decoded = [] then p else r_seq (last decoded)), sg_path = p \<rparr>)"

text \<open>The newest segment is cut at its torn write.\<close>

definition cut_newest :: "(nat \<times> bytes) list \<Rightarrow> (nat \<times> bytes) list" where
  "cut_newest fs =
     (if fs = [] then [] else
      let (p, b) = last fs in butlast fs @ [(p, take (snd (decode_records b)) b)])"

text \<open>\<^verbatim>\<open>recover\<close>, with the sinks it keeps cursors for and a fresh epoch.  Opening the directory or a
  file may fail too; then the stream starts in memory only (\<^verbatim>\<open>stream_open\<close>).\<close>

definition recover :: "str list \<Rightarrow> nat \<Rightarrow> disk \<Rightarrow> recovered" where
  "recover sinks fresh_epoch d =
     (let files = segment_files d;
          records = on_disk d;
          cut = cut_newest files;
          last_on_disk = (if records = [] then 0 else r_seq (last records));
          saved_next = (case dk_state d of Some st \<Rightarrow> sv_next_seq st | None \<Rightarrow> 1);
          epoch = (case dk_state d of
              Some st \<Rightarrow> (if sv_epoch st > 0 then sv_epoch st else fresh_epoch)
            | None \<Rightarrow> fresh_epoch);
          cursors = (case dk_state d of
              Some st \<Rightarrow>
                List.map_filter (\<lambda>sink. map_option (\<lambda>c. (sink, min c last_on_disk))
                    (map_of (sv_cursors st) sink)) sinks
            | None \<Rightarrow> [])
      in \<lparr> rc_disk = Some
             (d \<lparr> dk_files := cut,
                 dk_segments := map segment_of files,
                 dk_current := (if cut = [] then None
                                else Some (fst (last cut), length (snd (last cut)))),
                 dk_last_written_seq := last_on_disk, dk_dirty := False \<rparr>),
           rc_records = records,
           rc_next_seq = max (max saved_next (last_on_disk + 1)) 1,
           rc_cursors = cursors, rc_epoch = epoch \<rparr>)"

definition recovered_none :: "nat \<Rightarrow> recovered" where
  "recovered_none fresh_epoch =
     \<lparr> rc_disk = None, rc_records = [], rc_next_seq = 1, rc_cursors = [], rc_epoch = fresh_epoch \<rparr>"

text \<open>The shared log \<^verbatim>\<open>open\<close> builds from what was recovered.\<close>

definition opened_shared :: "str \<Rightarrow> str \<Rightarrow> recovered \<Rightarrow> shared" where
  "opened_shared role hive_id rc =
     \<lparr> sh_records = rc_records rc,
       sh_turn_bytes = sum_list (map record_size (filter (\<lambda>r. r_source r = Turns) (rc_records rc))),
       sh_node_bytes = sum_list (map record_size (filter (\<lambda>r. r_source r = Nodes) (rc_records rc))),
       sh_usage_lost = 0, sh_next_seq = rc_next_seq rc, sh_fsynced_seq = rc_next_seq rc - 1,
       sh_sinks = map (\<lambda>sink. (sink, sink_default
           \<lparr> ss_cursor := (case map_of (rc_cursors rc) sink of Some c \<Rightarrow> c | None \<Rightarrow> 0) \<rparr>))
         (all_sinks role hive_id),
       sh_role = role, sh_hive_id = hive_id \<rparr>"

definition stream_open :: "str \<Rightarrow> str \<Rightarrow> nat \<Rightarrow> recovered \<Rightarrow> shared" where
  "stream_open role hive_id now rc = fst (log_trim now (opened_shared role hive_id rc))"

text \<open>One housekeeping pass of the disk thread: trim the log, save the cursors that are safely on
  disk, then let go of the segments.  The newest one goes only once the state is saved.\<close>

definition saved_cursors :: "shared \<Rightarrow> (str \<times> nat) list" where
  "saved_cursors sh = map (\<lambda>(sink, st). (sink, min (ss_cursor st) (sh_fsynced_seq sh))) (sh_sinks sh)"

definition disk_housekeeping ::
  "nat \<Rightarrow> nat \<Rightarrow> bool \<Rightarrow> (nat \<times> (str \<times> nat) list) option \<Rightarrow> shared \<Rightarrow> disk \<Rightarrow> counters \<Rightarrow>
   shared \<times> disk \<times> counters \<times> (nat \<times> (str \<times> nat) list) option" where
  "disk_housekeeping now epoch save_fails last_saved sh d c =
     (let (sh, keep_from) = log_trim now sh;
          state_now = (sh_next_seq sh, saved_cursors sh);
          (d, c, last_saved, saved) =
            (if last_saved = Some state_now then (d, c, last_saved, True)
             else let (d, ok) = disk_save_state save_fails
                        \<lparr> sv_epoch = epoch, sv_next_seq = fst state_now,
                          sv_cursors = snd state_now \<rparr> d
                  in if ok then (d, c, Some state_now, True)
                     else (d, c \<lparr> ct_disk_errors := ct_disk_errors c + 1 \<rparr>, last_saved, False))
      in (sh, disk_trim keep_from (sh_records sh = [] \<and> saved) d, c, last_saved))"

text \<open>The rest of the disk thread's loop (\<^verbatim>\<open>run_disk\<close>): what it does with a record it took, and its
  periodic sync.  A stream without a disk (\<^verbatim>\<open>None\<close>) keeps its records in memory only.\<close>

definition disk_take ::
  "nat \<Rightarrow> io_outcome \<Rightarrow> incoming \<Rightarrow> shared \<Rightarrow> disk option \<Rightarrow> counters \<Rightarrow> shared \<times> disk option \<times> counters" where
  "disk_take now out i sh d c =
     (let (sh, c, placed) = take_incoming now i sh c
      in case (placed, d) of
           (Some r, Some d) \<Rightarrow>
             let (d, written) = disk_append out r d
             in (sh, Some d, if written then c else c \<lparr> ct_disk_errors := ct_disk_errors c + 1 \<rparr>)
         | _ \<Rightarrow> (sh, d, c))"

definition disk_sync :: "bool \<Rightarrow> shared \<Rightarrow> disk option \<Rightarrow> counters \<Rightarrow> shared \<times> disk option \<times> counters" where
  "disk_sync fails sh d c =
     (case d of
        None \<Rightarrow> (sh, d, c)
      | Some d \<Rightarrow>
          (case disk_fsync fails d of
             (d, Some (Some seq)) \<Rightarrow> (sh \<lparr> sh_fsynced_seq := seq \<rparr>, Some d, c)
           | (d, Some None) \<Rightarrow> (sh, Some d, c)
           | (d, None) \<Rightarrow> (sh, Some d, c \<lparr> ct_disk_errors := ct_disk_errors c + 1 \<rparr>)))"

end
