(* ===== verification/Stream_Recovery.thy ===== *)
theory Stream_Recovery
  imports Stream_Disk
begin

text \<open>
  Soundness of the stream's disk: a representation of the segment files as whole records and torn
  tails, kept by every append (whatever call fails), by letting old segments go and by recovery; the
  log a restart opens; and what housekeeping keeps on disk.
\<close>

section \<open>What the segments hold\<close>

text \<open>A segment as path, whole records and torn tail; the files of a list of segments.\<close>

type_synonym seg_log = "(nat \<times> stream_record list \<times> bytes) list"

definition files_of :: "seg_log \<Rightarrow> (nat \<times> bytes) list" where
  "files_of log = map (\<lambda>(p, rs, t). (p, concat (map encode_record rs) @ t)) log"

definition records_of :: "seg_log \<Rightarrow> stream_record list" where
  "records_of log = concat (map (\<lambda>(p, rs, t). rs) log)"

text \<open>Records below \<^verbatim>\<open>n\<close>, paths below \<^verbatim>\<open>m\<close>: the two differ only while a segment is opened.\<close>

definition entry_wf :: "nat \<Rightarrow> nat \<Rightarrow> nat \<times> stream_record list \<times> bytes \<Rightarrow> bool" where
  "entry_wf n m e \<longleftrightarrow>
     (case e of (p, rs, t) \<Rightarrow> torn t \<and> p < m \<and> list_all (\<lambda>r. wf_record r \<and> r_seq r < n) rs)"

definition log_wf :: "nat \<Rightarrow> nat \<Rightarrow> seg_log \<Rightarrow> bool" where
  "log_wf n m log \<longleftrightarrow>
     sorted_wrt (<) (map fst log) \<and> sorted_wrt (<) (map r_seq (records_of log)) \<and>
     list_all (entry_wf n m) log"

definition seg_covers :: "segment \<Rightarrow> nat \<times> stream_record list \<times> bytes \<Rightarrow> bool" where
  "seg_covers sg e \<longleftrightarrow> (case e of (p, rs, t) \<Rightarrow> sg_path sg = p \<and> (\<forall>r \<in> set rs. r_seq r \<le> sg_last_seq sg))"

definition disk_rep :: "nat \<Rightarrow> nat \<Rightarrow> seg_log \<Rightarrow> disk \<Rightarrow> bool" where
  "disk_rep n m log d \<longleftrightarrow>
     log_wf n m log \<and> dk_files d = files_of log \<and> list_all2 seg_covers (dk_segments d) log \<and>
     (\<forall>p sz. dk_current d = Some (p, sz) \<longrightarrow> (\<exists>log' rs. log = log' @ [(p, rs, [])]))"

definition disk_inv :: "nat \<Rightarrow> disk \<Rightarrow> bool" where
  "disk_inv n d \<longleftrightarrow> (\<exists>log. disk_rep n n log d)"

lemma files_of_append [simp]: "files_of (a @ b) = files_of a @ files_of b"
  by (simp add: files_of_def)

lemma records_of_append [simp]: "records_of (a @ b) = records_of a @ records_of b"
  by (simp add: records_of_def)

lemma records_of_single [simp]: "records_of [(p, rs, t)] = rs"
  by (simp add: records_of_def)

lemma files_of_single [simp]: "files_of [(p, rs, t)] = [(p, concat (map encode_record rs) @ t)]"
  by (simp add: files_of_def)

lemma fst_files_of: "map fst (files_of log) = map fst log"
  by (auto simp: files_of_def split_def)

lemma segment_files_sorted:
  assumes "log_wf n m log" "dk_files d = files_of log"
  shows "segment_files d = files_of log"
proof -
  have "sorted (map fst (files_of log))"
    unfolding fst_files_of using assms(1) strict_sorted_imp_sorted by (auto simp: log_wf_def)
  then show ?thesis by (simp add: segment_files_def assms(2) sort_key_id_if_sorted)
qed

lemma on_disk_records:
  assumes "log_wf n m log" "dk_files d = files_of log"
  shows "on_disk d = records_of log"
proof -
  have "fst (decode_records (concat (map encode_record rs) @ t)) = rs" if "(p, rs, t) \<in> set log" for p rs t
    using that assms(1) decode_records_concat [of rs t] by (fastforce simp: log_wf_def list_all_iff entry_wf_def)
  then have "map (\<lambda>(p, b). fst (decode_records b)) (files_of log) = map (\<lambda>(p, rs, t). rs) log"
    by (auto simp: files_of_def)
  then show ?thesis
    by (simp add: on_disk_def segment_files_sorted [OF assms] records_of_def)
qed

lemma entry_wf_mono: "entry_wf n m e \<Longrightarrow> n \<le> n' \<Longrightarrow> m \<le> m' \<Longrightarrow> entry_wf n' m' e"
  by (fastforce simp: entry_wf_def list_all_iff split: prod.splits)

lemma log_wf_mono: "log_wf n m log \<Longrightarrow> n \<le> n' \<Longrightarrow> m \<le> m' \<Longrightarrow> log_wf n' m' log"
  using entry_wf_mono by (auto simp: log_wf_def list_all_iff)

lemma log_wf_bound: "log_wf n m log \<Longrightarrow> r \<in> set (records_of log) \<Longrightarrow> r_seq r < n"
  by (fastforce simp: log_wf_def records_of_def list_all_iff entry_wf_def)

lemma log_wf_path: "log_wf n m log \<Longrightarrow> p \<in> set (map fst log) \<Longrightarrow> p < m"
  by (fastforce simp: log_wf_def list_all_iff entry_wf_def)

lemma log_wf_new:
  assumes "log_wf n m log"
  shows "log_wf n (Suc m) (log @ [(m, [], [])])"
proof -
  have "\<forall>p \<in> set (map fst log). p < m" using log_wf_path [OF assms] by blast
  moreover have "list_all (entry_wf n (Suc m)) log" "entry_wf n (Suc m) (m, [], [])"
    using log_wf_mono [OF assms, of n "Suc m"] by (simp_all add: log_wf_def entry_wf_def)
  ultimately show ?thesis using assms by (simp add: log_wf_def sorted_wrt_append)
qed

lemma log_wf_last:
  assumes "log_wf n m (log @ [(p, rs, [])])"
    and "sorted_wrt (<) (map r_seq (records_of log @ rs'))" "entry_wf n' m (p, rs', t')" "n \<le> n'"
  shows "log_wf n' m (log @ [(p, rs', t')])"
proof -
  have "list_all (entry_wf n' m) log"
    using log_wf_mono [OF assms(1,4) order_refl] by (simp add: log_wf_def)
  then show ?thesis using assms by (simp add: log_wf_def)
qed

lemma log_wf_extend:
  assumes "log_wf n m (log @ [(p, rs, [])])" "wf_record r" "r_seq r = n"
  shows "log_wf (Suc n) m (log @ [(p, rs @ [r], [])])"
proof (rule log_wf_last [OF assms(1)])
  have "\<forall>x \<in> set (records_of log) \<union> set rs. r_seq x < r_seq r"
    using log_wf_bound [OF assms(1)] assms(3) by auto
  then show "sorted_wrt (<) (map r_seq (records_of log @ rs @ [r]))"
    using assms(1) by (auto simp: log_wf_def sorted_wrt_append)
  have "entry_wf (Suc n) m (p, rs, [])"
    using log_wf_mono [OF assms(1), of "Suc n" m] by (simp add: log_wf_def)
  then show "entry_wf (Suc n) m (p, rs @ [r], [])" using assms(2,3) by (simp add: entry_wf_def)
qed simp

lemma log_wf_tear:
  assumes "log_wf n m (log @ [(p, rs, [])])" "torn t"
  shows "log_wf n m (log @ [(p, rs, t)])"
  using assms by (intro log_wf_last [OF assms(1)]) (auto simp: log_wf_def entry_wf_def)

lemma torn_take: "wf_record r \<Longrightarrow> torn (take (min n (length (encode_record r) - 1)) (encode_record r))"
  unfolding torn_def
  by (intro exI [of _ r] exI [of _ "drop (min n (length (encode_record r) - 1)) (encode_record r)"])
     (auto simp: length_encode_record)

lemma append_bytes_last:
  assumes "sorted_wrt (<) (map fst (log @ [(p, rs, [])]))" "dk_files d = files_of (log @ [(p, rs, [])])"
  shows "dk_files (append_bytes p b d) = files_of log @ [(p, concat (map encode_record rs) @ b)]"
proof -
  have "map (\<lambda>(q, c). if q = p then (q, c @ b) else (q, c)) (files_of log) = files_of log"
    using assms(1) by (auto simp: files_of_def sorted_wrt_append)
  then show ?thesis using assms(2) by (simp add: append_bytes_def)
qed

lemma append_bytes_frame [simp]:
  "dk_segments (append_bytes p b d) = dk_segments d"
  "dk_current (append_bytes p b d) = dk_current d"
  by (simp_all add: append_bytes_def)

lemma sync_data_frame [simp]:
  "dk_files (sync_data p d) = dk_files d" "dk_segments (sync_data p d) = dk_segments d"
  "dk_current (sync_data p d) = dk_current d"
  by (simp_all add: sync_data_def)

lemma open_append_new:
  assumes "log_wf n n log" "dk_files d = files_of log"
  shows "dk_files (open_append n d) = files_of (log @ [(n, [], [])])"
    and "dk_segments (open_append n d) = dk_segments d" "dk_current (open_append n d) = dk_current d"
proof -
  have "n \<notin> set (map fst log)" using log_wf_path [OF assms(1)] by blast
  then have "n \<notin> fst ` set (dk_files d)" using assms(2) fst_files_of [of log] by (metis set_map)
  then show "dk_files (open_append n d) = files_of (log @ [(n, [], [])])"
    "dk_segments (open_append n d) = dk_segments d" "dk_current (open_append n d) = dk_current d"
    using assms(2) by (auto simp: open_append_def)
qed

text \<open>Rolling: either nothing was opened and the log stands, or a new empty segment is current.\<close>

lemma disk_roll_rep:
  assumes "disk_rep n n log d" "disk_roll out n d = (d', opened)"
  shows "if opened then disk_rep n (Suc n) (log @ [(n, [], [])]) d' \<and> dk_current d' = Some (n, 0)
         else disk_rep n n log (d' \<lparr> dk_current := None \<rparr>)"
proof -
  let ?d2 = "case dk_current d of Some (p, _) \<Rightarrow> sync_data p (d \<lparr> dk_current := None \<rparr>)
             | None \<Rightarrow> d \<lparr> dk_current := None \<rparr>"
  have fr: "dk_files ?d2 = dk_files d" "dk_segments ?d2 = dk_segments d"
    by (auto split: option.split)
  have wf: "log_wf n n log" and files: "dk_files d = files_of log"
    and segs: "list_all2 seg_covers (dk_segments d) log"
    using assms(1) by (auto simp: disk_rep_def)
  note new = open_append_new [OF wf, of ?d2]
  have cov: "seg_covers \<lparr> sg_last_seq = n, sg_path = n \<rparr> (n, [], [])" by (simp add: seg_covers_def)
  show ?thesis
  proof (cases opened)
    case True
    then have "d' = (open_append n ?d2)
        \<lparr> dk_segments := dk_segments ?d2 @ [\<lparr> sg_last_seq = n, sg_path = n \<rparr>],
          dk_current := Some (n, 0) \<rparr>"
      using assms(2) by (auto simp: disk_roll_def Let_def split: if_splits)
    then show ?thesis
      using True new fr files segs cov log_wf_new [OF wf]
      by (simp add: disk_rep_def list_all2_appendI)
  next
    case False
    then have "d' = d \<lparr> dk_current := None \<rparr> \<or> d' = ?d2"
      using assms(2) by (auto simp: disk_roll_def Let_def split: if_splits)
    then show ?thesis using False wf files segs fr by (auto simp: disk_rep_def)
  qed
qed

text \<open>Writing at the end of the current segment.\<close>

lemma set_last_seq_covers:
  assumes "list_all2 seg_covers segs (log @ [(p, rs, [])])" "\<forall>x \<in> set rs. r_seq x \<le> r_seq r"
  shows "list_all2 seg_covers (set_last_seq (r_seq r) segs) (log @ [(p, rs @ [r], [])])"
proof -
  obtain init sg where segs: "segs = init @ [sg]" and "list_all2 seg_covers init log"
    "seg_covers sg (p, rs, [])"
    using assms(1) by (auto simp: list_all2_append2 list_all2_Cons2)
  then show ?thesis
    using assms(2) by (auto simp: set_last_seq_def seg_covers_def intro: list_all2_appendI)
qed

lemma disk_write_current:
  assumes rep: "disk_rep n m (log @ [(p, rs, [])]) d" and r: "wf_record r" "r_seq r = n"
  shows "disk_rep (Suc n) m (log @ [(p, rs @ [r], [])])
      ((append_bytes p (encode_record r) d)
         \<lparr> dk_current := Some (p, sz), dk_segments := set_last_seq n (dk_segments d),
           dk_last_written_seq := k, dk_dirty := b \<rparr>)"
    and "disk_rep n m (log @ [(p, rs, take (min i (length (encode_record r) - 1)) (encode_record r))])
      ((append_bytes p (take (min i (length (encode_record r) - 1)) (encode_record r)) d)
         \<lparr> dk_current := None \<rparr>)"
proof -
  have wf: "log_wf n m (log @ [(p, rs, [])])" using rep by (simp add: disk_rep_def)
  have files: "dk_files d = files_of (log @ [(p, rs, [])])"
    and segs: "list_all2 seg_covers (dk_segments d) (log @ [(p, rs, [])])"
    using rep by (auto simp: disk_rep_def)
  have "\<forall>x \<in> set rs. r_seq x \<le> r_seq r"
    using log_wf_bound [OF wf] r(2) by (auto simp: less_imp_le)
  note cov = set_last_seq_covers [OF segs this]
  have sorted: "sorted_wrt (<) (map fst (log @ [(p, rs, [])]))" using wf by (simp add: log_wf_def)
  note app = append_bytes_last [OF sorted files]
  show "disk_rep (Suc n) m (log @ [(p, rs @ [r], [])])
      ((append_bytes p (encode_record r) d)
         \<lparr> dk_current := Some (p, sz), dk_segments := set_last_seq n (dk_segments d),
           dk_last_written_seq := k, dk_dirty := b \<rparr>)"
    using log_wf_extend [OF wf r(1,2)] app cov r(2) by (simp add: disk_rep_def)
  have "list_all2 seg_covers (dk_segments d) (log @ [(p, rs, t)])" for t
    using segs by (auto simp: list_all2_append2 list_all2_Cons2 seg_covers_def)
  then show "disk_rep n m (log @ [(p, rs, take (min i (length (encode_record r) - 1)) (encode_record r))])
      ((append_bytes p (take (min i (length (encode_record r) - 1)) (encode_record r)) d)
         \<lparr> dk_current := None \<rparr>)"
    using log_wf_tear [OF wf torn_take [OF r(1)]] app by (simp add: disk_rep_def)
qed

lemma disk_rep_mono: "disk_rep n m log d \<Longrightarrow> n \<le> n' \<Longrightarrow> m \<le> m' \<Longrightarrow> disk_rep n' m' log d"
  using log_wf_mono by (auto simp: disk_rep_def)

lemma disk_rep_on_disk: "disk_rep n m log d \<Longrightarrow> on_disk d = records_of log"
  using on_disk_records by (auto simp: disk_rep_def)

text \<open>Writing to the current segment, whose entry ends a represented log.\<close>

definition write_current :: "io_outcome \<Rightarrow> stream_record \<Rightarrow> nat \<Rightarrow> nat \<Rightarrow> disk \<Rightarrow> disk \<times> bool" where
  "write_current out r p sz d =
     (case out of
        WriteFails i \<Rightarrow> ((append_bytes p (take (min i (length (encode_record r) - 1)) (encode_record r)) d)
          \<lparr> dk_current := None \<rparr>, False)
      | _ \<Rightarrow> ((append_bytes p (encode_record r) d)
          \<lparr> dk_current := Some (p, sz + length (encode_record r)),
            dk_segments := set_last_seq (r_seq r) (dk_segments d),
            dk_last_written_seq := r_seq r, dk_dirty := True \<rparr>, True))"

lemma write_current_rep:
  assumes rep: "disk_rep n m (log @ [(p, rs, [])]) d" and m: "m \<le> Suc n" and r: "wf_record r" "r_seq r = n"
    and w: "write_current out r p sz d = (d', ok)"
  shows "\<exists>log'. disk_rep (Suc n) (Suc n) log' d' \<and>
    records_of log' = records_of (log @ [(p, rs, [])]) @ (if ok then [r] else [])"
proof (cases "\<exists>i. out = WriteFails i")
  case True
  then obtain i where "out = WriteFails i" by blast
  with w have d': "ok = False" "d' = (append_bytes p (take (min i (length (encode_record r) - 1))
      (encode_record r)) d) \<lparr> dk_current := None \<rparr>"
    by (auto simp: write_current_def)
  show ?thesis
    using disk_rep_mono [OF disk_write_current(2) [OF rep r, of i], of "Suc n" "Suc n"] m d'
    by (intro exI [of _ "log @ [(p, rs, take (min i (length (encode_record r) - 1)) (encode_record r))]"]) simp
next
  case False
  with w have d': "ok = True" "d' = (append_bytes p (encode_record r) d)
      \<lparr> dk_current := Some (p, sz + length (encode_record r)), dk_segments := set_last_seq n (dk_segments d),
        dk_last_written_seq := n, dk_dirty := True \<rparr>"
    using r(2) by (auto simp: write_current_def split: io_outcome.splits)
  show ?thesis
    using disk_rep_mono [OF disk_write_current(1) [OF rep r], of "Suc n" "Suc n"] m d'
    by (intro exI [of _ "log @ [(p, rs @ [r], [])]"]) simp
qed

lemma disk_append_rep:
  assumes rep: "disk_rep n n log d" and r: "wf_record r" "r_seq r = n"
    and app: "disk_append out r d = (d', ok)"
  shows "\<exists>log'. disk_rep (Suc n) (Suc n) log' d' \<and>
    records_of log' = records_of log @ (if ok then [r] else [])"
proof -
  define roll where "roll = (case dk_current d of Some (_, sz) \<Rightarrow> sz \<ge> STREAM_SEGMENT_BYTES | None \<Rightarrow> True)"
  show ?thesis
  proof (cases roll)
    case False
    then obtain p sz where cur: "dk_current d = Some (p, sz)" by (auto simp: roll_def split: option.splits)
    then obtain log1 rs where log: "log = log1 @ [(p, rs, [])]" using rep by (auto simp: disk_rep_def)
    have "write_current out r p sz d = (d', ok)"
      using app False cur by (auto simp: roll_def disk_append_def disk_write_def write_current_def Let_def split: io_outcome.splits)
    from write_current_rep [OF rep [unfolded log] _ r this] log show ?thesis by simp
  next
    case True
    obtain d1 opened where roll1: "disk_roll out n d = (d1, opened)" by (cases "disk_roll out n d")
    note rolled = disk_roll_rep [OF rep roll1]
    have written: "disk_write out r d = (if \<not> opened then (d1, False) else
        case dk_current d1 of None \<Rightarrow> (d1, False) | Some (p, sz) \<Rightarrow>
          (case out of
             WriteFails i \<Rightarrow> (append_bytes p (take (min i (length (encode_record r) - 1)) (encode_record r)) d1, False)
           | _ \<Rightarrow> ((append_bytes p (encode_record r) d1)
               \<lparr> dk_current := Some (p, sz + length (encode_record r)),
                 dk_segments := set_last_seq (r_seq r) (dk_segments d1),
                 dk_last_written_seq := r_seq r, dk_dirty := True \<rparr>, True)))"
      using True roll1 r(2) unfolding disk_write_def roll_def [symmetric] Let_def by simp
    show ?thesis
    proof (cases opened)
      case True
      then have rep1: "disk_rep n (Suc n) (log @ [(n, [], [])]) d1" and cur: "dk_current d1 = Some (n, 0)"
        using rolled by auto
      have "write_current out r n 0 d1 = (d', ok)"
        using app True cur written by (auto simp: disk_append_def write_current_def Let_def split: io_outcome.splits)
      from write_current_rep [OF rep1 _ r this] show ?thesis by simp
    next
      case False
      then have "d' = d1 \<lparr> dk_current := None \<rparr>" "ok = False"
        using app written by (auto simp: disk_append_def)
      then show ?thesis using rolled False disk_rep_mono [of n n log d' "Suc n" "Suc n"] by auto
    qed
  qed
qed

lemma disk_append_sound:
  assumes "disk_inv n d" "wf_record r" "r_seq r = n" "disk_append out r d = (d', ok)"
  shows "disk_inv (Suc n) d' \<and> on_disk d' = on_disk d @ (if ok then [r] else [])"
  using assms disk_append_rep [OF _ assms(2-4)] disk_rep_on_disk unfolding disk_inv_def by metis

text \<open>Letting go of old segments.\<close>

lemma log_wf_tl: "log_wf n m (e # log) \<Longrightarrow> log_wf n m log"
  by (auto simp: log_wf_def records_of_def sorted_wrt_append split: prod.splits)

lemma filter_files_of:
  "filter (\<lambda>(p, _). Q p) (files_of log) = files_of (filter (\<lambda>e. Q (fst e)) log)"
  by (induction log) (auto simp: files_of_def)

lemma disk_trim_old_rep:
  "disk_rep n n log d \<Longrightarrow>
   \<exists>old log'. log = old @ log' \<and> disk_rep n n log' (disk_trim_old keep d) \<and>
     (\<forall>r \<in> set (records_of old). r_seq r < keep)"
proof (induction keep d arbitrary: log rule: disk_trim_old.induct)
  case (1 keep d)
  show ?case
  proof (cases "\<exists>first second rest. dk_segments d = first # second # rest \<and> sg_last_seq first < keep")
    case True
    then obtain sg1 sg2 segs where segs: "dk_segments d = sg1 # sg2 # segs" "sg_last_seq sg1 < keep" by blast
    obtain e1 e2 es where log: "log = e1 # e2 # es" and cov: "seg_covers sg1 e1"
      "seg_covers sg2 e2" "list_all2 seg_covers segs es"
      using "1.prems" segs by (auto simp: disk_rep_def list_all2_Cons1)
    let ?d = "(remove_files [sg_path sg1] d) \<lparr> dk_segments := sg2 # segs \<rparr>"
    have wf: "log_wf n n log" and files: "dk_files d = files_of log"
      using "1.prems" by (auto simp: disk_rep_def)
    have "\<forall>e \<in> set (e2 # es). fst e \<noteq> sg_path sg1"
      using wf cov(1) unfolding log log_wf_def by (fastforce simp: seg_covers_def)
    then have "filter (\<lambda>e. fst e \<noteq> sg_path sg1) log = e2 # es"
      using cov(1) unfolding log by (auto simp: seg_covers_def filter_id_conv split: prod.splits)
    then have "dk_files ?d = files_of (e2 # es)"
      using files by (simp add: remove_files_def filter_files_of)
    moreover have "\<exists>log' rs. e2 # es = log' @ [(p, rs, [])]" if "dk_current d = Some (p, sz)" for p sz
      using that "1.prems" unfolding log disk_rep_def by (auto simp: Cons_eq_append_conv)
    ultimately have "disk_rep n n (e2 # es) ?d"
      using wf cov log_wf_tl unfolding log by (auto simp: disk_rep_def remove_files_def)
    from "1.IH" [OF segs(1) refl _ this] segs obtain old log' where
      "e2 # es = old @ log'" "disk_rep n n log' (disk_trim_old keep ?d)"
      "\<forall>r \<in> set (records_of old). r_seq r < keep" by auto
    moreover have "\<forall>r \<in> set (records_of [e1]). r_seq r < keep"
      using cov(1) segs(2) by (fastforce simp: seg_covers_def records_of_def split: prod.splits)
    moreover have "disk_trim_old keep d = disk_trim_old keep ?d"
      using segs by (subst disk_trim_old.simps) simp
    ultimately show ?thesis unfolding log
      by (intro exI [of _ "e1 # old"] exI [of _ log']) (auto simp: records_of_def)
  next
    case False
    then have "disk_trim_old keep d = d"
      by (subst disk_trim_old.simps) (auto split: list.splits)
    then show ?thesis using "1.prems" by (intro exI [of _ "[]"] exI [of _ log]) (simp add: records_of_def)
  qed
qed

lemma disk_trim_sound:
  assumes "disk_inv n d" "\<not> nothing_left"
  shows "disk_inv n (disk_trim keep nothing_left d) \<and>
    (\<exists>old. on_disk d = old @ on_disk (disk_trim keep nothing_left d) \<and> (\<forall>r \<in> set old. r_seq r < keep))"
proof -
  obtain log where rep: "disk_rep n n log d" using assms(1) by (auto simp: disk_inv_def)
  from disk_trim_old_rep [OF this, of keep] obtain old log' where
    "log = old @ log'" "disk_rep n n log' (disk_trim_old keep d)"
    "\<forall>r \<in> set (records_of old). r_seq r < keep" by blast
  then show ?thesis
    using assms(2) disk_rep_on_disk [OF rep] disk_rep_on_disk [of n n log' "disk_trim_old keep d"]
    by (auto simp: disk_trim_def disk_inv_def)
qed

section \<open>Recovery keeps what the segments hold\<close>

lemma decode_entry:
  assumes "entry_wf n m (p, rs, t)"
  shows "decode_records (concat (map encode_record rs) @ t) = (rs, length (concat (map encode_record rs)))"
  using assms by (intro decode_records_concat) (auto simp: entry_wf_def list_all_iff)

lemma cut_newest_files:
  assumes "log_wf n m (log @ [(p, rs, t)])"
  shows "cut_newest (files_of (log @ [(p, rs, t)])) = files_of (log @ [(p, rs, [])])"
  using decode_entry [of n m p rs t] assms by (simp add: cut_newest_def log_wf_def)

lemma segment_of_covers:
  assumes "entry_wf n m (p, rs, t)" "sorted_wrt (<) (map r_seq rs)"
  shows "seg_covers (segment_of (p, concat (map encode_record rs) @ t)) (p, rs, t')"
proof -
  have "r_seq x \<le> r_seq (last rs)" if "x \<in> set rs" for x
    using assms(2) that by (cases rs rule: rev_cases) (auto simp: sorted_wrt_append less_imp_le)
  then show ?thesis
    using decode_entry [OF assms(1)] by (auto simp: segment_of_def seg_covers_def)
qed

lemma log_wf_entry:
  assumes "log_wf n m log" "(p, rs, t) \<in> set log"
  shows "entry_wf n m (p, rs, t)" "sorted_wrt (<) (map r_seq rs)"
proof -
  show "entry_wf n m (p, rs, t)" using assms by (auto simp: log_wf_def list_all_iff)
  obtain a b where "log = a @ (p, rs, t) # b" using assms(2) by (meson split_list)
  then show "sorted_wrt (<) (map r_seq rs)"
    using assms(1) by (simp add: log_wf_def records_of_def sorted_wrt_append)
qed

lemma segments_cover:
  assumes "log_wf n m log"
  shows "list_all2 seg_covers (map segment_of (files_of log)) log"
proof -
  have "seg_covers (segment_of (p, concat (map encode_record rs) @ t)) (p, rs, t)"
    if "(p, rs, t) \<in> set log" for p rs t
    using log_wf_entry [OF assms that] by (rule segment_of_covers)
  then show ?thesis
    by (auto simp: files_of_def list_all2_conv_all_nth split_def) (metis nth_mem prod.collapse)
qed

lemma recover_rep:
  assumes "disk_rep n m log d"
  shows "\<exists>log'. disk_rep n m log' (the (rc_disk (recover sinks e d))) \<and> records_of log' = records_of log"
proof (cases log rule: rev_cases)
  case Nil
  then have "dk_files d = []" "segment_files d = []" using assms
    by (simp_all add: disk_rep_def files_of_def segment_files_def)
  then show ?thesis
    using Nil by (intro exI [of _ "[]"])
      (simp add: recover_def Let_def cut_newest_def disk_rep_def files_of_def log_wf_def records_of_def)
next
  case (snoc log1 x)
  obtain p rs t where x: "x = (p, rs, t)" by (cases x) auto
  have log: "log = log1 @ [(p, rs, t)]" using snoc x by simp
  have wf: "log_wf n m log" and files: "dk_files d = files_of log" using assms by (auto simp: disk_rep_def)
  note sf = segment_files_sorted [OF wf files]
  note cut = cut_newest_files [OF wf [unfolded log], folded log]
  let ?log = "log1 @ [(p, rs, [])]"
  have "log_wf n m ?log"
    using wf unfolding log by (auto simp: log_wf_def entry_wf_def)
  moreover have "list_all2 seg_covers (map segment_of (files_of log)) ?log"
    using segments_cover [OF wf] segment_of_covers [OF log_wf_entry [OF wf]] unfolding log
    by (auto simp: list_all2_append2 list_all2_Cons2 seg_covers_def)
  moreover have "dk_current (the (rc_disk (recover sinks e d))) =
      Some (p, length (concat (map encode_record rs)))"
    by (simp add: recover_def Let_def sf cut)
  ultimately have "disk_rep n m ?log (the (rc_disk (recover sinks e d)))"
    by (auto simp: disk_rep_def recover_def Let_def sf cut)
  then show ?thesis using log by (intro exI [of _ ?log]) simp
qed

definition empty_disk :: disk where
  "empty_disk = \<lparr> dk_files = [], dk_synced = (\<lambda>_. 0), dk_state = None, dk_segments = [],
                  dk_current = None, dk_last_written_seq = 0, dk_dirty = False \<rparr>"

text \<open>A run of appends with the outcome of each, and the records whose append reported success.\<close>

fun disk_run :: "(io_outcome \<times> stream_record) list \<Rightarrow> disk \<Rightarrow> disk \<times> stream_record list" where
  "disk_run [] d = (d, [])"
| "disk_run ((out, r) # ops) d =
     (let (d1, ok) = disk_append out r d; (d2, rs) = disk_run ops d1
      in (d2, if ok then r # rs else rs))"

lemma disk_inv_empty: "disk_inv n empty_disk"
  unfolding disk_inv_def disk_rep_def
  by (intro exI [of _ "[]"]) (simp add: empty_disk_def files_of_def log_wf_def records_of_def)

lemma disk_run_sound:
  assumes "disk_inv n d" "map (\<lambda>op. r_seq (snd op)) ops = [n..<n + length ops]"
    and "\<forall>(out, r) \<in> set ops. wf_record r" "disk_run ops d = (d', rs)"
  shows "disk_inv (n + length ops) d' \<and> on_disk d' = on_disk d @ rs"
  using assms
proof (induction ops arbitrary: n d rs)
  case (Cons op ops)
  obtain out r where op: "op = (out, r)" by (cases op)
  obtain d1 ok where a: "disk_append out r d = (d1, ok)" by (cases "disk_append out r d")
  obtain rs' where b: "disk_run ops d1 = (d', rs')" "rs = (if ok then r # rs' else rs')"
    using Cons.prems(4) op a by (auto simp: Let_def split: prod.splits)
  have "[n..<n + length (op # ops)] = n # [Suc n..<Suc n + length ops]"
    by (subst upt_conv_Cons) simp_all
  with Cons.prems(2,3) op have r: "wf_record r" "r_seq r = n"
    "map (\<lambda>op. r_seq (snd op)) ops = [Suc n..<Suc n + length ops]"
    by (simp_all del: upt_Suc)
  note app = disk_append_sound [OF Cons.prems(1) r(1,2) a]
  have "disk_inv (Suc n + length ops) d' \<and> on_disk d' = on_disk d1 @ rs'"
    using Cons.IH [of "Suc n" d1 rs'] app r(3) Cons.prems(3) b(1) by simp
  then show ?case using app b(2) by simp
qed simp

lemma recover_records: "rc_records (recover sinks e d) = on_disk d"
  by (simp add: recover_def Let_def)

lemma recover_sound:
  assumes "disk_inv n d"
  shows "on_disk (the (rc_disk (recover sinks e d))) = on_disk d" "disk_inv n (the (rc_disk (recover sinks e d)))"
  using assms recover_rep disk_rep_on_disk unfolding disk_inv_def by metis+

lemma on_disk_sorted:
  assumes "disk_inv n d"
  shows "sorted_wrt (<) (map r_seq (on_disk d))"
  using assms disk_rep_on_disk unfolding disk_inv_def disk_rep_def log_wf_def by metis

text \<open>The log a stream starts with, with its history.\<close>

definition opened_log :: "str \<Rightarrow> str \<Rightarrow> counters \<Rightarrow> recovered \<Rightarrow> log_sys" where
  "opened_log role hive_id c rc =
     (let sh = opened_shared role hive_id rc
      in \<lparr> lg_shared = sh, lg_counters = c, lg_flight = (\<lambda>_. None),
           lg_owed = (\<lambda>k. case map_of (sh_sinks sh) k of
               Some st \<Rightarrow> length (pending sh k (ss_cursor st)) | None \<Rightarrow> 0),
           lg_open_turn_bytes = sh_turn_bytes sh, lg_open_node_bytes = sh_node_bytes sh \<rparr>)"

lemma map_of_map_key: "map_of (map (\<lambda>k. (k, f k)) ks) k = (if k \<in> set ks then Some (f k) else None)"
  by (induction ks) auto

lemma map_of_map_filter_Some:
  "map_of (List.map_filter (\<lambda>k. map_option (\<lambda>c. (k, f c)) (g k)) ks) k = Some c \<Longrightarrow>
   \<exists>c0. g k = Some c0 \<and> c = f c0"
  by (induction ks) (auto simp: List.map_filter_simps split: option.splits if_splits)

lemma recover_cursor:
  assumes "map_of (rc_cursors (recover sinks e d)) k = Some c"
  shows "c < rc_next_seq (recover sinks e d)"
  using assms
  by (auto simp: recover_def Let_def split: option.splits dest!: map_of_map_filter_Some)

lemma recover_next:
  assumes "disk_inv n d" "r \<in> set (on_disk d)"
  shows "r_seq r < rc_next_seq (recover sinks e d)"
proof -
  have "r_seq r \<le> r_seq (last (on_disk d))"
    using on_disk_sorted [OF assms(1)] assms(2)
    by (cases "on_disk d" rule: rev_cases) (auto simp: sorted_wrt_append less_imp_le)
  moreover have "on_disk d \<noteq> []" using assms(2) by auto
  ultimately show ?thesis by (auto simp: recover_def Let_def less_Suc_eq_le)
qed

lemma opened_log_opened:
  assumes "disk_inv n d"
  shows "log_opened (opened_log role hive_id c (recover sinks e d))"
proof -
  let ?rc = "recover sinks e d"
  have "rc_next_seq ?rc > 0" by (simp add: recover_def Let_def)
  then show ?thesis
    using on_disk_sorted [OF assms] recover_next [OF assms] recover_cursor [of sinks e d]
    by (auto simp: log_opened_def opened_log_def opened_shared_def Let_def log_ordered_def
        recover_records cursors_ok_def bytes_exact_def bytes_of_def map_of_map_key sink_default_def
        split: if_splits option.splits)
qed


section \<open>Properties\<close>

text \<open>C12: what recovery finds.  Starting from an empty directory, whatever records are appended and
  whatever calls fail on the way (a sync, an open, a write cut at any byte), recovery returns exactly
  the records whose append reported success, in order; and recovering again finds the same.\<close>

theorem disk_run_recovers:
  assumes "map (\<lambda>op. r_seq (snd op)) ops = [1..<1 + length ops]"
    and "\<forall>(out, r) \<in> set ops. wf_record r"
    and "disk_run ops empty_disk = (d, written)"
  shows "rc_records (recover sinks e d) = written \<and>
    rc_records (recover sinks e' (the (rc_disk (recover sinks e d)))) = written"
proof -
  have inv: "disk_inv (1 + length ops) d \<and> on_disk d = on_disk empty_disk @ written"
    by (rule disk_run_sound [OF disk_inv_empty assms])
  moreover have "on_disk empty_disk = []"
    by (simp add: on_disk_def segment_files_def empty_disk_def)
  ultimately show ?thesis using recover_sound(1) by (auto simp: recover_records)
qed



text \<open>Witnesses: a run whose second write is cut, a restart from it, and a housekeeping pass.\<close>

definition demo_ops :: "(io_outcome \<times> stream_record) list" where
  "demo_ops = [(IoOk, sample_record \<lparr> r_seq := 1 \<rparr>), (WriteFails 9, sample_record \<lparr> r_seq := 2 \<rparr>),
               (IoOk, sample_record \<lparr> r_seq := 3 \<rparr>)]"

lemma demo_ops_ok:
  "map (\<lambda>op. r_seq (snd op)) demo_ops = [1..<1 + length demo_ops]"
  "\<forall>(out, r) \<in> set demo_ops. wf_record r"
  by (simp_all add: demo_ops_def upt_rec wf_sample_record)

lemma demo_run_written:
  "snd (disk_run demo_ops empty_disk) = [sample_record \<lparr> r_seq := 1 \<rparr>, sample_record \<lparr> r_seq := 3 \<rparr>]"
  by (simp add: demo_ops_def empty_disk_def disk_append_def disk_write_def disk_roll_def open_append_def
      append_bytes_def Let_def length_encode_record length_encode_body STREAM_SEGMENT_BYTES_def
      sample_record_def)

theorem disk_run_recovers_witness:
  "rc_records (recover [] 1 (fst (disk_run demo_ops empty_disk))) =
     [sample_record \<lparr> r_seq := 1 \<rparr>, sample_record \<lparr> r_seq := 3 \<rparr>]"
  using disk_run_recovers [OF demo_ops_ok surjective_pairing] by (simp add: demo_run_written)


lemma demo_kept: "trim_loop 1000 (lg_shared demo_taken) = lg_shared demo_taken"
proof -
  have recs: "sh_records (lg_shared demo_taken) = [demo_record]"
    by (simp add: demo_taken_def demo_open_def)
  have "sinks_of (lg_shared demo_taken) (r_subject demo_record) = [demo_storage]"
    by (simp add: sinks_of_def sinks_for_def demo_record_def SUBJECT_COGNITION_TURNS_def
        SUBJECT_STORAGE_TURNS_def PRIMARY_HIVE_ID_def demo_storage_def)
  then have "\<not> record_done (lg_shared demo_taken) demo_record 1000"
    by (simp add: record_done_def demo_sink sink_default_def aged_def demo_record_def)
  with recs show ?thesis by (subst trim_loop.simps) simp
qed


end
