(* ===== verification/Vpn_Gates.thy ===== *)
theory Vpn_Gates
  imports Protocol
begin

text \<open>
  The reachability gates of \<^verbatim>\<open>src/src/router/mod.rs\<close>: which source may reach which destination with
  an addressed message (\<^verbatim>\<open>vpn_allows_between\<close>) and with one copy of a broadcast
  (\<^verbatim>\<open>vpn_allows_broadcast_between\<close>), with the exclusive rules of an edge node.
\<close>

definition is_global_scope :: "meta \<Rightarrow> bool" where
  "is_global_scope meta = (mt_scope meta = Some SCOPE_GLOBAL)"

definition EDGE_SERVICE_COMMANDS :: "str list" where
  "EDGE_SERVICE_COMMANDS =
     [''EDGE_OPEN_URL'', ''EDGE_CLOSE_URL'', ''EDGE_LIST_URLS'', ''EDGE_PUBLISH_BLOB'',
      ''EDGE_UNPUBLISH_BLOB'', ''EDGE_TLS_STATUS'', ''EDGE_TLS_RELOAD'', ''EDGE_ACME_CHALLENGE'',
      ''EDGE_WEB_ROUTES'']"

definition EDGE_SERVICE_RESPONSES :: "str list" where
  "EDGE_SERVICE_RESPONSES =
     [''EDGE_OPEN_URL_RESPONSE'', ''EDGE_CLOSE_URL_RESPONSE'', ''EDGE_LIST_URLS_RESPONSE'',
      ''EDGE_PUBLISH_BLOB_RESPONSE'', ''EDGE_UNPUBLISH_BLOB_RESPONSE'',
      ''EDGE_TLS_STATUS_RESPONSE'', ''EDGE_TLS_RELOAD_RESPONSE'',
      ''EDGE_ACME_CHALLENGE_RESPONSE'', ''EDGE_WEB_ROUTES_RESPONSE'']"

definition msg_in :: "meta \<Rightarrow> str list \<Rightarrow> bool" where
  "msg_in meta actions = (case mt_msg meta of Some a \<Rightarrow> a \<in> set actions | None \<Rightarrow> False)"

definition is_edge_service_control_message :: "meta \<Rightarrow> str \<Rightarrow> bool" where
  "is_edge_service_control_message meta dst_name =
     (is_edge_node dst_name \<and> is_system_kind (mt_msg_type meta)
      \<and> msg_in meta EDGE_SERVICE_COMMANDS)"

definition edge_service_control_allowed :: "meta \<Rightarrow> str \<Rightarrow> str \<Rightarrow> bool" where
  "edge_service_control_allowed meta src_name dst_name =
     (is_edge_service_control_message meta dst_name \<and> src_name = EDGE_CONTROL_AUTHORITY)"

definition edge_service_control_response_allowed :: "meta \<Rightarrow> str \<Rightarrow> str \<Rightarrow> bool" where
  "edge_service_control_response_allowed meta src_name dst_name =
     (is_edge_node src_name \<and> dst_name = EDGE_CONTROL_AUTHORITY
      \<and> is_system_kind (mt_msg_type meta) \<and> msg_in meta EDGE_SERVICE_RESPONSES)"

definition edge_data_path_allowed :: "meta \<Rightarrow> str \<Rightarrow> str \<Rightarrow> bool" where
  "edge_data_path_allowed meta src_name dst_name =
     (if is_system_kind (mt_msg_type meta) then False
      else (is_edge_node src_name \<and> is_io_node dst_name)
         \<or> (is_io_node src_name \<and> is_edge_node dst_name))"

definition edge_vault_read_allowed :: "meta \<Rightarrow> str \<Rightarrow> str \<Rightarrow> bool" where
  "edge_vault_read_allowed meta src_name dst_name =
     (if \<not> is_system_kind (mt_msg_type meta) then False
      else if mt_msg meta = Some ''VAULT_GET'' then is_edge_node src_name \<and> is_vault_node dst_name
      else if mt_msg meta = Some ''VAULT_GET_RESPONSE''
        then is_vault_node src_name \<and> is_edge_node dst_name
      else False)"

definition edge_vault_notice_allowed :: "meta \<Rightarrow> str \<Rightarrow> str \<Rightarrow> bool" where
  "edge_vault_notice_allowed meta src_name dst_name =
     (is_system_kind (mt_msg_type meta) \<and> mt_msg meta = Some ''VAULT_SECRET_CHANGED''
      \<and> split_once at_sign src_name = Some (''SY.vault'', PRIMARY_HIVE_ID)
      \<and> is_edge_node dst_name)"

definition vpn_allows_between :: "meta \<Rightarrow> str \<Rightarrow> nat \<Rightarrow> str \<Rightarrow> nat \<Rightarrow> bool" where
  "vpn_allows_between meta src_name src_vpn dst_name dst_vpn =
     (if is_edge_node src_name \<or> is_edge_node dst_name then
        (if is_edge_service_control_message meta dst_name
         then edge_service_control_allowed meta src_name dst_name
         else edge_service_control_response_allowed meta src_name dst_name
            \<or> edge_data_path_allowed meta src_name dst_name
            \<or> edge_vault_read_allowed meta src_name dst_name
            \<or> edge_vault_notice_allowed meta src_name dst_name)
      else if is_system_kind (mt_msg_type meta) \<and> is_global_scope meta then True
      else if is_system_node src_name \<or> is_system_node dst_name then True
      else src_vpn = dst_vpn)"

definition vpn_allows_broadcast_between :: "meta \<Rightarrow> str \<Rightarrow> nat \<Rightarrow> str \<Rightarrow> nat \<Rightarrow> bool" where
  "vpn_allows_broadcast_between meta src_name src_vpn dst_name dst_vpn =
     (\<not> edge_vault_notice_allowed meta src_name dst_name
      \<and> vpn_allows_between meta src_name src_vpn dst_name dst_vpn)"

lemmas edge_gates =
  is_edge_service_control_message_def edge_service_control_allowed_def
  edge_service_control_response_allowed_def edge_data_path_allowed_def
  edge_vault_read_allowed_def edge_vault_notice_allowed_def


section \<open>Lemmas\<close>

lemma role_of_vault: "split_once at_sign n = Some (''SY.vault'', h) \<Longrightarrow> role_of n = ''SY.vault''"
  by (simp add: role_of_def)

lemma vault_not_edge: "is_vault_node n \<Longrightarrow> \<not> is_edge_node n"
  by (simp add: is_vault_node_role is_edge_node_role)

lemma io_not_edge: "is_io_node n \<Longrightarrow> \<not> is_edge_node n"
  by (auto simp: is_io_node_role is_edge_node_role starts_with_def)

lemma admin_not_edge: "\<not> is_edge_node EDGE_CONTROL_AUTHORITY"
  by (simp add: EDGE_CONTROL_AUTHORITY_def is_edge_node_def)

lemma edge_is_system: "is_edge_node n \<Longrightarrow> is_system_node n"
  using role_of_prefix [of n]
  by (auto simp: is_edge_node_role is_system_node_def starts_with_def prefix_def)


section \<open>Properties\<close>



text \<open>The vault's notice never reaches an edge by broadcast, while its unicast does.\<close>

theorem vault_broadcast_never_reaches_edge:
  assumes "mt_msg meta = Some ''VAULT_SECRET_CHANGED''" "is_system_kind (mt_msg_type meta)"
    and "is_edge_node dst_name"
  shows "\<not> vpn_allows_broadcast_between meta src_name src_vpn dst_name dst_vpn \<and>
    vpn_allows_between meta (''SY.vault@'' @ PRIMARY_HIVE_ID) src_vpn dst_name dst_vpn"
proof -
  have "\<not> msg_in meta EDGE_SERVICE_COMMANDS" "\<not> msg_in meta EDGE_SERVICE_RESPONSES"
    using assms(1) by (simp_all add: msg_in_def EDGE_SERVICE_COMMANDS_def EDGE_SERVICE_RESPONSES_def)
  then show ?thesis
    using assms by (simp add: vpn_allows_broadcast_between_def vpn_allows_between_def edge_gates
        PRIMARY_HIVE_ID_def)
qed

theorem vault_broadcast_never_reaches_edge_witness:
  "\<not> vpn_allows_broadcast_between
      (meta_default \<lparr> mt_msg_type := ''system'', mt_msg := Some ''VAULT_SECRET_CHANGED'' \<rparr>)
      ''SY.vault@motherbee'' 0 ''SY.edge@ingress1'' 0 \<and>
   vpn_allows_between
      (meta_default \<lparr> mt_msg_type := ''system'', mt_msg := Some ''VAULT_SECRET_CHANGED'' \<rparr>)
      (''SY.vault@'' @ PRIMARY_HIVE_ID) 0 ''SY.edge@ingress1'' 0"
  by (rule vault_broadcast_never_reaches_edge) code_simp+

text \<open>Between nodes that are neither edge nor system nodes, only the VPN decides, whatever the
  message, unless it is a system message of global scope.\<close>

theorem vpn_isolation:
  assumes "\<not> is_system_node src_name" "\<not> is_system_node dst_name"
    and "\<not> (is_system_kind (mt_msg_type meta) \<and> is_global_scope meta)"
  shows "(vpn_allows_between meta src_name src_vpn dst_name dst_vpn \<longleftrightarrow> src_vpn = dst_vpn) \<and>
    (vpn_allows_broadcast_between meta src_name src_vpn dst_name dst_vpn \<longleftrightarrow> src_vpn = dst_vpn)"
  using assms edge_is_system
  by (auto simp: vpn_allows_between_def vpn_allows_broadcast_between_def edge_vault_notice_allowed_def)

theorem vpn_isolation_witness:
  "(vpn_allows_between (meta_default \<lparr> mt_msg_type := ''user'' \<rparr>) ''AI.a@h'' 3 ''IO.b@k'' 4 \<longleftrightarrow>
    (3::nat) = 4) \<and>
   (vpn_allows_broadcast_between (meta_default \<lparr> mt_msg_type := ''user'' \<rparr>) ''AI.a@h'' 3 ''IO.b@k'' 4
    \<longleftrightarrow> (3::nat) = 4)"
  by (rule vpn_isolation) code_simp+

end
