(* ===== verification/Wildcard.thy ===== *)
theory Wildcard
  imports Node_Names "HOL-Library.Product_Lexorder"
begin

text \<open>
  Pattern matching of route, VPN and tap rules: \<^verbatim>\<open>wildcard_match\<close>, the greedy two-pointer loop of
  \<^verbatim>\<open>src/src/router/mod.rs\<close> with its single backtrack point, and the match kinds built on it.  The
  reference is \<^verbatim>\<open>glob\<close>, the declarative meaning of a pattern; on a text without a literal
  \<^verbatim>\<open>*\<close> the loop ends and computes it.
\<close>

abbreviation (input) asterisk :: char where "asterisk \<equiv> CHR ''*''"

definition MATCH_EXACT :: nat where "MATCH_EXACT = 0"
definition MATCH_PREFIX :: nat where "MATCH_PREFIX = 1"
definition MATCH_GLOB :: nat where "MATCH_GLOB = 2"

text \<open>The first loop of \<^verbatim>\<open>wildcard_match\<close>: \<^verbatim>\<open>None\<close> is not ending, \<^verbatim>\<open>Some None\<close> the early
  \<^verbatim>\<open>return false\<close>, \<^verbatim>\<open>Some (Some pi)\<close> leaving the loop at pattern index \<^verbatim>\<open>pi\<close>.\<close>

partial_function (option) wildcard_loop ::
  "str \<Rightarrow> str \<Rightarrow> nat \<Rightarrow> nat \<Rightarrow> nat option \<Rightarrow> nat \<Rightarrow> nat option option" where
  "wildcard_loop pattern text pi ti star match_idx =
     (if ti < length text then
        (if pi < length pattern \<and> pattern ! pi = text ! ti then
           wildcard_loop pattern text (pi + 1) (ti + 1) star match_idx
         else if pi < length pattern \<and> pattern ! pi = asterisk then
           wildcard_loop pattern text (pi + 1) ti (Some pi) ti
         else case star of
             Some star_idx \<Rightarrow>
               wildcard_loop pattern text (star_idx + 1) (match_idx + 1) star (match_idx + 1)
           | None \<Rightarrow> Some None)
      else Some (Some pi))"

declare wildcard_loop.simps [code]

text \<open>The second loop skips the trailing stars of the pattern.\<close>

definition wildcard_match :: "str \<Rightarrow> str \<Rightarrow> bool" where
  "wildcard_match pattern text =
     (case wildcard_loop pattern text 0 0 None 0 of
        Some (Some pi) \<Rightarrow> dropWhile (\<lambda>c. c = asterisk) (drop pi pattern) = []
      | _ \<Rightarrow> False)"

definition pattern_match :: "str \<Rightarrow> str \<Rightarrow> bool" where
  "pattern_match pattern name =
     (if asterisk \<in> set pattern then wildcard_match pattern name else pattern = name)"

definition pattern_match_kind :: "nat \<Rightarrow> str \<Rightarrow> str \<Rightarrow> bool" where
  "pattern_match_kind match_kind pattern name =
     (if match_kind = MATCH_EXACT then pattern = name
      else if match_kind = MATCH_PREFIX then starts_with name (trim_end_matches pattern ''.*'')
      else if match_kind = MATCH_GLOB then wildcard_match pattern name
      else False)"

definition match_any_hive :: "str \<Rightarrow> str \<Rightarrow> bool" where
  "match_any_hive base full_name =
     (case split_once at_sign full_name of
        None \<Rightarrow> False
      | Some (name_base, _) \<Rightarrow>
          if asterisk \<in> set base then wildcard_match base name_base else name_base = base)"


section \<open>Reference meaning\<close>

fun glob :: "str \<Rightarrow> str \<Rightarrow> bool" where
  "glob [] t = (t = [])"
| "glob (c # p) [] = (c = asterisk \<and> glob p [])"
| "glob (c # p) (x # t) =
     (if c = asterisk then glob p (x # t) \<or> glob (c # p) t else x = c \<and> glob p t)"

declare glob.simps(2,3) [simp del]

lemmas glob_rules = glob.simps(2,3)

lemma glob_star_iff: "glob (asterisk # p) t \<longleftrightarrow> (\<exists>k\<le>length t. glob p (drop k t))"
proof (induction t)
  case Nil
  then show ?case by (simp add: glob_rules)
next
  case (Cons x t)
  have "(\<exists>k\<le>length (x # t). glob p (drop k (x # t))) \<longleftrightarrow>
        glob p (x # t) \<or> (\<exists>k\<le>length t. glob p (drop k t))"
    by (metis Suc_le_mono drop0 drop_Suc_Cons length_Cons nat.exhaust zero_le)
  then show ?case by (simp add: glob_rules Cons)
qed

lemma glob_star_mono: "glob (asterisk # p) (drop k t) \<Longrightarrow> glob (asterisk # p) t"
  unfolding glob_star_iff
  by (metis (no_types) add_diff_cancel_left' drop_drop drop_eq_Nil2 length_drop le_diff_conv
      linorder_le_cases order_refl add.commute)

lemma glob_lit_append:
  "asterisk \<notin> set lit \<Longrightarrow> glob (lit @ p) t \<longleftrightarrow> (\<exists>t'. t = lit @ t' \<and> glob p t')"
proof (induction lit arbitrary: t)
  case Nil
  then show ?case by simp
next
  case (Cons c lit)
  then show ?case by (cases t) (auto simp: glob_rules)
qed

lemma glob_trailing_stars: "glob p [] \<longleftrightarrow> dropWhile (\<lambda>c. c = asterisk) p = []"
  by (induction p) (auto simp: glob_rules)


section \<open>The loop computes the reference meaning\<close>

text \<open>What holds at the head of the loop: with no star seen, the rest of the pattern against the
  rest of the text decides; with a star at \<^verbatim>\<open>s\<close>, the pattern from that star on against the text from
  \<^verbatim>\<open>match_idx\<close> decides, and the literal part after the star has matched up to \<^verbatim>\<open>ti\<close>.\<close>

definition loop_inv :: "str \<Rightarrow> str \<Rightarrow> nat \<Rightarrow> nat \<Rightarrow> nat option \<Rightarrow> nat \<Rightarrow> bool" where
  "loop_inv pat txt pi ti star m \<longleftrightarrow>
     pi \<le> length pat \<and> ti \<le> length txt \<and>
     (case star of
        None \<Rightarrow> glob pat txt = glob (drop pi pat) (drop ti txt)
      | Some s \<Rightarrow> s < length pat \<and> m \<le> ti \<and>
          glob pat txt = glob (asterisk # drop (s + 1) pat) (drop m txt) \<and>
          (\<exists>lit. asterisk \<notin> set lit \<and> drop (s + 1) pat = lit @ drop pi pat \<and>
                 drop m txt = lit @ drop ti txt))"

lemma later_star_decides:
  assumes "asterisk \<notin> set lit"
  shows "glob (asterisk # lit @ asterisk # p) (lit @ t) \<longleftrightarrow> glob (asterisk # p) t"
proof
  assume "glob (asterisk # lit @ asterisk # p) (lit @ t)"
  then obtain k where "glob (lit @ asterisk # p) (drop k (lit @ t))"
    by (auto simp: glob_star_iff)
  then obtain t' where t': "drop k (lit @ t) = lit @ t'" and g: "glob (asterisk # p) t'"
    using assms by (auto simp: glob_lit_append)
  have "t' = drop (k + length lit) (lit @ t)"
    by (metis append_eq_conv_conj drop_drop t' add.commute)
  then have "t' = drop k t" by simp
  with g show "glob (asterisk # p) t" using glob_star_mono by blast
next
  assume "glob (asterisk # p) t"
  then have "glob (lit @ asterisk # p) (lit @ t)" using assms by (auto simp: glob_lit_append)
  then show "glob (asterisk # lit @ asterisk # p) (lit @ t)"
    unfolding glob_star_iff [of "lit @ asterisk # p"] by (metis drop0 zero_le)
qed

lemma exhausted_text_decides:
  assumes "asterisk \<notin> set lit"
  shows "glob (asterisk # lit @ p) lit \<longleftrightarrow> glob p []"
proof
  assume "glob (asterisk # lit @ p) lit"
  then obtain k t' where "drop k lit = lit @ t'" "glob p t'"
    using assms by (auto simp: glob_star_iff glob_lit_append)
  moreover from this have "t' = []"
    by (metis append.right_neutral append_eq_append_conv append_take_drop_id
        le_add2 le_antisym length_append length_drop diff_le_self add.commute
        add_leE length_0_conv add_le_same_cancel1)
  ultimately show "glob p []" by simp
next
  assume "glob p []"
  then have "glob (lit @ p) lit" using assms by (auto simp: glob_lit_append)
  then show "glob (asterisk # lit @ p) lit"
    unfolding glob_star_iff by (metis drop0 zero_le)
qed

lemma drop_nth_Cons: "i < length xs \<Longrightarrow> drop i xs = xs ! i # drop (i + 1) xs"
  by (simp add: Cons_nth_drop_Suc)

lemma loop_inv_literal:
  assumes inv: "loop_inv pat txt pi ti star m" and nostar: "asterisk \<notin> set txt"
    and "ti < length txt" "pi < length pat" "pat ! pi = txt ! ti"
  shows "loop_inv pat txt (pi + 1) (ti + 1) star m"
proof -
  let ?c = "txt ! ti"
  have c: "?c \<noteq> asterisk" using assms by (metis nth_mem)
  have dp: "drop pi pat = ?c # drop (pi + 1) pat" and dt: "drop ti txt = ?c # drop (ti + 1) txt"
    using assms drop_nth_Cons by metis+
  show ?thesis
  proof (cases star)
    case None
    then show ?thesis using inv assms(3,4) c by (simp add: loop_inv_def dp dt glob_rules)
  next
    case (Some s)
    then obtain lit where lit: "asterisk \<notin> set lit" "drop (s + 1) pat = lit @ drop pi pat"
      "drop m txt = lit @ drop ti txt"
      using inv by (auto simp: loop_inv_def)
    have "\<exists>lit. asterisk \<notin> set lit \<and> drop (s + 1) pat = lit @ drop (pi + 1) pat \<and>
        drop m txt = lit @ drop (ti + 1) txt"
      unfolding lit(2,3) dp dt using lit(1) c by (intro exI [of _ "lit @ [?c]"]) simp
    then show ?thesis using Some inv assms(3,4) by (simp add: loop_inv_def)
  qed
qed

lemma loop_inv_star:
  assumes inv: "loop_inv pat txt pi ti star m"
    and "pi < length pat" "pat ! pi = asterisk"
  shows "loop_inv pat txt (pi + 1) ti (Some pi) ti"
proof -
  have dp: "drop pi pat = asterisk # drop (pi + 1) pat" using assms drop_nth_Cons by metis
  have "glob pat txt = glob (asterisk # drop (pi + 1) pat) (drop ti txt)"
  proof (cases star)
    case None
    then show ?thesis using inv by (simp add: loop_inv_def dp)
  next
    case (Some s)
    then obtain lit where "asterisk \<notin> set lit" "drop (s + 1) pat = lit @ drop pi pat"
      "drop m txt = lit @ drop ti txt"
      "glob pat txt = glob (asterisk # drop (s + 1) pat) (drop m txt)"
      using inv by (auto simp: loop_inv_def)
    then show ?thesis by (simp add: dp later_star_decides)
  qed
  then show ?thesis using inv assms by (simp add: loop_inv_def)
qed

lemma loop_inv_mismatch:
  assumes "loop_inv pat txt pi ti star m" "ti < length txt"
    and "\<not> (pi < length pat \<and> pat ! pi = txt ! ti)"
    and "\<not> (pi < length pat \<and> pat ! pi = asterisk)"
  shows "\<not> glob (drop pi pat) (drop ti txt)"
proof (cases "pi < length pat")
  case True
  then have "drop pi pat = pat ! pi # drop (pi + 1) pat"
    "drop ti txt = txt ! ti # drop (ti + 1) txt"
    using assms drop_nth_Cons by metis+
  then show ?thesis using assms True by (auto simp: glob_rules)
next
  case False
  then show ?thesis using assms by simp
qed

lemma loop_inv_backtrack:
  assumes inv: "loop_inv pat txt pi ti (Some s) m" and "ti < length txt"
    and nomatch: "\<not> glob (drop pi pat) (drop ti txt)"
  shows "loop_inv pat txt (s + 1) (m + 1) (Some s) (m + 1)"
proof -
  let ?q = "drop (s + 1) pat"
  from inv obtain lit where lit: "asterisk \<notin> set lit" "?q = lit @ drop pi pat"
    "drop m txt = lit @ drop ti txt" and g: "glob pat txt = glob (asterisk # ?q) (drop m txt)"
    and m: "m \<le> ti" and s: "s < length pat"
    by (auto simp: loop_inv_def)
  have "\<not> glob ?q (drop m txt)" using lit nomatch by (auto simp: glob_lit_append)
  moreover have "drop m txt = txt ! m # drop (m + 1) txt"
    using m assms(2) drop_nth_Cons by (metis order_le_less_trans)
  ultimately have "glob pat txt = glob (asterisk # ?q) (drop (m + 1) txt)"
    using g by (simp add: glob_rules)
  then show ?thesis using m s assms(2) by (simp add: loop_inv_def)
qed

lemma loop_inv_exit:
  assumes inv: "loop_inv pat txt pi ti star m" and "\<not> ti < length txt"
  shows "glob pat txt = glob (drop pi pat) []"
proof (cases star)
  case None
  then show ?thesis using inv assms by (simp add: loop_inv_def)
next
  case (Some s)
  then show ?thesis using inv assms by (auto simp: loop_inv_def exhausted_text_decides)
qed

text \<open>The measure of the loop: the backtrack point only moves forward, and between two moves of it
  the pattern index only grows.\<close>

definition loop_rank :: "str \<Rightarrow> str \<Rightarrow> nat \<Rightarrow> nat option \<Rightarrow> nat \<Rightarrow> nat \<times> nat" where
  "loop_rank pat txt pi star m =
     (length txt + 1 - (case star of None \<Rightarrow> 0 | Some _ \<Rightarrow> m + 1), length pat - pi)"

lemma wildcard_loop_correct:
  assumes "asterisk \<notin> set txt" "loop_inv pat txt pi ti star m"
  shows "\<exists>r. wildcard_loop pat txt pi ti star m = Some r \<and>
             glob pat txt = (case r of None \<Rightarrow> False | Some j \<Rightarrow> glob (drop j pat) [])"
  using assms(2)
proof (induction "loop_rank pat txt pi star m" arbitrary: pi ti star m rule: less_induct)
  case less
  note inv = less.prems
  note step = wildcard_loop.simps [of pat "txt" pi ti star m]
  consider (over) "\<not> ti < length txt"
    | (lit) "ti < length txt" "pi < length pat" "pat ! pi = txt ! ti"
    | (star) "ti < length txt" "\<not> (pi < length pat \<and> pat ! pi = txt ! ti)"
        "pi < length pat" "pat ! pi = asterisk"
    | (stuck) "ti < length txt" "\<not> (pi < length pat \<and> pat ! pi = txt ! ti)"
        "\<not> (pi < length pat \<and> pat ! pi = asterisk)"
    by blast
  then show ?case
  proof cases
    case over
    then have "wildcard_loop pat txt pi ti star m = Some (Some pi)" by (subst step) simp
    then show ?thesis using loop_inv_exit [OF inv over] by simp
  next
    case lit
    have "loop_rank pat txt (pi + 1) star m < loop_rank pat txt pi star m"
      using lit by (auto simp: loop_rank_def)
    note less.hyps [OF this loop_inv_literal [OF inv assms(1) lit]]
    moreover have "wildcard_loop pat txt pi ti star m =
        wildcard_loop pat txt (pi + 1) (ti + 1) star m"
      using lit by (subst step) simp
    ultimately show ?thesis by (simp only:)
  next
    case star
    have "loop_rank pat txt (pi + 1) (Some pi) ti < loop_rank pat txt pi star m"
      using star inv by (auto simp: loop_rank_def loop_inv_def split: option.splits)
    note less.hyps [OF this loop_inv_star [OF inv star(3,4)]]
    moreover have "wildcard_loop pat txt pi ti star m =
        wildcard_loop pat txt (pi + 1) ti (Some pi) ti"
      using star by (subst step) auto
    ultimately show ?thesis by (simp only:)
  next
    case stuck
    note nomatch = loop_inv_mismatch [OF inv stuck]
    show ?thesis
    proof (cases star)
      case None
      have "wildcard_loop pat txt pi ti star m = Some None"
        using stuck None by (subst step) auto
      moreover have "\<not> glob pat txt" using inv None nomatch by (simp add: loop_inv_def)
      ultimately show ?thesis by simp
    next
      case (Some s)
      have "loop_rank pat txt (s + 1) (Some s) (m + 1) < loop_rank pat txt pi star m"
        using stuck inv Some by (auto simp: loop_rank_def loop_inv_def)
      note less.hyps [OF this loop_inv_backtrack [OF inv [unfolded Some] stuck(1) nomatch]]
      moreover have "wildcard_loop pat txt pi ti star m =
          wildcard_loop pat txt (s + 1) (m + 1) (Some s) (m + 1)"
        using stuck Some by (subst step) auto
      ultimately show ?thesis by (simp only:)
    qed
  qed
qed

lemma loop_inv_start: "loop_inv pat txt 0 0 None 0"
  by (simp add: loop_inv_def)

lemma wildcard_loop_ends:
  assumes "case star of None \<Rightarrow> True | Some s \<Rightarrow> m \<le> ti"
  shows "\<exists>r. wildcard_loop pat txt pi ti star m = Some r"
  using assms
proof (induction "loop_rank pat txt pi star m" arbitrary: pi ti star m rule: less_induct)
  case less
  note step = wildcard_loop.simps [of pat "txt" pi ti star m]
  show ?case
  proof (cases "ti < length txt")
    case ti: True
    have lit: "\<exists>r. wildcard_loop pat txt (pi + 1) (ti + 1) star m = Some r" if "pi < length pat"
      using that less.prems by (intro less.hyps) (auto simp: loop_rank_def split: option.splits)
    have star: "\<exists>r. wildcard_loop pat txt (pi + 1) ti (Some pi) ti = Some r" if "pi < length pat"
      using that less.prems ti
      by (intro less.hyps) (auto simp: loop_rank_def split: option.splits)
    have retry: "\<exists>r. wildcard_loop pat txt (s + 1) (m + 1) star (m + 1) = Some r"
      if "star = Some s" for s
      using that less.prems ti
      by (intro less.hyps) (auto simp: loop_rank_def split: option.splits)
    show ?thesis
      by (subst step) (use ti lit star retry in \<open>auto split: option.splits\<close>)
  next
    case False
    then show ?thesis by (subst step) simp
  qed
qed


section \<open>Properties\<close>

text \<open>C33: the backtracking loop of \<^verbatim>\<open>wildcard_match\<close> ends on every pattern and every text.\<close>

theorem wildcard_match_terminates:
  "\<exists>r. wildcard_loop pattern text 0 0 None 0 = Some r"
  by (rule wildcard_loop_ends) simp

text \<open>C32: on a text with no literal \<^verbatim>\<open>*\<close> (every registered node name), the greedy loop of
  \<^verbatim>\<open>wildcard_match\<close> decides exactly the declarative meaning of the pattern.\<close>

theorem wildcard_match_glob:
  assumes "asterisk \<notin> set text"
  shows "wildcard_match pattern text = glob pattern text"
proof -
  obtain r where "wildcard_loop pattern text 0 0 None 0 = Some r"
    "glob pattern text = (case r of None \<Rightarrow> False | Some j \<Rightarrow> glob (drop j pattern) [])"
    using wildcard_loop_correct [OF assms loop_inv_start, of pattern] by blast
  then show ?thesis by (cases r) (simp_all only: wildcard_match_def glob_trailing_stars option.case)
qed

theorem wildcard_match_glob_witness:
  "wildcard_match ''AI.*.sup*t@h'' ''AI.x.y.support@h'' = glob ''AI.*.sup*t@h'' ''AI.x.y.support@h''
   \<and> glob ''AI.*.sup*t@h'' ''AI.x.y.support@h''
   \<and> \<not> wildcard_match ''AI.*.sup*t@h'' ''AI.sup@h''"
proof (intro conjI)
  show "wildcard_match ''AI.*.sup*t@h'' ''AI.x.y.support@h'' =
      glob ''AI.*.sup*t@h'' ''AI.x.y.support@h''"
    by (rule wildcard_match_glob) simp
qed code_simp+

end
