(* ===== verification/Lsa_Region.thy ===== *)
theory Lsa_Region
  imports Vpn_Gates Wildcard
begin

unbundle bit_operations_syntax

text \<open>
  The LSA region as the router reads it (\<^verbatim>\<open>src/src/shm/mod.rs\<close>) and the lookups on it
  (\<^verbatim>\<open>src/src/router/mod.rs\<close>): which remote node a UUID stands for, who may speak in a frame that came
  from the WAN, and which taps of another hive apply.  A \<^verbatim>\<open>[u8; N]\<close> field is its bytes, read through
  \<^verbatim>\<open>bytes_to_string\<close> with its length field; padding is left out.  A \<^verbatim>\<open>HashMap\<close> is an association
  list, whose order stands for the map's arbitrary one.
\<close>

section \<open>Entries\<close>

type_synonym flags = "16 word"

definition FLAG_ACTIVE :: flags where "FLAG_ACTIVE = 0x0001"
definition FLAG_DELETED :: flags where "FLAG_DELETED = 0x0002"
definition FLAG_STALE :: flags where "FLAG_STALE = 0x0004"
definition FLAG_FROZEN :: flags where "FLAG_FROZEN = 0x0008"
definition HIVE_FLAG_SELF :: flags where "HIVE_FLAG_SELF = 0x0010"

definition ACTION_FORWARD :: nat where "ACTION_FORWARD = 0"
definition ACTION_DROP :: nat where "ACTION_DROP = 1"

record remote_hive_entry =
  rh_hive_id :: bytes
  rh_hive_id_len :: nat
  rh_router_uuid :: bytes
  rh_router_name :: bytes
  rh_router_name_len :: nat
  rh_last_lsa_seq :: nat
  rh_last_updated :: nat
  rh_flags :: flags
  rh_node_count :: nat
  rh_route_count :: nat
  rh_vpn_count :: nat
  rh_tap_count :: nat

record remote_node_entry =
  rn_uuid :: uuid
  rn_name :: bytes
  rn_name_len :: nat
  rn_vpn_id :: nat
  rn_hive_index :: nat
  rn_flags :: flags

record remote_route_entry =
  rr_prefix :: bytes
  rr_prefix_len :: nat
  rr_match_kind :: nat
  rr_action :: nat
  rr_next_hop_hive :: bytes
  rr_next_hop_hive_len :: nat
  rr_metric :: nat
  rr_priority :: nat
  rr_flags :: flags
  rr_hive_index :: nat

record remote_vpn_entry =
  rv_pattern :: bytes
  rv_pattern_len :: nat
  rv_match_kind :: nat
  rv_vpn_id :: nat
  rv_priority :: nat
  rv_flags :: flags
  rv_hive_index :: nat

record remote_tap_entry =
  rp_match_src :: bytes
  rp_match_src_len :: nat
  rp_match_dst :: bytes
  rp_match_dst_len :: nat
  rp_target :: bytes
  rp_target_len :: nat
  rp_mode :: nat
  rp_enabled :: nat
  rp_flags :: flags
  rp_hive_index :: nat

record lsa_snapshot =
  ls_hives :: "remote_hive_entry list"
  ls_nodes :: "remote_node_entry list"
  ls_routes :: "remote_route_entry list"
  ls_vpns :: "remote_vpn_entry list"
  ls_taps :: "remote_tap_entry list"

definition hive_name :: "remote_hive_entry \<Rightarrow> str" where
  "hive_name h = bytes_to_string (rh_hive_id h) (rh_hive_id_len h)"

definition node_name :: "remote_node_entry \<Rightarrow> str" where
  "node_name n = bytes_to_string (rn_name n) (rn_name_len n)"


section \<open>Remote nodes\<close>

record remote_node_info =
  ri_name :: str
  ri_vpn_id :: nat
  ri_hive_id :: str
  ri_next_hop_hive :: str
  ri_via_hub :: bool

record reachability_entry =
  re_name :: str
  re_origin_hive :: str
  re_next_hop_hive :: str
  re_vpn_id :: nat
  re_last_updated :: nat

type_synonym reachability = "(uuid \<times> reachability_entry) list"

text \<open>The index of the first hive entry of that name that is neither this hive nor stale.\<close>

definition hive_usable :: "remote_hive_entry \<Rightarrow> bool" where
  "hive_usable h = (rh_hive_id_len h \<noteq> 0 \<and> rh_flags h AND (HIVE_FLAG_SELF OR FLAG_STALE) = 0)"

definition hive_position :: "remote_hive_entry list \<Rightarrow> str \<Rightarrow> nat option" where
  "hive_position hives hive =
     map_option fst (find (\<lambda>(i, h). hive_usable h \<and> hive_name h = hive) (enumerate 0 hives))"

definition node_usable :: "remote_node_entry \<Rightarrow> bool" where
  "node_usable n = (rn_name_len n \<noteq> 0 \<and> rn_flags n AND (FLAG_DELETED OR FLAG_STALE) = 0)"

definition find_node_of_hive ::
  "lsa_snapshot option \<Rightarrow> uuid \<Rightarrow> str \<Rightarrow> remote_node_info option" where
  "find_node_of_hive snapshot u hive =
     (case snapshot of
        None \<Rightarrow> None
      | Some s \<Rightarrow>
          (case hive_position (ls_hives s) hive of
             None \<Rightarrow> None
           | Some hive_index \<Rightarrow>
               map_option (\<lambda>n. \<lparr> ri_name = node_name n, ri_vpn_id = rn_vpn_id n, ri_hive_id = hive,
                                 ri_next_hop_hive = hive, ri_via_hub = False \<rparr>)
                 (find (\<lambda>n. rn_hive_index n = hive_index \<and> node_usable n \<and> rn_uuid n = u) (ls_nodes s))))"

definition uuid_listed_by_several_hives :: "lsa_snapshot \<Rightarrow> uuid \<Rightarrow> bool" where
  "uuid_listed_by_several_hives s u =
     (case map rn_hive_index (filter (\<lambda>n. rn_name_len n \<noteq> 0 \<and> rn_uuid n = u) (ls_nodes s)) of
        [] \<Rightarrow> False
      | first # rest \<Rightarrow> list_ex (\<lambda>i. i \<noteq> first) rest)"

text \<open>The index of a hive is kept in sixteen bits: \<^verbatim>\<open>idx as u16\<close>.  Of two hives with the same sixteen
  bits the later one stands, as inserting into the \<^verbatim>\<open>HashMap\<close> does.\<close>

definition usable_hives :: "remote_hive_entry list \<Rightarrow> (nat \<times> str) list" where
  "usable_hives hives =
     rev (map (\<lambda>(i, h). (i mod 65536, hive_name h)) (filter (\<lambda>(i, h). hive_usable h) (enumerate 0 hives)))"

definition find_remote_node :: "lsa_snapshot option \<Rightarrow> uuid \<Rightarrow> remote_node_info option" where
  "find_remote_node snapshot u =
     (case snapshot of
        None \<Rightarrow> None
      | Some s \<Rightarrow>
          if uuid_listed_by_several_hives s u then None
          else case find (\<lambda>n. node_usable n \<and> rn_uuid n = u) (ls_nodes s) of
            None \<Rightarrow> None
          | Some n \<Rightarrow>
              map_option (\<lambda>hive_id. \<lparr> ri_name = node_name n, ri_vpn_id = rn_vpn_id n,
                                      ri_hive_id = hive_id, ri_next_hop_hive = hive_id,
                                      ri_via_hub = False \<rparr>)
                (map_of (usable_hives (ls_hives s)) (rn_hive_index n)))"

definition find_reachable_node :: "reachability \<Rightarrow> uuid \<Rightarrow> remote_node_info option" where
  "find_reachable_node reachability u =
     map_option (\<lambda>e. \<lparr> ri_name = re_name e, ri_vpn_id = re_vpn_id e, ri_hive_id = re_origin_hive e,
                       ri_next_hop_hive = re_next_hop_hive e, ri_via_hub = True \<rparr>)
       (map_of reachability u)"

definition wan_frame_source ::
  "lsa_snapshot option \<Rightarrow> reachability \<Rightarrow> uuid \<Rightarrow> str \<Rightarrow> remote_node_info option" where
  "wan_frame_source snapshot reachability src_uuid peer_hive =
     (case find_node_of_hive snapshot src_uuid peer_hive of
        Some own \<Rightarrow> Some own
      | None \<Rightarrow>
          (case find_reachable_node reachability src_uuid of
             Some relayed \<Rightarrow> if ri_next_hop_hive relayed = peer_hive then Some relayed else None
           | None \<Rightarrow> None))"

definition lsa_listed_uuids :: "lsa_snapshot option \<Rightarrow> uuid set" where
  "lsa_listed_uuids snapshot =
     (case snapshot of
        None \<Rightarrow> {}
      | Some s \<Rightarrow> rn_uuid ` set (filter (\<lambda>n. rn_name_len n \<noteq> 0) (ls_nodes s)))"

definition lsa_tap_applies :: "lsa_snapshot \<Rightarrow> remote_tap_entry \<Rightarrow> str \<Rightarrow> str \<Rightarrow> bool" where
  "lsa_tap_applies s tap src_name dst_name =
     (if rp_hive_index tap \<ge> length (ls_hives s) then False
      else let hive = ls_hives s ! rp_hive_index tap in
        if rh_flags hive AND HIVE_FLAG_SELF \<noteq> 0 then True
        else let advertised_by = hive_name hive;
                 target = bytes_to_string (rp_target tap) (rp_target_len tap)
             in node_is_on_hive target advertised_by
                \<and> (node_is_on_hive src_name advertised_by \<or> node_is_on_hive dst_name advertised_by))"


section \<open>Lemmas\<close>

lemma find_Some_memberD: "find P xs = Some x \<Longrightarrow> x \<in> set xs \<and> P x"
  by (auto simp: find_Some_iff dest: nth_mem)

lemma all_same:
  assumes "\<not> (case xs of [] \<Rightarrow> False | first # rest \<Rightarrow> list_ex (\<lambda>i. i \<noteq> first) rest)"
    and "i \<in> set xs" "j \<in> set xs"
  shows "i = j"
  using assms by (cases xs) (simp, metis (mono_tags, lifting) list.simps(5) list_ex_iff set_ConsD)

lemma listed_once:
  assumes "\<not> uuid_listed_by_several_hives s u"
    and "n \<in> set (ls_nodes s)" "rn_name_len n \<noteq> 0" "rn_uuid n = u"
    and "n' \<in> set (ls_nodes s)" "rn_name_len n' \<noteq> 0" "rn_uuid n' = u"
  shows "rn_hive_index n = rn_hive_index n'"
proof -
  let ?is = "map rn_hive_index (filter (\<lambda>n. rn_name_len n \<noteq> 0 \<and> rn_uuid n = u) (ls_nodes s))"
  have "rn_hive_index n \<in> set ?is" "rn_hive_index n' \<in> set ?is" using assms by auto
  then show ?thesis
    using all_same [OF assms(1) [unfolded uuid_listed_by_several_hives_def]] by blast
qed

lemma usable_hivesD:
  assumes "map_of (usable_hives hives) i = Some name" "length hives \<le> 65536"
  shows "i < length hives \<and> hive_usable (hives ! i) \<and> hive_name (hives ! i) = name"
  using map_of_SomeD [OF assms(1)] assms(2)
  by (auto simp: usable_hives_def in_set_enumerate_eq)

lemma hive_positionD:
  "hive_position hives hive = Some i \<Longrightarrow>
   i < length hives \<and> hive_usable (hives ! i) \<and> hive_name (hives ! i) = hive"
  by (auto simp: hive_position_def in_set_enumerate_eq dest!: find_Some_memberD)

lemma find_node_of_hiveD:
  assumes "find_node_of_hive (Some s) u hive = Some info"
  shows "\<exists>n i. n \<in> set (ls_nodes s) \<and> rn_hive_index n = i \<and> i < length (ls_hives s) \<and>
    hive_usable (ls_hives s ! i) \<and> hive_name (ls_hives s ! i) = hive \<and> node_usable n \<and> rn_uuid n = u \<and>
    info = \<lparr> ri_name = node_name n, ri_vpn_id = rn_vpn_id n, ri_hive_id = hive,
             ri_next_hop_hive = hive, ri_via_hub = False \<rparr>"
  using assms
  by (auto simp: find_node_of_hive_def split: option.splits dest!: hive_positionD find_Some_memberD)

lemma wan_frame_source_bound:
  assumes "wan_frame_source snapshot reachability u peer_hive = Some info"
  shows "ri_next_hop_hive info = peer_hive \<and> (\<not> ri_via_hub info \<longrightarrow> ri_hive_id info = peer_hive)"
  using assms
  by (auto simp: wan_frame_source_def find_node_of_hive_def find_reachable_node_def
      split: option.splits if_splits)


section \<open>Properties\<close>

text \<open>C19: a contested UUID is never redirected.  When a UUID resolves to a remote node, every entry of
  the region that lists it, stale or deleted ones included, belongs to one and the same hive, which is
  neither this hive nor stale; and traffic for it goes to that hive.  So a hive that lists another
  hive's UUID cannot draw its traffic.\<close>

theorem find_remote_node_uncontested:
  assumes "find_remote_node (Some s) u = Some info" "length (ls_hives s) \<le> 65536"
  shows "\<exists>i < length (ls_hives s). hive_usable (ls_hives s ! i) \<and>
    ri_hive_id info = hive_name (ls_hives s ! i) \<and> ri_next_hop_hive info = ri_hive_id info \<and>
    \<not> ri_via_hub info \<and>
    (\<forall>n \<in> set (ls_nodes s). rn_name_len n \<noteq> 0 \<and> rn_uuid n = u \<longrightarrow> rn_hive_index n = i)"
proof -
  obtain n hive where once: "\<not> uuid_listed_by_several_hives s u"
    and n: "n \<in> set (ls_nodes s)" "node_usable n" "rn_uuid n = u"
    and hive: "map_of (usable_hives (ls_hives s)) (rn_hive_index n) = Some hive"
    and info: "info = \<lparr> ri_name = node_name n, ri_vpn_id = rn_vpn_id n, ri_hive_id = hive,
      ri_next_hop_hive = hive, ri_via_hub = False \<rparr>"
    using assms(1)
    by (auto simp: find_remote_node_def split: if_splits option.splits dest!: find_Some_memberD)
  have i: "rn_hive_index n < length (ls_hives s)" "hive_usable (ls_hives s ! rn_hive_index n)"
    "hive_name (ls_hives s ! rn_hive_index n) = hive"
    using usable_hivesD [OF hive assms(2)] by auto
  have "rn_hive_index n' = rn_hive_index n"
    if "n' \<in> set (ls_nodes s)" "rn_name_len n' \<noteq> 0 \<and> rn_uuid n' = u" for n'
    using listed_once [OF once that(1) conjunct1 [OF that(2)] conjunct2 [OF that(2)]] n
    by (simp add: node_usable_def)
  with i info show ?thesis by (intro exI [of _ "rn_hive_index n"]) simp
qed

definition demo_hive :: "str \<Rightarrow> flags \<Rightarrow> remote_hive_entry" where
  "demo_hive name flags =
     \<lparr> rh_hive_id = name, rh_hive_id_len = length name, rh_router_uuid = [], rh_router_name = [],
       rh_router_name_len = 0, rh_last_lsa_seq = 1, rh_last_updated = 0, rh_flags = flags,
       rh_node_count = 1, rh_route_count = 0, rh_vpn_count = 0, rh_tap_count = 0 \<rparr>"

definition demo_node :: "uuid \<Rightarrow> str \<Rightarrow> nat \<Rightarrow> remote_node_entry" where
  "demo_node u name i =
     \<lparr> rn_uuid = u, rn_name = name, rn_name_len = length name, rn_vpn_id = 0, rn_hive_index = i,
       rn_flags = FLAG_ACTIVE \<rparr>"

definition demo_snapshot :: lsa_snapshot where
  "demo_snapshot =
     \<lparr> ls_hives = [demo_hive ''m'' (FLAG_ACTIVE OR HIVE_FLAG_SELF), demo_hive ''w1'' 0, demo_hive ''w2'' 0],
       ls_nodes = [demo_node ''u1'' ''AI.a@w1'' 1, demo_node ''u2'' ''AI.b@w1'' 1, demo_node ''u2'' ''AI.b@w2'' 2],
       ls_routes = [], ls_vpns = [], ls_taps = [] \<rparr>"

lemmas demo_eval = demo_snapshot_def demo_hive_def demo_node_def hive_usable_def node_usable_def
  usable_hives_def hive_position_def FLAG_ACTIVE_def FLAG_DELETED_def FLAG_STALE_def HIVE_FLAG_SELF_def

theorem find_remote_node_uncontested_witness:
  "find_remote_node (Some demo_snapshot) ''u2'' = None \<and>
   (\<exists>info. find_remote_node (Some demo_snapshot) ''u1'' = Some info \<and> ri_hive_id info \<in> {''m'', ''w1'', ''w2''})"
proof (intro conjI)
  show "find_remote_node (Some demo_snapshot) ''u2'' = None" by code_simp
  have "find_remote_node (Some demo_snapshot) ''u1'' \<noteq> None"
    by (simp add: find_remote_node_def uuid_listed_by_several_hives_def demo_eval)
  then obtain info where info: "find_remote_node (Some demo_snapshot) ''u1'' = Some info" by blast
  from find_remote_node_uncontested [OF this]
  obtain i where "i < length (ls_hives demo_snapshot)" "ri_hive_id info = hive_name (ls_hives demo_snapshot ! i)"
    by (auto simp: demo_snapshot_def)
  moreover have "hive_name (demo_hive name f) = name" if "utf8_valid name" for name f
    using that by (simp add: hive_name_def demo_hive_def bytes_to_string_def from_utf8_or_empty_def)
  then have "hive_name ` set (ls_hives demo_snapshot) = {''m'', ''w1'', ''w2''}"
    by (simp add: demo_snapshot_def utf8_valid_def)
  ultimately show "\<exists>info. find_remote_node (Some demo_snapshot) ''u1'' = Some info \<and>
      ri_hive_id info \<in> {''m'', ''w1'', ''w2''}"
    using info by (metis image_eqI nth_mem)
qed

text \<open>C18: a WAN peer speaks only for its own nodes, or as the hub for those it vouches for.  The sender a
  frame resolves to is bound to the session it came from: its next hop is that peer, its hive is
  that peer's unless the peer vouches for it, and then it is marked as learned through the hub.  The
  name the router stamps ends in the hive it was found in.\<close>

theorem wan_source_bound_to_session:
  assumes "wan_frame_source snapshot reachability u peer_hive = Some info"
  shows "ri_next_hop_hive info = peer_hive \<and>
    (if ri_via_hub info
     then \<exists>e. map_of reachability u = Some e \<and> re_next_hop_hive e = peer_hive \<and>
            extract_hive (canonical_wan_src_name (ri_name info) (ri_hive_id info)) = Some (re_origin_hive e)
     else extract_hive (canonical_wan_src_name (ri_name info) (ri_hive_id info)) = Some peer_hive \<and>
       (\<exists>s n. snapshot = Some s \<and> n \<in> set (ls_nodes s) \<and> rn_uuid n = u \<and> node_usable n \<and>
          rn_hive_index n < length (ls_hives s) \<and>
          hive_name (ls_hives s ! rn_hive_index n) = peer_hive))"
proof (cases "find_node_of_hive snapshot u peer_hive")
  case (Some own)
  then obtain s where s: "snapshot = Some s" by (auto simp: find_node_of_hive_def split: option.splits)
  with Some find_node_of_hiveD [of s u peer_hive own] assms show ?thesis
    by (auto simp: wan_frame_source_def)
next
  case None
  with assms show ?thesis
    by (auto simp: wan_frame_source_def find_reachable_node_def split: option.splits if_splits)
qed

theorem wan_source_bound_to_session_witness:
  "wan_frame_source (Some demo_snapshot) [] ''u1'' ''w2'' = None \<and>
   (\<exists>info. wan_frame_source (Some demo_snapshot) [] ''u1'' ''w1'' = Some info \<and> ri_next_hop_hive info = ''w1'')"
proof (intro conjI)
  show "wan_frame_source (Some demo_snapshot) [] ''u1'' ''w2'' = None" by code_simp
  have "wan_frame_source (Some demo_snapshot) [] ''u1'' ''w1'' \<noteq> None" by code_simp
  then obtain info where info: "wan_frame_source (Some demo_snapshot) [] ''u1'' ''w1'' = Some info" by blast
  with wan_source_bound_to_session [OF info] show
    "\<exists>info. wan_frame_source (Some demo_snapshot) [] ''u1'' ''w1'' = Some info \<and> ri_next_hop_hive info = ''w1''"
    by blast
qed

end
