(* ===== verification/Fib.thy ===== *)
theory Fib
  imports Lsa_Region
begin

text \<open>
  The forwarding table of a router (\<^verbatim>\<open>src/src/router/mod.rs\<close>): how it is built and ordered from the
  local nodes, the sibling routers' nodes, the static routes, the LSA region and the hub-vouched
  nodes, how a name is resolved against it, and which VPN a node is assigned.  The order is a stable
  sort, as \<^verbatim>\<open>sort_by\<close> is; a larger specificity comes first, so it enters the key negated.
\<close>

section \<open>Data\<close>

definition ADMIN_DISTANCE_LOCAL :: nat where "ADMIN_DISTANCE_LOCAL = 0"
definition ADMIN_DISTANCE_STATIC :: nat where "ADMIN_DISTANCE_STATIC = 1"
definition ADMIN_DISTANCE_LSA :: nat where "ADMIN_DISTANCE_LSA = 2"
definition ADMIN_DISTANCE_REACHABILITY :: nat where "ADMIN_DISTANCE_REACHABILITY = 3"

text \<open>\<^verbatim>\<open>NodeHandle\<close> without its channel: the channel of a node's connection is named by its UUID.\<close>

record node_handle =
  nh_name :: str
  nh_vpn_id :: nat
  nh_connected_at :: nat

record peer_node =
  pn_uuid :: uuid
  pn_name :: str
  pn_vpn_id :: nat
  pn_router_uuid :: uuid

record static_route =
  sr_pattern :: str
  sr_match_kind :: nat
  sr_action :: nat
  sr_next_hop_hive :: str
  sr_priority :: nat
  sr_metric :: nat
  sr_installed_at :: nat

datatype fib_source = LocalNode | PeerNode | StaticRoute | LsaNode | LsaRoute str | ReachableNode

datatype fib_next_hop = HopLocal uuid | HopRouter uuid | HopHive str

record fib_entry =
  fe_pattern :: str
  fe_match_kind :: nat
  fe_vpn_id :: nat
  fe_source :: fib_source
  fe_next_hop :: "fib_next_hop option"
  fe_admin_distance :: nat
  fe_priority :: nat
  fe_metric :: nat
  fe_installed_at :: nat
  fe_action :: nat

datatype resolved_route =
  RouteDrop | RouteUnreachable str | RouteDeliver uuid | RouteRouter uuid | RouteHive str

type_synonym nodes = "(uuid \<times> node_handle) list"
type_synonym peer_nodes = "(uuid \<times> peer_node) list"


section \<open>Building the table\<close>

definition local_entry :: "uuid \<times> node_handle \<Rightarrow> fib_entry" where
  "local_entry un =
     \<lparr> fe_pattern = nh_name (snd un), fe_match_kind = MATCH_EXACT, fe_vpn_id = nh_vpn_id (snd un),
       fe_source = LocalNode, fe_next_hop = Some (HopLocal (fst un)),
       fe_admin_distance = ADMIN_DISTANCE_LOCAL, fe_priority = 0, fe_metric = 0,
       fe_installed_at = nh_connected_at (snd un), fe_action = ACTION_FORWARD \<rparr>"

definition peer_entry :: "uuid \<times> peer_node \<Rightarrow> fib_entry" where
  "peer_entry un =
     \<lparr> fe_pattern = pn_name (snd un), fe_match_kind = MATCH_EXACT, fe_vpn_id = pn_vpn_id (snd un),
       fe_source = PeerNode, fe_next_hop = Some (HopRouter (pn_router_uuid (snd un))),
       fe_admin_distance = ADMIN_DISTANCE_LOCAL, fe_priority = 0, fe_metric = 0,
       fe_installed_at = 0, fe_action = ACTION_FORWARD \<rparr>"

definition static_entry :: "static_route \<Rightarrow> fib_entry" where
  "static_entry r =
     \<lparr> fe_pattern = sr_pattern r, fe_match_kind = sr_match_kind r, fe_vpn_id = 0,
       fe_source = StaticRoute,
       fe_next_hop = (if sr_next_hop_hive r = [] then None else Some (HopHive (sr_next_hop_hive r))),
       fe_admin_distance = ADMIN_DISTANCE_STATIC, fe_priority = sr_priority r, fe_metric = sr_metric r,
       fe_installed_at = sr_installed_at r, fe_action = sr_action r \<rparr>"

text \<open>The usable hives of the region, each with its sixteen-bit index; the first of an index is found.\<close>

definition fib_hives :: "remote_hive_entry list \<Rightarrow> (nat \<times> str \<times> nat) list" where
  "fib_hives hives =
     map (\<lambda>(i, h). (i mod 65536, hive_name h, rh_last_updated h))
       (filter (\<lambda>(i, h). hive_usable h) (enumerate 0 hives))"

definition lsa_node_entries :: "lsa_snapshot \<Rightarrow> fib_entry list" where
  "lsa_node_entries s =
     List.map_filter (\<lambda>n.
       if \<not> node_usable n then None
       else map_option (\<lambda>(hive_id, updated_at).
              \<lparr> fe_pattern = node_name n, fe_match_kind = MATCH_EXACT, fe_vpn_id = rn_vpn_id n,
                fe_source = LsaNode, fe_next_hop = Some (HopHive hive_id),
                fe_admin_distance = ADMIN_DISTANCE_LSA, fe_priority = 0, fe_metric = 0,
                fe_installed_at = updated_at, fe_action = ACTION_FORWARD \<rparr>)
            (map_of (fib_hives (ls_hives s)) (rn_hive_index n))) (ls_nodes s)"

definition lsa_route_entry :: "remote_route_entry \<Rightarrow> str \<times> nat \<Rightarrow> fib_entry" where
  "lsa_route_entry r hive =
     (let (hive_id, updated_at) = hive;
          hop = bytes_to_string (rr_next_hop_hive r) (rr_next_hop_hive_len r);
          hop = (if hop = [] then hive_id else hop)
      in \<lparr> fe_pattern = bytes_to_string (rr_prefix r) (rr_prefix_len r),
           fe_match_kind = rr_match_kind r, fe_vpn_id = 0, fe_source = LsaRoute hive_id,
           fe_next_hop = (if hop = [] then None else Some (HopHive hop)),
           fe_admin_distance = ADMIN_DISTANCE_LSA, fe_priority = rr_priority r,
           fe_metric = rr_metric r, fe_installed_at = updated_at, fe_action = rr_action r \<rparr>)"

definition lsa_route_entries :: "lsa_snapshot \<Rightarrow> fib_entry list" where
  "lsa_route_entries s =
     List.map_filter (\<lambda>r.
       if rr_prefix_len r = 0 \<or> rr_flags r AND (FLAG_DELETED OR FLAG_STALE) \<noteq> 0 then None
       else map_option (lsa_route_entry r) (map_of (fib_hives (ls_hives s)) (rr_hive_index r)))
     (ls_routes s)"

definition reachable_entry :: "uuid \<times> reachability_entry \<Rightarrow> fib_entry" where
  "reachable_entry ue =
     \<lparr> fe_pattern = re_name (snd ue), fe_match_kind = MATCH_EXACT, fe_vpn_id = re_vpn_id (snd ue),
       fe_source = ReachableNode, fe_next_hop = Some (HopHive (re_next_hop_hive (snd ue))),
       fe_admin_distance = ADMIN_DISTANCE_REACHABILITY, fe_priority = 0, fe_metric = 0,
       fe_installed_at = re_last_updated (snd ue), fe_action = ACTION_FORWARD \<rparr>"

text \<open>\<^verbatim>\<open>chars()\<close> of a string that are not an asterisk: its bytes but the continuation bytes.\<close>

definition non_star_chars :: "str \<Rightarrow> nat" where
  "non_star_chars p = length (filter (\<lambda>c. c \<noteq> asterisk \<and> \<not> is_continuation c) p)"

definition fib_specificity :: "fib_entry \<Rightarrow> nat \<times> nat" where
  "fib_specificity e =
     (if fe_match_kind e = MATCH_EXACT then (length (fe_pattern e), 3)
      else if fe_match_kind e = MATCH_PREFIX
        then (length (trim_end_matches (fe_pattern e) ''.*''), 2)
      else if fe_match_kind e = MATCH_GLOB then (non_star_chars (fe_pattern e), 1)
      else (0, 0))"

definition fib_key :: "fib_entry \<Rightarrow> int \<times> int \<times> nat \<times> nat \<times> nat \<times> nat" where
  "fib_key e =
     (- int (fst (fib_specificity e)), - int (snd (fib_specificity e)), fe_admin_distance e,
      fe_priority e, fe_metric e, fe_installed_at e)"

definition fib_entries ::
  "nodes \<Rightarrow> peer_nodes \<Rightarrow> static_route list \<Rightarrow> lsa_snapshot option \<Rightarrow> reachability \<Rightarrow> fib_entry list" where
  "fib_entries nodes peer_nodes static_routes snapshot reachability =
     map local_entry nodes @ map peer_entry peer_nodes @ map static_entry static_routes
     @ (case snapshot of Some s \<Rightarrow> lsa_node_entries s @ lsa_route_entries s | None \<Rightarrow> [])
     @ map reachable_entry reachability"

definition rebuild_fib ::
  "nodes \<Rightarrow> peer_nodes \<Rightarrow> static_route list \<Rightarrow> lsa_snapshot option \<Rightarrow> reachability \<Rightarrow> fib_entry list" where
  "rebuild_fib nodes peer_nodes static_routes snapshot reachability =
     sort_key fib_key (fib_entries nodes peer_nodes static_routes snapshot reachability)"


section \<open>Resolving a name\<close>

definition route_action :: "fib_entry \<Rightarrow> resolved_route option" where
  "route_action e =
     (if fe_action e = ACTION_DROP then Some RouteDrop
      else if fe_action e = ACTION_FORWARD then
        (case fe_next_hop e of Some (HopHive hive) \<Rightarrow> Some (RouteHive hive) | _ \<Rightarrow> None)
      else None)"

definition gated ::
  "meta \<Rightarrow> node_handle \<Rightarrow> str \<Rightarrow> nat \<Rightarrow> resolved_route \<Rightarrow> resolved_route" where
  "gated meta src dst_name dst_vpn route =
     (if vpn_allows_between meta (nh_name src) (nh_vpn_id src) dst_name dst_vpn then route
      else RouteUnreachable ''VPN_BLOCKED'')"

text \<open>What a matching entry gives; \<^verbatim>\<open>None\<close> passes on to the next entry.\<close>

definition entry_route ::
  "str \<Rightarrow> node_handle \<Rightarrow> nodes \<Rightarrow> meta \<Rightarrow> fib_entry \<Rightarrow> resolved_route option" where
  "entry_route target src nodes meta e =
     (case fe_source e of
        StaticRoute \<Rightarrow> route_action e
      | LsaRoute advertised_by \<Rightarrow>
          if lsa_route_applies advertised_by target then route_action e else None
      | LocalNode \<Rightarrow>
          (case fe_next_hop e of
             Some (HopLocal dst_uuid) \<Rightarrow>
               (case map_of nodes dst_uuid of
                  Some dst \<Rightarrow> Some (gated meta src (nh_name dst) (nh_vpn_id dst) (RouteDeliver dst_uuid))
                | None \<Rightarrow> None)
           | _ \<Rightarrow> None)
      | PeerNode \<Rightarrow>
          (case fe_next_hop e of
             Some (HopRouter peer_uuid) \<Rightarrow>
               Some (gated meta src (fe_pattern e) (fe_vpn_id e) (RouteRouter peer_uuid))
           | _ \<Rightarrow> None)
      | _ \<Rightarrow>
          (case fe_next_hop e of
             Some (HopHive hive) \<Rightarrow>
               Some (gated meta src (fe_pattern e) (fe_vpn_id e) (RouteHive hive))
           | _ \<Rightarrow> None))"

fun first_route :: "(fib_entry \<Rightarrow> bool) \<Rightarrow> (fib_entry \<Rightarrow> resolved_route option) \<Rightarrow> fib_entry list \<Rightarrow>
    resolved_route" where
  "first_route matches route [] = RouteUnreachable ''NODE_NOT_FOUND''"
| "first_route matches route (e # es) =
     (if matches e then
        (case route e of Some r \<Rightarrow> r | None \<Rightarrow> first_route matches route es)
      else first_route matches route es)"

definition resolve_by_name_inner ::
  "str \<Rightarrow> node_handle \<Rightarrow> nodes \<Rightarrow> fib_entry list \<Rightarrow> meta \<Rightarrow> resolved_route" where
  "resolve_by_name_inner target src nodes fib meta =
     first_route (\<lambda>e. pattern_match_kind (fe_match_kind e) (fe_pattern e) target)
       (entry_route target src nodes meta) fib"

definition any_hive_matches :: "str \<Rightarrow> str \<Rightarrow> fib_entry \<Rightarrow> bool" where
  "any_hive_matches base target e =
     (case fe_source e of
        StaticRoute \<Rightarrow> pattern_match_kind (fe_match_kind e) (fe_pattern e) target
      | LsaRoute _ \<Rightarrow> pattern_match_kind (fe_match_kind e) (fe_pattern e) target
      | _ \<Rightarrow> match_any_hive base (fe_pattern e))"

definition resolve_by_name_any_hive ::
  "str \<Rightarrow> node_handle \<Rightarrow> nodes \<Rightarrow> fib_entry list \<Rightarrow> meta \<Rightarrow> resolved_route" where
  "resolve_by_name_any_hive base src nodes fib meta =
     (let target = base @ ''@*''
      in first_route (any_hive_matches base target) (entry_route target src nodes meta) fib)"

definition strip_suffix :: "str \<Rightarrow> str \<Rightarrow> str option" where
  "strip_suffix s suf = (if ends_with s suf then Some (take (length s - length suf) s) else None)"

definition resolve_by_name ::
  "str \<Rightarrow> node_handle \<Rightarrow> nodes \<Rightarrow> fib_entry list \<Rightarrow> meta \<Rightarrow> resolved_route" where
  "resolve_by_name target src nodes fib meta =
     (case strip_suffix target ''@*'' of
        None \<Rightarrow> resolve_by_name_inner target src nodes fib meta
      | Some base \<Rightarrow>
          (case extract_hive (nh_name src) of
             None \<Rightarrow> resolve_by_name_any_hive base src nodes fib meta
           | Some src_hive \<Rightarrow>
               (let r = resolve_by_name_inner (base @ at_sign # src_hive) src nodes fib meta
                in if r \<noteq> RouteUnreachable ''NODE_NOT_FOUND'' then r
                   else resolve_by_name_any_hive base src nodes fib meta)))"


section \<open>VPN assignment\<close>

record vpn_assignment =
  va_pattern :: bytes
  va_pattern_len :: nat
  va_match_kind :: nat
  va_vpn_id :: nat
  va_priority :: nat
  va_flags :: flags

definition vpn_pattern :: "vpn_assignment \<Rightarrow> str" where
  "vpn_pattern v = bytes_to_string (va_pattern v) (va_pattern_len v)"

definition rule_active :: "flags \<Rightarrow> bool" where
  "rule_active fl = (fl = 0 \<or> fl AND FLAG_ACTIVE \<noteq> 0)"

text \<open>\<^verbatim>\<open>None\<close>: there is no configuration snapshot.\<close>

definition assign_vpn :: "str \<Rightarrow> vpn_assignment list option \<Rightarrow> nat" where
  "assign_vpn name vpns =
     (if starts_with name ''SY.'' \<or> starts_with name ''RT.'' then 0
      else case vpns of
        None \<Rightarrow> 0
      | Some vs \<Rightarrow>
          (case find (\<lambda>v. pattern_match_kind (va_match_kind v) (vpn_pattern v) name)
                  (sort_key va_priority (filter (\<lambda>v. rule_active (va_flags v)) vs)) of
             Some v \<Rightarrow> va_vpn_id v
           | None \<Rightarrow> 0))"

text \<open>\<^verbatim>\<open>reassign_vpns\<close>: the nodes' table after a new configuration; the region's entries follow it.\<close>

definition reassign_vpns :: "vpn_assignment list \<Rightarrow> nodes \<Rightarrow> nodes" where
  "reassign_vpns vpns nodes =
     map (\<lambda>(u, h). (u, h \<lparr> nh_vpn_id := assign_vpn (nh_name h) (Some vpns) \<rparr>)) nodes"

section \<open>A match is at most as specific as its target is long\<close>

definition literals :: "str \<Rightarrow> nat" where
  "literals p = length (filter (\<lambda>c. c \<noteq> asterisk) p)"

lemma literals_take_Suc:
  "i < length p \<Longrightarrow> literals (take (Suc i) p) = literals (take i p) + (if p ! i = asterisk then 0 else 1)"
  by (simp add: take_Suc_conv_app_nth literals_def)

lemma wildcard_loop_consumes:
  "wildcard_loop pat tx pi ti star m = Some r \<Longrightarrow>
   literals (take pi pat) \<le> ti \<and> ti \<le> length tx \<and>
     (\<forall>s. star = Some s \<longrightarrow> m \<le> ti \<and> literals (take (s + 1) pat) \<le> m) \<longrightarrow>
   (\<forall>j. r = Some j \<longrightarrow> literals (take j pat) \<le> length tx)"
proof (induction rule: wildcard_loop.raw_induct [rotated, consumes 1, case_names step])
  case (step loop pat tx pi ti star m r)
  show ?case
  proof (rule impI)
    assume inv: "literals (take pi pat) \<le> ti \<and> ti \<le> length tx \<and>
      (\<forall>s. star = Some s \<longrightarrow> m \<le> ti \<and> literals (take (s + 1) pat) \<le> m)"
    note body = step(2)
    show "\<forall>j. r = Some j \<longrightarrow> literals (take j pat) \<le> length tx"
    proof (cases "ti < length tx")
      case False
      then show ?thesis using body inv by auto
    next
      case ti: True
      consider (lit) "pi < length pat" "pat ! pi = tx ! ti"
        | (star) "\<not> (pi < length pat \<and> pat ! pi = tx ! ti)" "pi < length pat" "pat ! pi = asterisk"
        | (stuck) "\<not> (pi < length pat \<and> pat ! pi = tx ! ti)" "\<not> (pi < length pat \<and> pat ! pi = asterisk)"
        by blast
      then show ?thesis
      proof cases
        case lit
        with body ti have "loop pat tx (pi + 1) (ti + 1) star m = Some r" by simp
        from step(1) [OF this] lit inv ti show ?thesis by (auto simp: literals_take_Suc)
      next
        case star
        with body ti have "loop pat tx (pi + 1) ti (Some pi) ti = Some r" by auto
        from step(1) [OF this] star inv ti show ?thesis by (auto simp: literals_take_Suc)
      next
        case stuck
        show ?thesis
        proof (cases star)
          case None
          with stuck body ti show ?thesis by auto
        next
          case (Some s)
          with stuck body ti have "loop pat tx (s + 1) (m + 1) star (m + 1) = Some r" by auto
          from step(1) [OF this] Some inv ti show ?thesis by auto
        qed
      qed
    qed
  qed
qed

lemma wildcard_match_literals:
  assumes "wildcard_match pat tx"
  shows "literals pat \<le> length tx"
proof -
  obtain j where j: "wildcard_loop pat tx 0 0 None 0 = Some (Some j)"
    and rest: "dropWhile (\<lambda>c. c = asterisk) (drop j pat) = []"
    using assms by (auto simp: wildcard_match_def split: option.splits)
  have "literals (take j pat) \<le> length tx"
    using wildcard_loop_consumes [OF j] by (simp add: literals_def)
  moreover have "literals (drop j pat) = 0"
    using rest by (auto simp: literals_def dropWhile_eq_Nil_conv filter_empty_conv)
  moreover have "literals pat = literals (take j pat) + literals (drop j pat)"
    by (metis append_take_drop_id filter_append length_append literals_def)
  ultimately show ?thesis by simp
qed

lemma non_star_literals: "non_star_chars p \<le> literals p"
  by (induction p) (auto simp: non_star_chars_def literals_def)

lemma match_specificity:
  assumes "pattern_match_kind (fe_match_kind e) (fe_pattern e) target"
  shows "fst (fib_specificity e) \<le> length target" "snd (fib_specificity e) \<le> 3"
    "snd (fib_specificity e) = 3 \<Longrightarrow> fe_match_kind e = MATCH_EXACT \<and> fe_pattern e = target"
proof -
  have "non_star_chars (fe_pattern e) \<le> literals (fe_pattern e)" by (rule non_star_literals)
  then have "non_star_chars (fe_pattern e) \<le> length target"
    if "wildcard_match (fe_pattern e) target"
    using wildcard_match_literals [OF that] by linarith
  then show "fst (fib_specificity e) \<le> length target"
    using assms
    by (auto simp: fib_specificity_def pattern_match_kind_def starts_with_def split: if_splits
        dest: prefix_length_le)
  show "snd (fib_specificity e) \<le> 3"
    by (simp add: fib_specificity_def)
  show "snd (fib_specificity e) = 3 \<Longrightarrow> fe_match_kind e = MATCH_EXACT \<and> fe_pattern e = target"
    using assms by (auto simp: fib_specificity_def pattern_match_kind_def split: if_splits)
qed

section \<open>Resolution over an ordered table\<close>

lemma first_route_before:
  assumes "sorted (map key es)" "e0 \<in> set es" "matches e0" "route e0 \<noteq> None"
  shows "\<exists>e \<in> set es. matches e \<and> route e = Some (first_route matches route es) \<and> key e \<le> key e0"
  using assms(1,2)
proof (induction es)
  case (Cons e es)
  show ?case
  proof (cases "matches e \<and> route e \<noteq> None")
    case True
    with Cons.prems show ?thesis by (intro bexI [of _ e]) auto
  next
    case False
    then have "e \<noteq> e0" using assms(3,4) by blast
    with Cons False show ?thesis by (fastforce split: option.splits)
  qed
qed simp

lemma first_route_filter:
  assumes "\<forall>e \<in> set es. \<not> P e \<longrightarrow> \<not> matches e \<or> route e = None"
  shows "first_route matches route (filter P es) = first_route matches route es"
  using assms by (induction es) (auto split: option.splits)

lemma fib_entries_distance_0:
  assumes "e \<in> set (fib_entries nodes peer_nodes static_routes snapshot reachability)"
    and "fe_admin_distance e = 0"
  shows "(\<exists>x \<in> set nodes. e = local_entry x) \<or> (\<exists>x \<in> set peer_nodes. e = peer_entry x)"
  using assms
  by (auto simp: fib_entries_def static_entry_def reachable_entry_def lsa_node_entries_def
      lsa_route_entries_def lsa_route_entry_def Let_def map_filter_def ADMIN_DISTANCE_STATIC_def
      ADMIN_DISTANCE_LSA_def ADMIN_DISTANCE_REACHABILITY_def split: option.splits if_splits)

lemma not_any_hive: "\<not> ends_with target ''@*'' \<Longrightarrow>
  resolve_by_name target src nodes fib meta = resolve_by_name_inner target src nodes fib meta"
  by (simp add: resolve_by_name_def strip_suffix_def)

lemma exact_key_first:
  assumes "pattern_match_kind (fe_match_kind e) (fe_pattern e) target"
    and "fib_key e \<le> fib_key e0" "fib_specificity e0 = (length target, 3)" "fe_admin_distance e0 = 0"
  shows "fe_match_kind e = MATCH_EXACT \<and> fe_pattern e = target \<and> fe_admin_distance e = 0"
proof -
  note spec = match_specificity [OF assms(1)]
  have 1: "fst (fib_specificity e) = length target"
    using assms(2,3) spec(1) by (auto simp: fib_key_def less_eq_prod_def)
  then have 2: "snd (fib_specificity e) = 3"
    using assms(2,3) spec(2) by (auto simp: fib_key_def less_eq_prod_def)
  then show ?thesis using assms(2-4) spec(3) 1 by (auto simp: fib_key_def less_eq_prod_def)
qed


section \<open>One hive's share of the table\<close>

definition of_hive :: "str \<Rightarrow> lsa_snapshot \<Rightarrow> nat \<Rightarrow> bool" where
  "of_hive g s i = (\<exists>updated. map_of (fib_hives (ls_hives s)) i = Some (g, updated))"

definition without_hive :: "str \<Rightarrow> lsa_snapshot \<Rightarrow> lsa_snapshot" where
  "without_hive g s =
     s \<lparr> ls_nodes := filter (\<lambda>n. \<not> of_hive g s (rn_hive_index n)) (ls_nodes s),
         ls_routes := filter (\<lambda>r. \<not> of_hive g s (rr_hive_index r)) (ls_routes s) \<rparr>"

lemma without_hive_sel:
  "ls_hives (without_hive g s) = ls_hives s"
  "ls_nodes (without_hive g s) = filter (\<lambda>n. \<not> of_hive g s (rn_hive_index n)) (ls_nodes s)"
  "ls_routes (without_hive g s) = filter (\<lambda>r. \<not> of_hive g s (rr_hive_index r)) (ls_routes s)"
  by (simp_all add: without_hive_def)

definition not_from :: "str \<Rightarrow> fib_entry \<Rightarrow> bool" where
  "not_from g e =
     (case fe_source e of
        LsaNode \<Rightarrow> fe_next_hop e \<noteq> Some (HopHive g)
      | LsaRoute advertised_by \<Rightarrow> advertised_by \<noteq> g
      | _ \<Rightarrow> True)"

lemma map_filter_filter:
  "(\<And>x y. x \<in> set xs \<Longrightarrow> f x = Some y \<Longrightarrow> P y = Q x) \<Longrightarrow>
   filter P (List.map_filter f xs) = List.map_filter f (filter Q xs)"
  by (induction xs) (auto simp: List.map_filter_simps split: option.splits)

lemma entries_without_hive:
  "fib_entries nodes peer_nodes static_routes (Some (without_hive g s)) reachability =
   filter (not_from g) (fib_entries nodes peer_nodes static_routes (Some s) reachability)"
proof -
  have "lsa_node_entries (without_hive g s) = filter (not_from g) (lsa_node_entries s)"
    unfolding lsa_node_entries_def without_hive_sel
    by (subst map_filter_filter [where Q = "\<lambda>n. \<not> of_hive g s (rn_hive_index n)"])
       (auto simp: not_from_def of_hive_def split: if_splits)
  moreover have "lsa_route_entries (without_hive g s) = filter (not_from g) (lsa_route_entries s)"
    unfolding lsa_route_entries_def without_hive_sel
    by (subst map_filter_filter [where Q = "\<lambda>r. \<not> of_hive g s (rr_hive_index r)"])
       (auto simp: not_from_def of_hive_def lsa_route_entry_def Let_def split: if_splits)
  moreover have "not_from g (local_entry x)" "not_from g (peer_entry y)" "not_from g (static_entry z)"
    "not_from g (reachable_entry w)" for x y z w
    by (simp_all add: not_from_def local_entry_def peer_entry_def static_entry_def reachable_entry_def)
  ultimately show ?thesis by (simp add: fib_entries_def filter_map comp_def)
qed

lemma lsa_node_entryD:
  assumes "e \<in> set (fib_entries nodes peer_nodes static_routes (Some s) reachability)"
    and "fe_source e = LsaNode" "fe_next_hop e = Some (HopHive g)"
  shows "fe_match_kind e = MATCH_EXACT \<and>
    (\<exists>n \<in> set (ls_nodes s). node_usable n \<and> of_hive g s (rn_hive_index n) \<and> fe_pattern e = node_name n)"
  using assms
  by (auto simp: fib_entries_def local_entry_def peer_entry_def static_entry_def reachable_entry_def
      lsa_node_entries_def lsa_route_entries_def lsa_route_entry_def Let_def map_filter_def of_hive_def
      split: option.splits if_splits)

text \<open>What a hive advertised matters only to the names it lists and to the names on it.\<close>

lemma resolve_without_hive:
  assumes "\<forall>n \<in> set (ls_nodes s). node_usable n \<and> of_hive g s (rn_hive_index n) \<longrightarrow> node_name n \<noteq> target"
    and "\<not> node_is_on_hive target g" "\<not> ends_with target ''@*''"
  shows "resolve_by_name target src nodes
      (rebuild_fib nodes peer_nodes static_routes (Some s) reachability) meta =
    resolve_by_name target src nodes
      (rebuild_fib nodes peer_nodes static_routes (Some (without_hive g s)) reachability) meta"
proof -
  let ?es = "fib_entries nodes peer_nodes static_routes (Some s) reachability"
  let ?matches = "\<lambda>e. pattern_match_kind (fe_match_kind e) (fe_pattern e) target"
  let ?route = "entry_route target src nodes meta"
  have "\<not> ?matches e \<or> ?route e = None" if "e \<in> set ?es" "\<not> not_from g e" for e
  proof (cases "fe_source e")
    case LsaNode
    with that lsa_node_entryD [OF that(1)] assms(1,2) show ?thesis
      by (auto simp: not_from_def pattern_match_kind_def)
  qed (use that assms(2,3) in \<open>auto simp: not_from_def entry_route_def lsa_route_applies_def\<close>)
  then have "first_route ?matches ?route (filter (not_from g) (sort_key fib_key ?es)) =
      first_route ?matches ?route (sort_key fib_key ?es)"
    by (intro first_route_filter) auto
  then show ?thesis
    using assms(3) by (simp add: not_any_hive resolve_by_name_inner_def rebuild_fib_def
        entries_without_hive filter_sort)
qed

lemma find_sorted:
  assumes "sorted (map key xs)" "find P xs = Some x" "y \<in> set xs" "P y"
  shows "key x \<le> key y"
  using assms by (induction xs) (auto split: if_splits)


section \<open>Properties\<close>

text \<open>C17: nothing takes a local name.  When a node of this router has the name a message is addressed to,
  the name resolves to a node of this hive with that very name, here or at a sibling router, or is
  blocked by the VPN gate: no static route, no route or node another hive advertises and no hub vouch,
  whatever its pattern, priority or metric, redirects or drops it.\<close>

theorem local_name_not_redirected:
  assumes "(u, h) \<in> set nodes" "nh_name h = target" "distinct (map fst nodes)"
    and "\<not> ends_with target ''@*''"
  shows "let r = resolve_by_name target src nodes
      (rebuild_fib nodes peer_nodes static_routes snapshot reachability) meta
    in (\<exists>(u', h') \<in> set nodes. nh_name h' = target \<and>
      r = gated meta src target (nh_vpn_id h') (RouteDeliver u')) \<or>
    (\<exists>(u', p) \<in> set peer_nodes. pn_name p = target \<and>
      r = gated meta src target (pn_vpn_id p) (RouteRouter (pn_router_uuid p)))"
proof -
  let ?fib = "rebuild_fib nodes peer_nodes static_routes snapshot reachability"
  let ?matches = "\<lambda>e. pattern_match_kind (fe_match_kind e) (fe_pattern e) target"
  let ?route = "entry_route target src nodes meta"
  let ?e0 = "local_entry (u, h)"
  have uh: "map_of nodes u' = Some h'" if "(u', h') \<in> set nodes" for u' h'
    using assms(3) that by simp
  have "?e0 \<in> set ?fib" using assms(1) by (simp add: rebuild_fib_def fib_entries_def)
  moreover have "?matches ?e0" using assms(2) by (simp add: local_entry_def pattern_match_kind_def)
  moreover have "?route ?e0 \<noteq> None" using uh [OF assms(1)] by (simp add: local_entry_def entry_route_def)
  moreover have "sorted (map fib_key ?fib)" by (simp add: rebuild_fib_def)
  ultimately obtain e where e: "e \<in> set ?fib" "?matches e" "fib_key e \<le> fib_key ?e0"
    and r: "?route e = Some (first_route ?matches ?route ?fib)"
    using first_route_before [of fib_key ?fib ?e0 ?matches ?route] by blast
  have "fe_match_kind e = MATCH_EXACT \<and> fe_pattern e = target \<and> fe_admin_distance e = 0"
    using e(2,3) by (rule exact_key_first)
      (use assms(2) in \<open>simp_all add: local_entry_def fib_specificity_def ADMIN_DISTANCE_LOCAL_def\<close>)
  moreover from this have "(\<exists>x \<in> set nodes. e = local_entry x) \<or> (\<exists>x \<in> set peer_nodes. e = peer_entry x)"
    using e(1) fib_entries_distance_0 by (simp add: rebuild_fib_def)
  moreover have "?route e = Some (resolve_by_name target src nodes ?fib meta)"
    using r assms(4) by (simp add: not_any_hive resolve_by_name_inner_def)
  ultimately consider u' h' where "(u', h') \<in> set nodes" "e = local_entry (u', h')" "nh_name h' = target"
      "resolve_by_name target src nodes ?fib meta = gated meta src target (nh_vpn_id h') (RouteDeliver u')"
    | u' p where "(u', p) \<in> set peer_nodes" "e = peer_entry (u', p)" "pn_name p = target"
      "resolve_by_name target src nodes ?fib meta = gated meta src target (pn_vpn_id p) (RouteRouter (pn_router_uuid p))"
    using uh by (auto simp: local_entry_def peer_entry_def entry_route_def)
  then show ?thesis
    by cases (simp_all only: Let_def, blast+)
qed

definition demo_nodes :: nodes where
  "demo_nodes = [(''u'', \<lparr> nh_name = ''AI.a@m'', nh_vpn_id = 3, nh_connected_at = 9 \<rparr>)]"

definition demo_drop :: static_route where
  "demo_drop = \<lparr> sr_pattern = ''AI.a@m'', sr_match_kind = MATCH_EXACT, sr_action = ACTION_DROP,
     sr_next_hop_hive = [], sr_priority = 0, sr_metric = 0, sr_installed_at = 0 \<rparr>"

definition demo_src :: node_handle where
  "demo_src = \<lparr> nh_name = ''IO.b@m'', nh_vpn_id = 3, nh_connected_at = 1 \<rparr>"

theorem local_name_not_redirected_witness:
  "resolve_by_name ''AI.a@m'' demo_src demo_nodes
     (rebuild_fib demo_nodes [] [demo_drop] (Some demo_snapshot) []) (meta_default \<lparr> mt_msg_type := ''user'' \<rparr>) =
   RouteDeliver ''u''"
proof -
  have "(''u'', \<lparr> nh_name = ''AI.a@m'', nh_vpn_id = 3, nh_connected_at = 9 \<rparr>) \<in> set demo_nodes"
    "distinct (map fst demo_nodes)" "\<not> ends_with ''AI.a@m'' ''@*''"
    by (simp_all add: demo_nodes_def ends_with_def suffix_def)
  from local_name_not_redirected [OF this(1) _ this(2,3), of demo_src "[]" "[demo_drop]"
      "Some demo_snapshot" "[]" "meta_default \<lparr> mt_msg_type := ''user'' \<rparr>"]
  have "resolve_by_name ''AI.a@m'' demo_src demo_nodes
      (rebuild_fib demo_nodes [] [demo_drop] (Some demo_snapshot) []) (meta_default \<lparr> mt_msg_type := ''user'' \<rparr>) =
    gated (meta_default \<lparr> mt_msg_type := ''user'' \<rparr>) demo_src ''AI.a@m'' 3 (RouteDeliver ''u'')"
    by (simp add: demo_nodes_def)
  moreover have "gated (meta_default \<lparr> mt_msg_type := ''user'' \<rparr>) demo_src ''AI.a@m'' 3 (RouteDeliver ''u'') =
      RouteDeliver ''u''"
    by code_simp
  ultimately show ?thesis by simp
qed

text \<open>The VPN a node gets is that of the active rule of the smallest priority that matches its name,
  and 0 when none does or the node is a system node; a new configuration changes nothing else of the
  nodes' table.\<close>

theorem assign_vpn_first:
  "((starts_with name ''SY.'' \<or> starts_with name ''RT.'') \<longrightarrow> assign_vpn name vpns = 0) \<and>
   (\<not> (starts_with name ''SY.'' \<or> starts_with name ''RT.'') \<longrightarrow>
     (let rules = filter (\<lambda>v. rule_active (va_flags v)
            \<and> pattern_match_kind (va_match_kind v) (vpn_pattern v) name) vs
      in if rules = [] then assign_vpn name (Some vs) = 0
         else \<exists>v \<in> set rules. assign_vpn name (Some vs) = va_vpn_id v \<and>
                (\<forall>w \<in> set rules. va_priority v \<le> va_priority w))) \<and>
   map fst (reassign_vpns vs nodes) = map fst nodes \<and>
   map (nh_name \<circ> snd) (reassign_vpns vs nodes) = map (nh_name \<circ> snd) nodes"
proof (intro conjI impI)
  show "(starts_with name ''SY.'' \<or> starts_with name ''RT.'') \<Longrightarrow> assign_vpn name vpns = 0"
    by (auto simp: assign_vpn_def)
next
  assume sys: "\<not> (starts_with name ''SY.'' \<or> starts_with name ''RT.'')"
  let ?matches = "\<lambda>v. pattern_match_kind (va_match_kind v) (vpn_pattern v) name"
  let ?active = "filter (\<lambda>v. rule_active (va_flags v)) vs"
  let ?rules = "filter (\<lambda>v. rule_active (va_flags v) \<and> ?matches v) vs"
  have rules: "set ?rules = {v \<in> set ?active. ?matches v}" by auto
  show "let rules = ?rules in if rules = [] then assign_vpn name (Some vs) = 0
      else \<exists>v \<in> set rules. assign_vpn name (Some vs) = va_vpn_id v \<and> (\<forall>w \<in> set rules. va_priority v \<le> va_priority w)"
  proof (cases "find ?matches (sort_key va_priority ?active)")
    case None
    then have "?rules = []" by (auto simp: find_None_iff filter_empty_conv)
    with None sys show ?thesis by (auto simp: assign_vpn_def)
  next
    case (Some v)
    then have v: "v \<in> set ?rules" using rules find_Some_memberD [OF Some] by simp
    have "va_priority v \<le> va_priority w" if "w \<in> set ?rules" for w
      using that by (intro find_sorted [OF _ Some]) auto
    with v Some sys show ?thesis by (auto simp: assign_vpn_def Let_def filter_empty_conv)
  qed
qed (auto simp: reassign_vpns_def)

definition demo_vpn :: "str \<Rightarrow> nat \<Rightarrow> nat \<Rightarrow> vpn_assignment" where
  "demo_vpn p v n = \<lparr> va_pattern = p, va_pattern_len = length p, va_match_kind = MATCH_PREFIX,
     va_vpn_id = v, va_priority = n, va_flags = FLAG_ACTIVE \<rparr>"

theorem assign_vpn_first_witness:
  "assign_vpn ''SY.edge@m'' None = 0 \<and>
   assign_vpn ''AI.a.x@m'' (Some [demo_vpn ''AI.*'' 7 5, demo_vpn ''AI.a.*'' 9 1]) = 9"
proof -
  let ?vs = "[demo_vpn ''AI.*'' 7 5, demo_vpn ''AI.a.*'' 9 1]"
  have "starts_with ''SY.edge@m'' ''SY.''" "\<not> starts_with ''AI.a.x@m'' ''SY.''" "\<not> starts_with ''AI.a.x@m'' ''RT.''"
    and rules: "filter (\<lambda>v. rule_active (va_flags v)
        \<and> pattern_match_kind (va_match_kind v) (vpn_pattern v) ''AI.a.x@m'') ?vs = ?vs"
    by code_simp+
  then show ?thesis
    using assign_vpn_first [of "''SY.edge@m''" None] assign_vpn_first [of "''AI.a.x@m''" None ?vs]
    unfolding rules by (auto simp: demo_vpn_def)
qed

end
