(* ===== verification/System_Policy.thy ===== *)
theory System_Policy
  imports Protocol
begin

text \<open>
  The SYSTEM authority layer: \<^verbatim>\<open>src/policy/system.rego\<close>, rule by rule, and the functions of
  \<^verbatim>\<open>src/src/router/system_policy.rs\<close> around it.  The router evaluates the policy through a compiled
  WebAssembly module; that evaluator is the parameter \<^verbatim>\<open>eval\<close> of \<^verbatim>\<open>authorize_system\<close>, with
  \<^verbatim>\<open>None\<close> for a poisoned lock or an evaluation error, and \<^verbatim>\<open>policy_faithful\<close> states what the
  compilation promises: an answer is the answer of the Rego rules.
\<close>

section \<open>The Rego policy\<close>

definition edge_service_actions :: "str list" where
  "edge_service_actions =
     [''EDGE_OPEN_URL'', ''EDGE_CLOSE_URL'', ''EDGE_LIST_URLS'', ''EDGE_PUBLISH_BLOB'',
      ''EDGE_UNPUBLISH_BLOB'', ''EDGE_TLS_STATUS'', ''EDGE_TLS_RELOAD'', ''EDGE_ACME_CHALLENGE'',
      ''EDGE_WEB_ROUTES'']"

definition node_control_actions :: "str list" where
  "node_control_actions =
     [''CONFIG_GET'', ''CONFIG_SET'', ''SYSTEM_UPDATE'', ''SYSTEM_SYNC_HINT'', ''CONFIG_CHANGED'']"

definition orchestrator_mutations :: "str list" where
  "orchestrator_mutations =
     [''SPAWN_NODE'', ''KILL_NODE'', ''START_NODE'', ''RESTART_NODE'', ''REMOVE_NODE_INSTANCE'',
      ''NODE_CONFIG_SET'', ''SYSTEM_CORE_ROLLBACK'', ''ADD_HIVE_FINALIZE'',
      ''REMOVE_HIVE_CLEANUP'']"

definition spoke_only_actions :: "str list" where
  "spoke_only_actions = [''ADD_HIVE_FINALIZE'', ''REMOVE_HIVE_CLEANUP'']"

definition orchestrator_reads :: "str list" where
  "orchestrator_reads =
     [''NODE_CONFIG_GET'', ''NODE_STATE_GET'', ''NODE_STATUS_GET'', ''NODE_HELP'', ''LIST_NODES'',
      ''GET_VERSIONS'', ''GET_RUNTIMES'', ''GET_RUNTIME'']"

definition reachability_actions :: "str list" where
  "reachability_actions = [''WAN_REACHABILITY_VOUCH'']"

definition spoke_only_action_on_motherbee :: "str \<Rightarrow> str \<Rightarrow> bool" where
  "spoke_only_action_on_motherbee action hive_id =
     (action \<in> set spoke_only_actions \<and> hive_id = ''motherbee'')"

text \<open>\<^verbatim>\<open>parsed\<close>: undefined when there is no name, no \<^verbatim>\<open>@\<close>, or nothing before the first one.\<close>

definition parsed :: "str option \<Rightarrow> (str \<times> str) option" where
  "parsed src_l2_name =
     (case src_l2_name of
        None \<Rightarrow> None
      | Some s \<Rightarrow>
          (case split_once at_sign (trim s) of
             Some (role, hive) \<Rightarrow> if role = [] then None else Some (role, hive)
           | None \<Rightarrow> None))"

definition rego_allow :: "str \<Rightarrow> str option \<Rightarrow> str \<Rightarrow> bool" where
  "rego_allow action src_l2_name hive_id =
     (case parsed src_l2_name of
        None \<Rightarrow> False
      | Some (role, hive) \<Rightarrow>
          (action \<in> set edge_service_actions \<and> role = ''SY.admin'' \<and> hive = ''motherbee'')
        \<or> (action \<in> set node_control_actions \<and> role = ''SY.admin'' \<and> hive = ''motherbee'')
        \<or> (action \<in> set orchestrator_mutations \<and> role = ''SY.orchestrator'' \<and> hive = ''motherbee''
            \<and> \<not> spoke_only_action_on_motherbee action hive_id)
        \<or> (action \<in> set orchestrator_reads \<and> role = ''SY.orchestrator''
            \<and> hive \<in> {''motherbee'', hive_id})
        \<or> (action \<notin> set edge_service_actions \<and> action \<notin> set node_control_actions
            \<and> action \<notin> set reachability_actions \<and> \<not> spoke_only_action_on_motherbee action hive_id
            \<and> hive = hive_id \<and> role = ''SY.admin'')
        \<or> (action \<notin> set edge_service_actions \<and> role \<noteq> ''SY.orchestrator'' \<and> hive = hive_id
            \<and> action = ''NODE_STATUS_GET'' \<and> role = ''SY.vault'')
        \<or> (action = ''WAN_REACHABILITY_VOUCH'' \<and> role = ''RT.gateway'' \<and> hive = ''motherbee''))"

definition frontdesk_route :: "bool \<Rightarrow> str option \<Rightarrow> bool" where
  "frontdesk_route src_ilk_present registration_status =
     (\<not> src_ilk_present \<or> registration_status = Some ''temporary'')"


section \<open>The router's side\<close>

definition PROTECTED_SYSTEM_ACTIONS :: "str list" where
  "PROTECTED_SYSTEM_ACTIONS =
     [''SYSTEM_UPDATE'', ''SYSTEM_CORE_ROLLBACK'', ''SYSTEM_SYNC_HINT'', ''EDGE_OPEN_URL'',
      ''EDGE_CLOSE_URL'', ''EDGE_LIST_URLS'', ''EDGE_PUBLISH_BLOB'', ''EDGE_UNPUBLISH_BLOB'',
      ''EDGE_TLS_STATUS'', ''EDGE_TLS_RELOAD'', ''EDGE_ACME_CHALLENGE'', ''EDGE_WEB_ROUTES'',
      ''SPAWN_NODE'', ''KILL_NODE'', ''START_NODE'', ''RESTART_NODE'', ''REMOVE_NODE_INSTANCE'',
      ''NODE_CONFIG_SET'', ''NODE_CONFIG_GET'', ''CONFIG_SET'', ''CONFIG_GET'', ''NODE_STATE_GET'',
      ''NODE_STATUS_GET'', ''NODE_HELP'', ''GET_VERSIONS'', ''GET_RUNTIMES'', ''GET_RUNTIME'',
      ''LIST_NODES'', ''INVENTORY_REQUEST'', ''ADD_HIVE_FINALIZE'', ''REMOVE_HIVE_CLEANUP'',
      ''CONFIG_CHANGED'']"

definition protected_system_action :: "str \<Rightarrow> str option" where
  "protected_system_action action =
     find (\<lambda>protected. eq_ignore_ascii_case protected (trim action)) PROTECTED_SYSTEM_ACTIONS"

definition is_protected_system_action :: "str \<Rightarrow> bool" where
  "is_protected_system_action action = (protected_system_action action \<noteq> None)"

type_synonym policy_eval = "str \<Rightarrow> str option \<Rightarrow> str \<Rightarrow> bool option"

definition authorize_system :: "policy_eval \<Rightarrow> str \<Rightarrow> str option \<Rightarrow> str \<Rightarrow> bool" where
  "authorize_system eval action src_l2_name hive_id =
     (case eval action src_l2_name hive_id of Some allow \<Rightarrow> allow | None \<Rightarrow> False)"

definition wan_reachability_voucher_allowed :: "policy_eval \<Rightarrow> str \<Rightarrow> bool" where
  "wan_reachability_voucher_allowed eval voucher_hive =
     authorize_system eval ''WAN_REACHABILITY_VOUCH'' (Some (''RT.gateway@'' @ trim voucher_hive))
       PRIMARY_HIVE_ID"

definition route_to_frontdesk :: "(bool \<Rightarrow> str option \<Rightarrow> bool option) \<Rightarrow> str option \<Rightarrow> bool \<Rightarrow> bool" where
  "route_to_frontdesk eval registration_status src_ilk_present =
     (case eval src_ilk_present registration_status of Some r \<Rightarrow> r | None \<Rightarrow> False)"

text \<open>\<^verbatim>\<open>ensure_system_policy_loaded\<close>: the two probes of the startup; an unusable module refuses to
  start.\<close>

definition ensure_system_policy_loaded ::
  "policy_eval \<Rightarrow> (bool \<Rightarrow> str option \<Rightarrow> bool option) \<Rightarrow> bool" where
  "ensure_system_policy_loaded eval route_eval =
     (eval ''NODE_STATUS_GET'' (Some ''SY.vault@motherbee'') ''motherbee'' \<noteq> None
      \<and> route_eval True (Some ''complete'') \<noteq> None)"

definition same_hive_role_allowed :: "str \<Rightarrow> str option \<Rightarrow> str list \<Rightarrow> bool" where
  "same_hive_role_allowed hive_id src_l2_name allowed_roles =
     (case non_blank src_l2_name of
        None \<Rightarrow> False
      | Some src \<Rightarrow>
          (case split_once at_sign src of
             None \<Rightarrow> False
           | Some (role, hive) \<Rightarrow>
               if hive = [] \<or> hive \<noteq> hive_id then False else role \<in> set allowed_roles))"

definition prefix_allowed_same_hive_scoped ::
  "str \<Rightarrow> str \<Rightarrow> str list \<Rightarrow> str list \<Rightarrow> bool" where
  "prefix_allowed_same_hive_scoped name hive_id allowed_prefixes same_hive_only =
     list_ex (\<lambda>p. if \<not> starts_with name p then False
                  else if p \<in> set same_hive_only
                    then map_option snd (rsplit_once at_sign name) = Some hive_id
                  else True) allowed_prefixes"

text \<open>What compiling the Rego to the evaluated module promises.\<close>

definition policy_faithful :: "policy_eval \<Rightarrow> bool" where
  "policy_faithful eval \<longleftrightarrow>
     (\<forall>a s h allow. eval a s h = Some allow \<longrightarrow> allow = rego_allow a s h)"

definition rego_eval :: policy_eval where
  "rego_eval a s h = Some (rego_allow a s h)"


section \<open>Lemmas\<close>

lemma rego_eval_faithful [simp]: "policy_faithful rego_eval"
  by (simp add: policy_faithful_def rego_eval_def)

lemma authorize_system_rego:
  "policy_faithful eval \<Longrightarrow> authorize_system eval a s h \<Longrightarrow> rego_allow a s h"
  by (auto simp: authorize_system_def policy_faithful_def split: option.splits)

lemma rego_allow_named: "rego_allow a s h \<Longrightarrow> \<exists>role hive. parsed s = Some (role, hive)"
  by (auto simp: rego_allow_def split: option.splits)

lemma rego_allow_roles:
  "rego_allow a s h \<Longrightarrow> parsed s = Some (role, hive) \<Longrightarrow>
   role \<in> {''SY.admin'', ''SY.orchestrator'', ''SY.vault'', ''RT.gateway''} \<and>
   (hive = ''motherbee'' \<or> hive = h)"
  by (auto simp: rego_allow_def)

lemma rego_allow_vault:
  "rego_allow a s h \<Longrightarrow> parsed s = Some (''SY.vault'', hive) \<Longrightarrow> hive = h"
  by (simp add: rego_allow_def)

lemma protected_system_action_Some:
  "protected_system_action a = Some p \<Longrightarrow>
   p \<in> set PROTECTED_SYSTEM_ACTIONS \<and> eq_ignore_ascii_case p (trim a)"
  unfolding protected_system_action_def find_Some_iff by auto

lemma vouch_not_protected: "''WAN_REACHABILITY_VOUCH'' \<notin> set PROTECTED_SYSTEM_ACTIONS"
  by (simp add: PROTECTED_SYSTEM_ACTIONS_def)

text \<open>The action lists of the policy do not overlap where its rules exclude one another.\<close>

lemma action_lists_disjoint:
  "set edge_service_actions \<inter> set orchestrator_mutations = {}"
  "set edge_service_actions \<inter> set orchestrator_reads = {}"
  "set node_control_actions \<inter> set orchestrator_mutations = {}"
  "set node_control_actions \<inter> set orchestrator_reads = {}"
  "set orchestrator_mutations \<inter> set orchestrator_reads = {}"
  by (simp_all add: edge_service_actions_def node_control_actions_def orchestrator_mutations_def
      orchestrator_reads_def)

lemma spoke_only_subset: "set spoke_only_actions \<subseteq> set orchestrator_mutations"
  by (simp add: spoke_only_actions_def orchestrator_mutations_def)

lemma status_get_listed: "''NODE_STATUS_GET'' \<in> set orchestrator_reads"
  by (simp add: orchestrator_reads_def)

lemma vouch_unlisted:
  "''WAN_REACHABILITY_VOUCH'' \<notin> set edge_service_actions"
  "''WAN_REACHABILITY_VOUCH'' \<notin> set node_control_actions"
  "''WAN_REACHABILITY_VOUCH'' \<notin> set orchestrator_mutations"
  "''WAN_REACHABILITY_VOUCH'' \<notin> set orchestrator_reads"
  "''WAN_REACHABILITY_VOUCH'' \<in> set reachability_actions"
  by (simp_all add: edge_service_actions_def node_control_actions_def orchestrator_mutations_def
      orchestrator_reads_def reachability_actions_def)

lemma rego_allow_reachability:
  "rego_allow ''WAN_REACHABILITY_VOUCH'' s h \<longleftrightarrow> parsed s = Some (''RT.gateway'', ''motherbee'')"
  by (auto simp: rego_allow_def vouch_unlisted split: option.splits)

lemma rego_allow_control:
  assumes "rego_allow a s h" "parsed s = Some (role, hive)"
    and "a \<in> set edge_service_actions \<union> set node_control_actions"
  shows "role = ''SY.admin'' \<and> hive = ''motherbee''"
proof -
  have "a \<notin> set orchestrator_mutations" "a \<notin> set orchestrator_reads" "a \<noteq> ''NODE_STATUS_GET''"
    "a \<noteq> ''WAN_REACHABILITY_VOUCH''"
    using assms(3) action_lists_disjoint status_get_listed vouch_unlisted by blast+
  then show ?thesis using assms unfolding rego_allow_def by simp blast
qed

lemma rego_allow_mutation:
  assumes "rego_allow a s h" "parsed s = Some (role, hive)" "a \<in> set orchestrator_mutations"
  shows "\<not> spoke_only_action_on_motherbee a h \<and>
    (role = ''SY.orchestrator'' \<and> hive = ''motherbee'' \<or> role = ''SY.admin'' \<and> hive = h)"
proof -
  have "a \<notin> set edge_service_actions" "a \<notin> set node_control_actions"
    "a \<notin> set orchestrator_reads" "a \<noteq> ''NODE_STATUS_GET''" "a \<noteq> ''WAN_REACHABILITY_VOUCH''"
    using assms(3) action_lists_disjoint status_get_listed vouch_unlisted by blast+
  then show ?thesis using assms unfolding rego_allow_def by simp blast
qed

lemma rego_allow_spoke_only: "a \<in> set spoke_only_actions \<Longrightarrow> \<not> rego_allow a s ''motherbee''"
  by (metis rego_allow_mutation rego_allow_named spoke_only_action_on_motherbee_def
      spoke_only_subset subsetD)


text \<open>The gateway name of a trimmed hive is trimmed.\<close>

lemma trim_gateway: "trim (''RT.gateway@'' @ trim h) = ''RT.gateway@'' @ trim h"
proof (rule trim_prefixed)
  show "strip_prefixes whitespace (''RT.gateway@'' @ trim h) = ''RT.gateway@'' @ trim h"
    by (subst strip_prefixes.simps) (simp add: whitespace_def)
  show "\<forall>p \<in> set whitespace. last ''RT.gateway@'' \<notin> set p" by (simp add: whitespace_def)
qed simp

lemma voucher_is_hub:
  assumes "policy_faithful eval" "wan_reachability_voucher_allowed eval voucher_hive"
  shows "trim voucher_hive = ''motherbee''"
proof -
  have "parsed (Some (''RT.gateway@'' @ trim voucher_hive)) = Some (''RT.gateway'', ''motherbee'')"
    using authorize_system_rego [OF assms [unfolded wan_reachability_voucher_allowed_def]]
    by (simp add: rego_allow_reachability)
  then have "split_once at_sign (trim (''RT.gateway@'' @ trim voucher_hive)) =
      Some (''RT.gateway'', ''motherbee'')"
    by (auto simp: parsed_def split: option.splits if_splits)
  then have "split_once at_sign (''RT.gateway@'' @ trim voucher_hive) =
      Some (''RT.gateway'', ''motherbee'')"
    by (simp only: trim_gateway)
  then show ?thesis by (simp only: split_once_Some_iff) simp
qed


section \<open>Properties\<close>

text \<open>C4: the SYSTEM authority is confined.  Whatever action is authorized, its origin is a name
  \<^verbatim>\<open>role@hive\<close> of the admin, an orchestrator, the vault or the hub's gateway; a name of another
  hive than the local one is of the motherbee, and never of its vault; edge commands and node
  control come from \<^verbatim>\<open>SY.admin@motherbee\<close> only; a mutation from another hive comes only from
  \<^verbatim>\<open>SY.orchestrator@motherbee\<close>; the join and leave handshake is authorized for nobody on the
  motherbee.\<close>

theorem authorize_system_confined:
  assumes "policy_faithful eval" "authorize_system eval action src hive_id"
  shows "\<exists>role hive. parsed src = Some (role, hive) \<and>
    role \<in> {''SY.admin'', ''SY.orchestrator'', ''SY.vault'', ''RT.gateway''} \<and>
    (hive \<noteq> hive_id \<longrightarrow> hive = ''motherbee'' \<and> role \<noteq> ''SY.vault'') \<and>
    (action \<in> set edge_service_actions \<union> set node_control_actions \<longrightarrow>
       role = ''SY.admin'' \<and> hive = ''motherbee'') \<and>
    (action \<in> set orchestrator_mutations \<and> hive \<noteq> hive_id \<longrightarrow>
       role = ''SY.orchestrator'' \<and> hive = ''motherbee'') \<and>
    (action \<in> set spoke_only_actions \<longrightarrow> hive_id \<noteq> ''motherbee'')"
proof -
  have allow: "rego_allow action src hive_id" using assms by (rule authorize_system_rego)
  then obtain role hive where p: "parsed src = Some (role, hive)" using rego_allow_named by blast
  show ?thesis
  proof (intro exI conjI impI)
    show "parsed src = Some (role, hive)" by (fact p)
    show "role \<in> {''SY.admin'', ''SY.orchestrator'', ''SY.vault'', ''RT.gateway''}"
      using rego_allow_roles [OF allow p] by (rule conjunct1)
  next
    assume "hive \<noteq> hive_id"
    then show "hive = ''motherbee''" "role \<noteq> ''SY.vault''"
      using rego_allow_roles [OF allow p] rego_allow_vault [OF allow] p by blast+
  next
    assume "action \<in> set edge_service_actions \<union> set node_control_actions"
    from rego_allow_control [OF allow p this] show "role = ''SY.admin''" "hive = ''motherbee''"
      by (rule conjunct1, rule conjunct2)
  next
    assume "action \<in> set orchestrator_mutations \<and> hive \<noteq> hive_id"
    with rego_allow_mutation [OF allow p] show "role = ''SY.orchestrator''" "hive = ''motherbee''"
      by blast+
  next
    assume "action \<in> set spoke_only_actions"
    with allow show "hive_id \<noteq> ''motherbee''" using rego_allow_spoke_only by blast
  qed
qed

theorem authorize_system_confined_witness:
  "authorize_system rego_eval ''SPAWN_NODE'' (Some '' SY.orchestrator@motherbee '') ''worker1'' \<and>
   \<not> authorize_system rego_eval ''SPAWN_NODE'' (Some ''SY.orchestrator@worker2'') ''worker1'' \<and>
   parsed (Some '' SY.orchestrator@motherbee '') \<noteq> None"
proof (intro conjI)
  show ok: "authorize_system rego_eval ''SPAWN_NODE'' (Some '' SY.orchestrator@motherbee '') ''worker1''"
    by code_simp
  show "\<not> authorize_system rego_eval ''SPAWN_NODE'' (Some ''SY.orchestrator@worker2'') ''worker1''"
    by code_simp
  show "parsed (Some '' SY.orchestrator@motherbee '') \<noteq> None"
    using authorize_system_confined [OF rego_eval_faithful ok] by (elim exE conjE) simp
qed

end
