(* ===== verification/Lsa_Exchange.thy ===== *)
theory Lsa_Exchange
  imports Fib System_Policy "HOL-Library.AList" "HOL-Library.List_Lexorder" "HOL-Library.Char_ord"
begin

text \<open>
  What routers tell each other about their nodes (\<^verbatim>\<open>src/src/router/mod.rs\<close>): the advertisement a
  router builds of its hive, how a peer's is checked and kept, how the region is written from what is
  kept, the nodes the hub vouches for, and how both go stale.  Parsing and printing a UUID
  (\<^verbatim>\<open>uuid\<close>), and decoding and encoding the JSON payloads (\<^verbatim>\<open>serde_json\<close>), are arguments.  The clock
  is the argument \<^verbatim>\<open>now\<close>.  A \<^verbatim>\<open>HashMap\<close> is an association list; an update is one under its lock.
\<close>

section \<open>Numbers in decimal\<close>

fun show_nat :: "nat \<Rightarrow> str" where
  "show_nat n = (if n < 10 then [char_of (48 + n)] else show_nat (n div 10) @ [char_of (48 + n mod 10)])"

declare show_nat.simps [simp del]

definition digit :: "char \<Rightarrow> nat option" where
  "digit c = (let n = of_char c :: nat in if 48 \<le> n \<and> n \<le> 57 then Some (n - 48) else None)"

text \<open>\<^verbatim>\<open>str::parse::<u64>\<close>: digits, with an optional plus sign, whose value fits.\<close>

fun parse_digits :: "nat \<Rightarrow> str \<Rightarrow> nat option" where
  "parse_digits acc [] = Some acc"
| "parse_digits acc (c # cs) =
     (case digit c of
        None \<Rightarrow> None
      | Some d \<Rightarrow> if acc * 10 + d > u64_max then None else parse_digits (acc * 10 + d) cs)"

definition parse_u64 :: "str \<Rightarrow> nat option" where
  "parse_u64 s =
     (let digits = (case s of c # cs \<Rightarrow> if c = CHR ''+'' then cs else s | [] \<Rightarrow> [])
      in if digits = [] then None else parse_digits 0 digits)"


section \<open>Labels\<close>

definition to_ascii_uppercase :: "str \<Rightarrow> str" where
  "to_ascii_uppercase s =
     map (\<lambda>c. let n = of_char c :: nat in if 97 \<le> n \<and> n \<le> 122 then char_of (n - 32) else c) s"

definition match_kind_label :: "nat \<Rightarrow> str" where
  "match_kind_label kind =
     (if kind = MATCH_EXACT then ''EXACT'' else if kind = MATCH_PREFIX then ''PREFIX''
      else if kind = MATCH_GLOB then ''GLOB'' else ''PREFIX'')"

definition match_kind_from_label :: "str \<Rightarrow> nat option" where
  "match_kind_from_label label =
     (let l = to_ascii_uppercase label
      in if l = ''EXACT'' then Some MATCH_EXACT else if l = ''PREFIX'' then Some MATCH_PREFIX
         else if l = ''GLOB'' then Some MATCH_GLOB else None)"

definition action_label :: "nat \<Rightarrow> str" where
  "action_label action = (if action = ACTION_DROP then ''DROP'' else ''FORWARD'')"

definition action_from_label :: "str \<Rightarrow> nat option" where
  "action_from_label label =
     (let l = to_ascii_uppercase label
      in if l = ''DROP'' then Some ACTION_DROP else if l = ''FORWARD'' then Some ACTION_FORWARD else None)"

definition tap_mode_label :: "nat \<Rightarrow> str" where
  "tap_mode_label mode = ''best_effort''"

definition tap_mode_from_label :: "str \<Rightarrow> nat option" where
  "tap_mode_from_label label =
     (let l = to_ascii_lowercase (trim label) in if l = [] \<or> l = ''best_effort'' then Some 0 else None)"


section \<open>State\<close>

record tap_entry =
  tp_match_src :: bytes
  tp_match_src_len :: nat
  tp_match_dst :: bytes
  tp_match_dst_len :: nat
  tp_target :: bytes
  tp_target_len :: nat
  tp_mode :: nat
  tp_enabled :: nat
  tp_flags :: flags
  tp_installed_at :: nat

record remote_hive_state =
  hs_session_epoch :: nat
  hs_last_seq :: nat
  hs_last_updated :: nat
  hs_flags :: flags
  hs_router_uuid :: uuid
  hs_router_name :: str
  hs_nodes :: "lsa_node list"
  hs_routes :: "lsa_route list"
  hs_vpns :: "lsa_vpn list"
  hs_taps :: "lsa_tap list"

definition nil_uuid :: uuid where
  "nil_uuid = replicate 16 (CHR 0x00)"

definition remote_hive_state_default :: remote_hive_state where
  "remote_hive_state_default =
     \<lparr> hs_session_epoch = 0, hs_last_seq = 0, hs_last_updated = 0, hs_flags = 0,
       hs_router_uuid = nil_uuid, hs_router_name = [], hs_nodes = [], hs_routes = [], hs_vpns = [],
       hs_taps = [] \<rparr>"

type_synonym lsa_state = "(str \<times> remote_hive_state) list"

text \<open>The part of \<^verbatim>\<open>WanContext\<close> this exchange works on.  \<^verbatim>\<open>lc_wan_peers\<close> gives the router of each
  peer hive; the channel to it is named by the hive.  \<^verbatim>\<open>lc_lsa_writer\<close>: the region is open here;
  \<^verbatim>\<open>lc_region\<close> is what it holds.\<close>

record lsa_context =
  lc_router_uuid :: uuid
  lc_router_name :: str
  lc_hive_id :: str
  lc_dead_interval_ms :: nat
  lc_nodes :: nodes
  lc_peer_nodes :: peer_nodes
  lc_static_routes :: "static_route list"
  lc_vpn_rules :: "vpn_assignment list"
  lc_tap_rules :: "tap_entry list"
  lc_wan_peers :: "(str \<times> uuid) list"
  lc_lsa_state :: lsa_state
  lc_lsa_seq :: nat
  lc_reachability :: reachability
  lc_lsa_writer :: bool
  lc_region :: lsa_snapshot
  lc_lsa_snapshot :: "lsa_snapshot option"
  lc_fib :: "fib_entry list"
  lc_lsa_reject_counters :: "(str \<times> nat) list"

text \<open>The library code: \<^verbatim>\<open>Uuid::parse_str\<close>, its \<^verbatim>\<open>Display\<close>, \<^verbatim>\<open>Uuid::new_v4\<close> for the trace of the
  message to a hive, and \<^verbatim>\<open>serde_json\<close> on messages and payloads.\<close>

record codec_env =
  ce_parse_uuid :: "str \<Rightarrow> uuid option"
  ce_show_uuid :: "uuid \<Rightarrow> str"
  ce_trace :: "str \<Rightarrow> uuid"
  ce_to_vec :: "message \<Rightarrow> bytes option"
  ce_lsa_json :: "lsa_payload \<Rightarrow> json"
  ce_lsa_of :: "json \<Rightarrow> lsa_payload option"
  ce_reach_json :: "wan_reachability_payload \<Rightarrow> json"
  ce_reach_of :: "json \<Rightarrow> wan_reachability_payload option"


section \<open>The advertisement of this hive\<close>

definition lsa_node_of :: "codec_env \<Rightarrow> uuid \<Rightarrow> str \<Rightarrow> nat \<Rightarrow> lsa_node" where
  "lsa_node_of ce u name vpn = \<lparr> ln_uuid = ce_show_uuid ce u, ln_name = name, ln_vpn_id = vpn \<rparr>"

definition lsa_node_map :: "codec_env \<Rightarrow> nodes \<Rightarrow> peer_nodes \<Rightarrow> (uuid \<times> lsa_node) list" where
  "lsa_node_map ce nodes peer_nodes =
     fold (\<lambda>(u, p). AList.update u (lsa_node_of ce u (pn_name p) (pn_vpn_id p))) peer_nodes
       (fold (\<lambda>(u, h). AList.update u (lsa_node_of ce u (nh_name h) (nh_vpn_id h))) nodes [])"

definition lsa_route_of :: "static_route \<Rightarrow> lsa_route" where
  "lsa_route_of r =
     \<lparr> lr_prefix = sr_pattern r, lr_match_kind = match_kind_label (sr_match_kind r),
       lr_action = action_label (sr_action r), lr_next_hop_hive = sr_next_hop_hive r,
       lr_metric = sr_metric r \<rparr>"

definition lsa_vpn_of :: "vpn_assignment \<Rightarrow> lsa_vpn option" where
  "lsa_vpn_of v =
     (if va_pattern_len v = 0 \<or> \<not> rule_active (va_flags v) then None
      else Some \<lparr> lv_pattern = vpn_pattern v, lv_match_kind = match_kind_label (va_match_kind v),
                  lv_vpn_id = va_vpn_id v \<rparr>)"

definition lsa_tap_of :: "tap_entry \<Rightarrow> lsa_tap option" where
  "lsa_tap_of t =
     (if tp_enabled t = 0 \<or> tp_match_src_len t = 0 \<or> tp_match_dst_len t = 0 \<or> tp_target_len t = 0
         \<or> \<not> rule_active (tp_flags t) then None
      else Some \<lparr> lt_match_src = bytes_to_string (tp_match_src t) (tp_match_src_len t),
                  lt_match_dst = bytes_to_string (tp_match_dst t) (tp_match_dst_len t),
                  lt_target = bytes_to_string (tp_target t) (tp_target_len t),
                  lt_mode = tap_mode_label (tp_mode t), lt_enabled = (tp_enabled t \<noteq> 0) \<rparr>)"

definition build_local_lsa_payload :: "codec_env \<Rightarrow> nat \<Rightarrow> nat \<Rightarrow> lsa_context \<Rightarrow> lsa_payload" where
  "build_local_lsa_payload ce now seq c =
     \<lparr> lp_hive = lc_hive_id c, lp_router_id = ce_show_uuid ce (lc_router_uuid c),
       lp_router_name = lc_router_name c, lp_seq = seq, lp_timestamp = show_nat now,
       lp_nodes = map snd (lsa_node_map ce (lc_nodes c) (lc_peer_nodes c)),
       lp_routes = map lsa_route_of (lc_static_routes c),
       lp_vpns = List.map_filter lsa_vpn_of (lc_vpn_rules c),
       lp_taps = List.map_filter lsa_tap_of (lc_tap_rules c) \<rparr>"

text \<open>A send to the channel of each peer hive, the bytes or the error that ends the loop.\<close>

fun send_each :: "(str \<times> bytes option) list \<Rightarrow> (str \<times> bytes) list" where
  "send_each [] = []"
| "send_each ((hive, data) # rest) =
     (case data of None \<Rightarrow> [] | Some d \<Rightarrow> (hive, d) # send_each rest)"

definition lsa_message :: "codec_env \<Rightarrow> lsa_context \<Rightarrow> lsa_payload \<Rightarrow> str \<times> uuid \<Rightarrow> message" where
  "lsa_message ce c payload peer =
     build_lsa (ce_show_uuid ce (lc_router_uuid c)) (ce_show_uuid ce (snd peer))
       (ce_show_uuid ce (ce_trace ce (fst peer))) (ce_lsa_json ce payload)"

definition broadcast_lsa ::
  "codec_env \<Rightarrow> nat \<Rightarrow> str option \<Rightarrow> lsa_context \<Rightarrow> lsa_context \<times> (str \<times> bytes) list" where
  "broadcast_lsa ce now target_hive c =
     (if lc_wan_peers c = [] then (c, [])
      else let seq = saturating_add 64 (lc_lsa_seq c) 1;
               payload = build_local_lsa_payload ce now seq c;
               targets = filter (\<lambda>(hive, _). target_hive = None \<or> target_hive = Some hive) (lc_wan_peers c)
           in (c \<lparr> lc_lsa_seq := seq \<rparr>,
               send_each (map (\<lambda>p. (fst p, ce_to_vec ce (lsa_message ce c payload p))) targets)))"


section \<open>Taking a peer's advertisement\<close>

definition LSA_REJECT_HIVE_MISMATCH :: str where "LSA_REJECT_HIVE_MISMATCH = ''hive_mismatch''"
definition LSA_REJECT_STALE_SEQ :: str where "LSA_REJECT_STALE_SEQ = ''stale_seq''"
definition LSA_REJECT_PARSE_ERROR :: str where "LSA_REJECT_PARSE_ERROR = ''parse_error''"
definition LSA_REJECT_FOREIGN_NODE :: str where "LSA_REJECT_FOREIGN_NODE = ''foreign_node''"
definition LSA_REJECT_DUPLICATE_UUID :: str where "LSA_REJECT_DUPLICATE_UUID = ''duplicate_uuid''"
definition LSA_REJECT_FOREIGN_SOURCE :: str where "LSA_REJECT_FOREIGN_SOURCE = ''foreign_source''"

datatype lsa_apply_result =
  LsaApplied (foreign_nodes: "str list") (duplicate_uuids: "str list")
| LsaRejected (reject_reason: str) (payload_hive: str) (reject_seq: nat) (reject_last_seq: nat)
    (reject_session_epoch: nat)

definition count_lsa_rejects :: "str \<Rightarrow> nat \<Rightarrow> lsa_context \<Rightarrow> lsa_context" where
  "count_lsa_rejects reason count c =
     c \<lparr> lc_lsa_reject_counters :=
           AList.update reason
             (saturating_add 64 (unwrap_or 0 (map_of (lc_lsa_reject_counters c) reason)) count)
             (lc_lsa_reject_counters c) \<rparr>"

definition bump_lsa_reject_counter :: "str \<Rightarrow> lsa_context \<Rightarrow> lsa_context" where
  "bump_lsa_reject_counter reason c = count_lsa_rejects reason 1 c"

definition local_node_uuids :: "nodes \<Rightarrow> peer_nodes \<Rightarrow> uuid set" where
  "local_node_uuids nodes peer_nodes = fst ` set nodes \<union> fst ` set peer_nodes"

definition parsed_uuids :: "codec_env \<Rightarrow> lsa_node list \<Rightarrow> uuid set" where
  "parsed_uuids ce ns = set (List.map_filter (\<lambda>n. ce_parse_uuid ce (ln_uuid n)) ns)"

definition listed_elsewhere :: "codec_env \<Rightarrow> str \<Rightarrow> lsa_state \<Rightarrow> uuid set" where
  "listed_elsewhere ce hive st =
     parsed_uuids ce (concat (map (\<lambda>(_, s). hs_nodes s) (filter (\<lambda>(h, _). h \<noteq> hive) st)))"

definition uuid_in :: "codec_env \<Rightarrow> uuid set \<Rightarrow> lsa_node \<Rightarrow> bool" where
  "uuid_in ce us n = (case ce_parse_uuid ce (ln_uuid n) of Some u \<Rightarrow> u \<in> us | None \<Rightarrow> False)"

definition bucket_nodes :: "codec_env \<Rightarrow> str \<Rightarrow> uuid set \<Rightarrow> lsa_node list \<Rightarrow> lsa_node list" where
  "bucket_nodes ce hive local ns =
     filter (\<lambda>n. node_is_on_hive (ln_name n) hive \<and> \<not> uuid_in ce local n) ns"

definition session_entry :: "str \<Rightarrow> nat \<Rightarrow> lsa_state \<Rightarrow> remote_hive_state" where
  "session_entry hive session_epoch st =
     (let entry = unwrap_or remote_hive_state_default (map_of st hive)
      in if hs_session_epoch entry \<noteq> session_epoch
         then entry \<lparr> hs_session_epoch := session_epoch, hs_last_seq := 0 \<rparr> else entry)"

definition payload_router :: "codec_env \<Rightarrow> uuid \<Rightarrow> lsa_payload \<Rightarrow> uuid option" where
  "payload_router ce peer_router_uuid payload =
     (if lp_router_id payload = [] then Some peer_router_uuid else ce_parse_uuid ce (lp_router_id payload))"

definition applied_entry ::
  "codec_env \<Rightarrow> nat \<Rightarrow> uuid set \<Rightarrow> str \<Rightarrow> uuid \<Rightarrow> str \<Rightarrow> lsa_payload \<Rightarrow> remote_hive_state \<Rightarrow>
   remote_hive_state" where
  "applied_entry ce now local_uuids hive router_uuid peer_router_name payload entry =
     entry
       \<lparr> hs_last_seq := lp_seq payload, hs_last_updated := now,
         hs_flags := hs_flags entry AND NOT FLAG_STALE, hs_router_uuid := router_uuid,
         hs_router_name := (if lp_router_name payload = [] then peer_router_name
                            else lp_router_name payload),
         hs_nodes := bucket_nodes ce hive local_uuids (lp_nodes payload),
         hs_routes := lp_routes payload, hs_vpns := lp_vpns payload, hs_taps := lp_taps payload \<rparr>"

definition apply_lsa_payload ::
  "codec_env \<Rightarrow> nat \<Rightarrow> uuid set \<Rightarrow> str \<Rightarrow> uuid \<Rightarrow> str \<Rightarrow> nat \<Rightarrow> lsa_payload \<Rightarrow> lsa_state \<Rightarrow>
   lsa_apply_result \<times> lsa_state" where
  "apply_lsa_payload ce now local_uuids expected_hive peer_router_uuid peer_router_name session_epoch
     payload st =
     (if lp_hive payload \<noteq> expected_hive
      then (LsaRejected LSA_REJECT_HIVE_MISMATCH (lp_hive payload) (lp_seq payload) 0 session_epoch, st)
      else
        let entry = session_entry expected_hive session_epoch st;
            rejected = (\<lambda>reason. (LsaRejected reason (lp_hive payload) (lp_seq payload) (hs_last_seq entry)
                                    (hs_session_epoch entry), AList.update expected_hive entry st))
        in if lp_seq payload \<le> hs_last_seq entry then rejected LSA_REJECT_STALE_SEQ
           else case payload_router ce peer_router_uuid payload of
             None \<Rightarrow> rejected LSA_REJECT_PARSE_ERROR
           | Some router_uuid \<Rightarrow>
               let (own, foreign) = partition (\<lambda>n. node_is_on_hive (ln_name n) expected_hive) (lp_nodes payload);
                   taken = local_uuids \<union> listed_elsewhere ce expected_hive st
               in (LsaApplied (map ln_name foreign) (map ln_name (filter (uuid_in ce taken) own)),
                   AList.update expected_hive
                     (applied_entry ce now local_uuids expected_hive router_uuid peer_router_name payload entry) st))"


section \<open>Writing the region\<close>

definition MAX_REMOTE_HIVES :: nat where "MAX_REMOTE_HIVES = 16"
definition MAX_REMOTE_NODES :: nat where "MAX_REMOTE_NODES = 1024"
definition MAX_REMOTE_ROUTES :: nat where "MAX_REMOTE_ROUTES = 256"
definition MAX_REMOTE_VPNS :: nat where "MAX_REMOTE_VPNS = 256"
definition MAX_REMOTE_TAPS :: nat where "MAX_REMOTE_TAPS = 256"

definition as_u16 :: "nat \<Rightarrow> nat" where "as_u16 n = n mod 65536"
definition as_u32 :: "nat \<Rightarrow> nat" where "as_u32 n = n mod 4294967296"

text \<open>\<^verbatim>\<open>copy_bytes_with_len\<close> into a zeroed field of \<^verbatim>\<open>n\<close> bytes: the field and its length.\<close>

definition copied :: "nat \<Rightarrow> str \<Rightarrow> bytes" where
  "copied n s = take n s @ replicate (n - length s) (CHR 0x00)"

definition copied_len :: "nat \<Rightarrow> str \<Rightarrow> nat" where
  "copied_len n s = min (length s) n"

definition hive_entry_of :: "str \<times> remote_hive_state \<Rightarrow> remote_hive_entry" where
  "hive_entry_of hs =
     (let (hive_id, st) = hs in
      \<lparr> rh_hive_id = copied 64 hive_id, rh_hive_id_len = copied_len 64 hive_id,
        rh_router_uuid = hs_router_uuid st, rh_router_name = copied 64 (hs_router_name st),
        rh_router_name_len = copied_len 64 (hs_router_name st), rh_last_lsa_seq = hs_last_seq st,
        rh_last_updated = hs_last_updated st, rh_flags = hs_flags st,
        rh_node_count = as_u32 (length (hs_nodes st)), rh_route_count = as_u32 (length (hs_routes st)),
        rh_vpn_count = as_u32 (length (hs_vpns st)), rh_tap_count = as_u32 (length (hs_taps st)) \<rparr>)"

definition node_entry_of :: "codec_env \<Rightarrow> nat \<Rightarrow> lsa_node \<Rightarrow> remote_node_entry option" where
  "node_entry_of ce index n =
     map_option (\<lambda>u. \<lparr> rn_uuid = u, rn_name = copied 256 (ln_name n), rn_name_len = copied_len 256 (ln_name n),
                       rn_vpn_id = ln_vpn_id n, rn_hive_index = as_u16 index, rn_flags = FLAG_ACTIVE \<rparr>)
       (ce_parse_uuid ce (ln_uuid n))"

definition route_entry_of :: "nat \<Rightarrow> lsa_route \<Rightarrow> remote_route_entry option" where
  "route_entry_of index r =
     (case (match_kind_from_label (lr_match_kind r), action_from_label (lr_action r)) of
        (Some match_kind, Some action) \<Rightarrow>
          Some \<lparr> rr_prefix = copied 256 (lr_prefix r), rr_prefix_len = copied_len 256 (lr_prefix r),
                 rr_match_kind = match_kind, rr_action = action,
                 rr_next_hop_hive = copied 32 (lr_next_hop_hive r),
                 rr_next_hop_hive_len = copied_len 32 (lr_next_hop_hive r), rr_metric = lr_metric r,
                 rr_priority = 0, rr_flags = FLAG_ACTIVE, rr_hive_index = as_u16 index \<rparr>
      | _ \<Rightarrow> None)"

definition vpn_entry_of :: "nat \<Rightarrow> lsa_vpn \<Rightarrow> remote_vpn_entry option" where
  "vpn_entry_of index v =
     map_option (\<lambda>match_kind.
         \<lparr> rv_pattern = copied 256 (lv_pattern v), rv_pattern_len = copied_len 256 (lv_pattern v),
           rv_match_kind = match_kind, rv_vpn_id = lv_vpn_id v, rv_priority = 0, rv_flags = FLAG_ACTIVE,
           rv_hive_index = as_u16 index \<rparr>)
       (match_kind_from_label (lv_match_kind v))"

definition tap_entry_of :: "nat \<Rightarrow> lsa_tap \<Rightarrow> remote_tap_entry option" where
  "tap_entry_of index t =
     map_option (\<lambda>mode.
         \<lparr> rp_match_src = copied 256 (lt_match_src t), rp_match_src_len = copied_len 256 (lt_match_src t),
           rp_match_dst = copied 256 (lt_match_dst t), rp_match_dst_len = copied_len 256 (lt_match_dst t),
           rp_target = copied 256 (lt_target t), rp_target_len = copied_len 256 (lt_target t),
           rp_mode = mode, rp_enabled = (if lt_enabled t then 1 else 0), rp_flags = FLAG_ACTIVE,
           rp_hive_index = as_u16 index \<rparr>)
       (tap_mode_from_label (lt_mode t))"

definition entries_of :: "(nat \<Rightarrow> 'a \<Rightarrow> 'b option) \<Rightarrow> ('s \<Rightarrow> 'a list) \<Rightarrow> (str \<times> 's) list \<Rightarrow> 'b list" where
  "entries_of entry items hives =
     concat (map (\<lambda>(i, _, st). List.map_filter (entry i) (items st)) (enumerate 0 hives))"

definition region_of :: "codec_env \<Rightarrow> lsa_state \<Rightarrow> lsa_snapshot" where
  "region_of ce hives =
     \<lparr> ls_hives = map hive_entry_of hives,
       ls_nodes = entries_of (node_entry_of ce) hs_nodes hives,
       ls_routes = entries_of route_entry_of hs_routes hives,
       ls_vpns = entries_of vpn_entry_of hs_vpns hives,
       ls_taps = entries_of tap_entry_of hs_taps hives \<rparr>"

text \<open>\<^verbatim>\<open>LsaRegionWriter::write_snapshot\<close> refuses what does not fit the region.\<close>

definition region_fits :: "lsa_snapshot \<Rightarrow> bool" where
  "region_fits s =
     (length (ls_hives s) \<le> MAX_REMOTE_HIVES \<and> length (ls_nodes s) \<le> MAX_REMOTE_NODES
      \<and> length (ls_routes s) \<le> MAX_REMOTE_ROUTES \<and> length (ls_vpns s) \<le> MAX_REMOTE_VPNS
      \<and> length (ls_taps s) \<le> MAX_REMOTE_TAPS)"

definition self_state :: "codec_env \<Rightarrow> nat \<Rightarrow> lsa_context \<Rightarrow> remote_hive_state" where
  "self_state ce now c =
     (let p = build_local_lsa_payload ce now (lc_lsa_seq c) c in
      \<lparr> hs_session_epoch = 0, hs_last_seq = lp_seq p,
        hs_last_updated = unwrap_or now (parse_u64 (lp_timestamp p)),
        hs_flags = FLAG_ACTIVE OR HIVE_FLAG_SELF, hs_router_uuid = lc_router_uuid c,
        hs_router_name = lc_router_name c, hs_nodes = lp_nodes p, hs_routes = lp_routes p,
        hs_vpns = lp_vpns p, hs_taps = lp_taps p \<rparr>)"

definition region_hives :: "codec_env \<Rightarrow> nat \<Rightarrow> lsa_context \<Rightarrow> lsa_state" where
  "region_hives ce now c =
     (lc_hive_id c, self_state ce now c)
       # sort_key fst (filter (\<lambda>(hive, _). hive \<noteq> lc_hive_id c) (lc_lsa_state c))"

text \<open>\<^verbatim>\<open>readable\<close>: reading the region back succeeds within its time limit.\<close>

definition write_lsa_state :: "codec_env \<Rightarrow> nat \<Rightarrow> bool \<Rightarrow> lsa_context \<Rightarrow> lsa_context" where
  "write_lsa_state ce now readable c =
     (let region = region_of ce (region_hives ce now c)
      in if \<not> lc_lsa_writer c \<or> \<not> region_fits region then c
         else let c = c \<lparr> lc_region := region \<rparr>
              in if readable then c \<lparr> lc_lsa_snapshot := Some region \<rparr> else c)"

text \<open>The branch of \<^verbatim>\<open>handle_wan_message\<close> that takes a \<^verbatim>\<open>LSA\<close>.\<close>

definition receive_lsa ::
  "codec_env \<Rightarrow> nat \<Rightarrow> bool \<Rightarrow> str \<Rightarrow> uuid \<Rightarrow> str \<Rightarrow> nat \<Rightarrow> json \<Rightarrow> lsa_context \<Rightarrow> lsa_context" where
  "receive_lsa ce now readable peer_hive peer_router_uuid peer_router_name session_epoch payload c =
     (case ce_lsa_of ce payload of
        None \<Rightarrow> bump_lsa_reject_counter LSA_REJECT_PARSE_ERROR c
      | Some p \<Rightarrow>
          (let (result, st) = apply_lsa_payload ce now (local_node_uuids (lc_nodes c) (lc_peer_nodes c))
                 peer_hive peer_router_uuid peer_router_name session_epoch p (lc_lsa_state c);
               c = c \<lparr> lc_lsa_state := st \<rparr>
           in case result of
                LsaApplied foreign duplicate \<Rightarrow>
                  let c = (if foreign = [] then c
                           else count_lsa_rejects LSA_REJECT_FOREIGN_NODE (length foreign) c);
                      c = (if duplicate = [] then c
                           else count_lsa_rejects LSA_REJECT_DUPLICATE_UUID (length duplicate) c)
                  in write_lsa_state ce now readable c
              | LsaRejected reason _ _ _ _ \<Rightarrow> bump_lsa_reject_counter reason c))"


section \<open>Vouched nodes\<close>

definition rebuild_context_fib :: "lsa_context \<Rightarrow> lsa_context" where
  "rebuild_context_fib c =
     c \<lparr> lc_fib := rebuild_fib (lc_nodes c) (lc_peer_nodes c) (lc_static_routes c) (lc_lsa_snapshot c)
                     (lc_reachability c) \<rparr>"

definition contested_uuids :: "codec_env \<Rightarrow> lsa_state \<Rightarrow> uuid set" where
  "contested_uuids ce st =
     (let uuids = map (\<lambda>(_, s). parsed_uuids ce (hs_nodes s)) st
      in {u \<in> \<Union> (set uuids). length (filter (\<lambda>us. u \<in> us) uuids) > 1})"

definition reachability_entries ::
  "codec_env \<Rightarrow> lsa_state \<Rightarrow> str \<Rightarrow> wan_reachability_entry list" where
  "reachability_entries ce st target_hive =
     concat (map (\<lambda>(origin_hive, s).
         if hs_flags s AND FLAG_STALE \<noteq> 0 \<or> origin_hive = target_hive then []
         else map (\<lambda>n. \<lparr> we_uuid = ln_uuid n, we_name = ln_name n, we_hive_id = origin_hive,
                         we_vpn_id = ln_vpn_id n \<rparr>)
                (filter (\<lambda>n. \<not> uuid_in ce (contested_uuids ce st) n) (hs_nodes s))) st)"

definition reachability_payload ::
  "codec_env \<Rightarrow> nat \<Rightarrow> lsa_context \<Rightarrow> str \<Rightarrow> wan_reachability_payload" where
  "reachability_payload ce now c target_hive =
     \<lparr> wp_origin_hive = lc_hive_id c, wp_router_id = ce_show_uuid ce (lc_router_uuid c),
       wp_router_name = lc_router_name c, wp_seq = now, wp_timestamp = show_nat now,
       wp_entries = reachability_entries ce (lc_lsa_state c) target_hive \<rparr>"

text \<open>A message that cannot be serialised is left out; the loop goes on.\<close>

definition broadcast_reachability :: "codec_env \<Rightarrow> nat \<Rightarrow> lsa_context \<Rightarrow> (str \<times> bytes) list" where
  "broadcast_reachability ce now c =
     (if length (lc_wan_peers c) < 2 then []
      else List.map_filter (\<lambda>(target_hive, router).
             let payload = reachability_payload ce now c target_hive in
             if wp_entries payload = [] then None
             else map_option (Pair target_hive)
                    (ce_to_vec ce (build_wan_reachability (ce_show_uuid ce (lc_router_uuid c))
                       (ce_show_uuid ce router) (ce_show_uuid ce (ce_trace ce target_hive))
                       (ce_reach_json ce payload)))) (lc_wan_peers c))"

text \<open>What becomes of one vouched entry: \<^verbatim>\<open>None\<close> skipped, \<^verbatim>\<open>Some (Inl name)\<close> counted as duplicate.\<close>

definition vouched_entry ::
  "codec_env \<Rightarrow> nat \<Rightarrow> str \<Rightarrow> str \<Rightarrow> uuid set \<Rightarrow> wan_reachability_entry list \<Rightarrow> wan_reachability_entry \<Rightarrow>
   (str + uuid \<times> reachability_entry) option" where
  "vouched_entry ce now hive_id peer_hive taken entries e =
     (case ce_parse_uuid ce (we_uuid e) of
        None \<Rightarrow> None
      | Some u \<Rightarrow>
          if we_hive_id e = hive_id \<or> we_hive_id e = peer_hive \<or> we_name e = [] then None
          else if u \<in> taken
                  \<or> length (filter (\<lambda>e'. ce_parse_uuid ce (we_uuid e') = Some u) entries) > 1
            then Some (Inl (we_name e))
          else Some (Inr (u, \<lparr> re_name = we_name e, re_origin_hive = we_hive_id e,
                              re_next_hop_hive = peer_hive, re_vpn_id = we_vpn_id e,
                              re_last_updated = now \<rparr>)))"

definition apply_wan_reachability ::
  "policy_eval \<Rightarrow> codec_env \<Rightarrow> nat \<Rightarrow> str \<Rightarrow> json \<Rightarrow> lsa_context \<Rightarrow> lsa_context" where
  "apply_wan_reachability eval ce now peer_hive payload c =
     (if \<not> wan_reachability_voucher_allowed eval peer_hive then c
      else case ce_reach_of ce payload of
        None \<Rightarrow> c
      | Some p \<Rightarrow>
          if wp_origin_hive p \<noteq> peer_hive then c
          else
            let taken = local_node_uuids (lc_nodes c) (lc_peer_nodes c)
                          \<union> lsa_listed_uuids (lc_lsa_snapshot c);
                outcomes = List.map_filter
                  (vouched_entry ce now (lc_hive_id c) peer_hive taken (wp_entries p)) (wp_entries p);
                kept = filter (\<lambda>(_, e). re_next_hop_hive e \<noteq> peer_hive) (lc_reachability c);
                duplicate = List.map_filter (\<lambda>r. case r of Inl name \<Rightarrow> Some name | Inr _ \<Rightarrow> None) outcomes;
                vouched = List.map_filter (\<lambda>r. case r of Inl _ \<Rightarrow> None | Inr e \<Rightarrow> Some e) outcomes;
                c = c \<lparr> lc_reachability := fold (\<lambda>(u, e). AList.update u e) vouched kept \<rparr>;
                c = (if duplicate = [] then c
                     else count_lsa_rejects LSA_REJECT_DUPLICATE_UUID (length duplicate) c)
            in rebuild_context_fib c)"


section \<open>Timers\<close>

definition stale_flags :: "nat \<Rightarrow> nat \<Rightarrow> remote_hive_state \<Rightarrow> flags" where
  "stale_flags now dead st =
     (if now - hs_last_updated st > dead
      then (if hs_flags st AND FLAG_STALE = 0 then hs_flags st OR FLAG_STALE else hs_flags st)
      else (if hs_flags st AND FLAG_STALE \<noteq> 0 then hs_flags st AND NOT FLAG_STALE else hs_flags st))"

definition mark_stale :: "nat \<Rightarrow> nat \<Rightarrow> lsa_state \<Rightarrow> lsa_state" where
  "mark_stale now dead st = map (\<lambda>(hive, s). (hive, s \<lparr> hs_flags := stale_flags now dead s \<rparr>)) st"

text \<open>One pass of \<^verbatim>\<open>lsa_stale_loop\<close>.\<close>

definition lsa_stale_tick :: "codec_env \<Rightarrow> nat \<Rightarrow> bool \<Rightarrow> lsa_context \<Rightarrow> lsa_context" where
  "lsa_stale_tick ce now readable c =
     (let st = mark_stale now (lc_dead_interval_ms c) (lc_lsa_state c);
          changed = (map (\<lambda>(_, s). hs_flags s) st \<noteq> map (\<lambda>(_, s). hs_flags s) (lc_lsa_state c));
          c = c \<lparr> lc_lsa_state := st \<rparr>;
          c = (if changed then write_lsa_state ce now readable c else c);
          table = filter (\<lambda>(_, e). now - re_last_updated e \<le> lc_dead_interval_ms c) (lc_reachability c);
          dropped = (length table \<noteq> length (lc_reachability c));
          c = c \<lparr> lc_reachability := table \<rparr>
      in if dropped then rebuild_context_fib c else c)"

text \<open>One pass of \<^verbatim>\<open>lsa_broadcast_loop\<close>: what it sends, and to which hives.\<close>

definition lsa_broadcast_tick ::
  "codec_env \<Rightarrow> nat \<Rightarrow> bool \<Rightarrow> lsa_context \<Rightarrow> lsa_context \<times> (str \<times> bytes) list" where
  "lsa_broadcast_tick ce now readable c =
     (let c = write_lsa_state ce now readable c;
          (c, advertised) = broadcast_lsa ce now None c
      in (c, advertised @ broadcast_reachability ce now c))"

definition refresh_lsa :: "bool \<Rightarrow> lsa_context \<Rightarrow> lsa_context" where
  "refresh_lsa readable c =
     (if readable then rebuild_context_fib (c \<lparr> lc_lsa_snapshot := Some (lc_region c) \<rparr>) else c)"

section \<open>Codecs\<close>

lemma parse_digits_snoc:
  "parse_digits acc (s @ [c]) =
   (case parse_digits acc s of
      None \<Rightarrow> None
    | Some v \<Rightarrow> (case digit c of None \<Rightarrow> None
                 | Some d \<Rightarrow> if v * 10 + d > u64_max then None else Some (v * 10 + d)))"
  by (induction s arbitrary: acc) (auto split: option.splits)

lemma digit_char [simp]: "d < 10 \<Longrightarrow> digit (char_of (48 + d)) = Some d"
  by (simp add: digit_def Let_def)

lemma parse_show_digits: "n \<le> u64_max \<Longrightarrow> parse_digits 0 (show_nat n) = Some n"
proof (induction n rule: show_nat.induct)
  case (1 n)
  show ?case
  proof (cases "n < 10")
    case True
    with 1 show ?thesis by (subst show_nat.simps) simp
  next
    case False
    moreover have "n div 10 \<le> u64_max" using 1(2) by linarith
    ultimately have "parse_digits 0 (show_nat (n div 10)) = Some (n div 10)" using 1(1) by simp
    moreover have "n div 10 * 10 + n mod 10 = n" by simp
    ultimately show ?thesis
      using False 1(2) by (subst show_nat.simps) (simp add: parse_digits_snoc)
  qed
qed

lemma show_nat_first: "\<exists>d s. show_nat n = char_of (48 + d :: nat) # s \<and> d < 10"
proof (induction n rule: show_nat.induct)
  case (1 n)
  show ?case
  proof (cases "n < 10")
    case True
    then show ?thesis by (intro exI [of _ n] exI [of _ "[]"]) (subst show_nat.simps, simp)
  next
    case False
    with 1 obtain d s where "show_nat (n div 10) = char_of (48 + d :: nat) # s" "d < 10" by blast
    with False show ?thesis
      by (intro exI [of _ d] exI [of _ "s @ [char_of (48 + n mod 10)]"]) (subst show_nat.simps, simp)
  qed
qed

lemma digit_not_plus: "d < 10 \<Longrightarrow> char_of (48 + d :: nat) \<noteq> CHR ''+''"
proof
  assume d: "d < 10" and eq: "char_of (48 + d :: nat) = CHR ''+''"
  from eq have "(of_char (char_of (48 + d :: nat) :: char) :: nat) = of_char (CHR ''+'')" by simp
  with d show False by simp
qed

lemma parse_show [simp]: "n \<le> u64_max \<Longrightarrow> parse_u64 (show_nat n) = Some n"
proof -
  assume n: "n \<le> u64_max"
  obtain d s where "show_nat n = char_of (48 + d :: nat) # s" "d < 10" using show_nat_first by blast
  with parse_show_digits [OF n] digit_not_plus show ?thesis by (auto simp: parse_u64_def)
qed

lemma label_round_trips:
  "k \<in> {MATCH_EXACT, MATCH_PREFIX, MATCH_GLOB} \<Longrightarrow> match_kind_from_label (match_kind_label k) = Some k"
  "a \<in> {ACTION_DROP, ACTION_FORWARD} \<Longrightarrow> action_from_label (action_label a) = Some a"
  "tap_mode_from_label (tap_mode_label m) = Some 0"
  by (auto simp: match_kind_label_def match_kind_from_label_def action_label_def action_from_label_def
      tap_mode_label_def to_ascii_uppercase_def MATCH_EXACT_def MATCH_PREFIX_def
      MATCH_GLOB_def ACTION_DROP_def ACTION_FORWARD_def) (code_simp+)?

text \<open>A name read back from a field of \<^verbatim>\<open>n\<close> bytes.\<close>

definition cut :: "nat \<Rightarrow> str \<Rightarrow> str" where
  "cut n s = from_utf8_or_empty (take n s)"

lemma bytes_to_string_copied [simp]: "bytes_to_string (copied n s) (copied_len n s) = cut n s"
  by (simp add: bytes_to_string_def copied_def copied_len_def cut_def min_def)

lemma cut_short: "cut n s = t \<Longrightarrow> t \<noteq> [] \<Longrightarrow> length t < n \<Longrightarrow> s = t"
  by (auto simp: cut_def from_utf8_or_empty_def split: if_splits)

lemma cut_fits [simp]: "utf8_valid s \<Longrightarrow> length s \<le> n \<Longrightarrow> cut n s = s"
  by (simp add: cut_def from_utf8_or_empty_def)


section \<open>Association lists\<close>

lemma alist_update_cases:
  "x \<in> set (AList.update k v al) \<Longrightarrow> x = (k, v) \<or> x \<in> set al"
  by (induction al) (auto split: if_splits)

lemma alist_update_keys: "fst ` set (AList.update k v al) = insert k (fst ` set al)"
  by (simp add: dom_update)

lemma map_of_distinct_update [simp]:
  "map_of (AList.update k v al) k' = (if k' = k then Some v else map_of al k')"
  by (simp add: update_conv')

lemma fold_update_cases:
  "x \<in> set (fold (\<lambda>(k, v). AList.update k v) kvs al) \<Longrightarrow> x \<in> set kvs \<or> x \<in> set al"
  by (induction kvs arbitrary: al) (auto dest!: alist_update_cases)

lemma fold_update_distinct:
  "distinct (map fst al) \<Longrightarrow> distinct (map fst (fold (\<lambda>(k, v). AList.update k v) kvs al))"
  by (induction kvs arbitrary: al) (auto simp: distinct_update)

section \<open>The invariant\<close>

definition buckets_sound :: "lsa_state \<Rightarrow> bool" where
  "buckets_sound st =
     (distinct (map fst st) \<and>
      (\<forall>(hive, s) \<in> set st. \<forall>n \<in> set (hs_nodes s). node_is_on_hive (ln_name n) hive))"

text \<open>What the region lists under a hive that can be used comes from a node named for that hive, both
  names cut to their fields.\<close>

definition region_sound :: "lsa_snapshot \<Rightarrow> bool" where
  "region_sound s =
     (length (ls_hives s) \<le> MAX_REMOTE_HIVES \<and>
      (\<forall>n \<in> set (ls_nodes s). rn_hive_index n < length (ls_hives s) \<and>
         (hive_usable (ls_hives s ! rn_hive_index n) \<longrightarrow>
            (\<exists>name hive. node_is_on_hive name hive \<and> node_name n = cut 256 name \<and>
               hive_name (ls_hives s ! rn_hive_index n) = cut 64 hive))))"

definition vouches_sound :: "str \<Rightarrow> reachability \<Rightarrow> bool" where
  "vouches_sound own r =
     (distinct (map fst r) \<and>
      (\<forall>(u, e) \<in> set r. re_name e \<noteq> [] \<and> re_origin_hive e \<noteq> own \<and>
         re_origin_hive e \<noteq> re_next_hop_hive e \<and> trim (re_next_hop_hive e) = PRIMARY_HIVE_ID))"

definition lsa_inv :: "lsa_context \<Rightarrow> bool" where
  "lsa_inv c =
     (buckets_sound (lc_lsa_state c) \<and> region_sound (lc_region c) \<and>
      (\<forall>s. lc_lsa_snapshot c = Some s \<longrightarrow> region_sound s) \<and>
      vouches_sound (lc_hive_id c) (lc_reachability c))"

lemma in_map_filter: "y \<in> set (List.map_filter f xs) \<longleftrightarrow> (\<exists>x \<in> set xs. f x = Some y)"
  by (induction xs) (auto simp: List.map_filter_simps split: option.splits)

lemma in_entries_of:
  "e \<in> set (entries_of f items hives) \<longleftrightarrow>
   (\<exists>i < length hives. \<exists>x \<in> set (items (snd (hives ! i))). f i x = Some e)"
proof -
  have "e \<in> set (entries_of f items hives) \<longleftrightarrow>
      (\<exists>p \<in> set (enumerate 0 hives). \<exists>x \<in> set (items (snd (snd p))). f (fst p) x = Some e)"
    by (simp add: entries_of_def in_map_filter case_prod_beta)
  also have "\<dots> \<longleftrightarrow> (\<exists>i < length hives. \<exists>x \<in> set (items (snd (hives ! i))). f i x = Some e)"
    by (auto simp: in_set_enumerate_eq Bex_def)
  finally show ?thesis .
qed

lemma node_entry_of_name:
  "node_entry_of ce i n = Some e \<Longrightarrow> node_name e = cut 256 (ln_name n) \<and> rn_hive_index e = as_u16 i"
  by (auto simp: node_entry_of_def node_name_def)

lemma hive_entry_of_name: "hive_name (hive_entry_of (hive, s)) = cut 64 hive"
  by (simp add: hive_entry_of_def hive_name_def)

lemma hive_entry_of_flags: "rh_flags (hive_entry_of (hive, s)) = hs_flags s"
  by (simp add: hive_entry_of_def)

lemma region_of_sound:
  assumes "region_fits (region_of ce (self # rest))" "buckets_sound rest"
    and "hs_flags (snd self) AND HIVE_FLAG_SELF \<noteq> 0"
  shows "region_sound (region_of ce (self # rest))"
proof -
  let ?hives = "self # rest"
  let ?s = "region_of ce ?hives"
  have len: "length ?hives \<le> MAX_REMOTE_HIVES" using assms(1) by (simp add: region_fits_def region_of_def)
  have "rn_hive_index n < length ?hives \<and>
      (hive_usable (ls_hives ?s ! rn_hive_index n) \<longrightarrow>
         (\<exists>name hive. node_is_on_hive name hive \<and> node_name n = cut 256 name \<and>
            hive_name (ls_hives ?s ! rn_hive_index n) = cut 64 hive))"
    if n: "n \<in> set (ls_nodes ?s)" for n
  proof -
    obtain i m where i: "i < length ?hives" and m: "m \<in> set (hs_nodes (snd (?hives ! i)))"
      and e: "node_entry_of ce i m = Some n"
      using n by (auto simp: region_of_def in_entries_of simp del: nth_Cons)
    have idx: "rn_hive_index n = i" and name: "node_name n = cut 256 (ln_name m)"
      using node_entry_of_name [OF e] i len by (auto simp: as_u16_def MAX_REMOTE_HIVES_def)
    have ith: "ls_hives ?s ! i = hive_entry_of (?hives ! i)"
      using i by (simp only: region_of_def lsa_snapshot.simps nth_map)
    obtain hive st where hs: "?hives ! i = (hive, st)" by (cases "?hives ! i")
    show ?thesis
    proof (cases i)
      case 0
      then have "\<not> hive_usable (ls_hives ?s ! i)"
        using assms(3) hs ith hive_entry_of_flags [of hive st]
        by (auto simp: hive_usable_def)
           (metis and.assoc and.commute and_zero_eq bit.conj_disj_distrib or_eq_0_iff)
      with idx i show ?thesis by simp
    next
      case (Suc j)
      then have "(hive, st) \<in> set rest" using hs i by (metis nth_Cons_Suc nth_mem length_Cons Suc_less_eq)
      then have "node_is_on_hive (ln_name m) hive" using assms(2) m hs by (auto simp: buckets_sound_def)
      then show ?thesis using idx i ith hs name hive_entry_of_name by metis
    qed
  qed
  with len show ?thesis by (simp add: region_sound_def region_of_def)
qed

lemma buckets_sound_filter: "buckets_sound st \<Longrightarrow> buckets_sound (filter P st)"
  by (auto simp: buckets_sound_def distinct_map_filter)

lemma buckets_sound_sort: "buckets_sound (sort_key f st) = buckets_sound st"
  by (simp add: buckets_sound_def distinct_map)

lemma write_lsa_state_sel [simp]:
  "lc_lsa_state (write_lsa_state ce now r c) = lc_lsa_state c"
  "lc_reachability (write_lsa_state ce now r c) = lc_reachability c"
  "lc_hive_id (write_lsa_state ce now r c) = lc_hive_id c"
  "lc_dead_interval_ms (write_lsa_state ce now r c) = lc_dead_interval_ms c"
  by (simp_all add: write_lsa_state_def Let_def)

lemma write_lsa_state_inv: "lsa_inv c \<Longrightarrow> lsa_inv (write_lsa_state ce now readable c)"
proof -
  assume inv: "lsa_inv c"
  let ?r = "region_of ce (region_hives ce now c)"
  have "region_sound ?r" if "region_fits ?r"
    using that inv unfolding region_hives_def
    by (intro region_of_sound)
       (auto simp: lsa_inv_def buckets_sound_sort buckets_sound_filter self_state_def Let_def
         FLAG_ACTIVE_def HIVE_FLAG_SELF_def)
  with inv show ?thesis by (auto simp: lsa_inv_def write_lsa_state_def Let_def)
qed

section \<open>Every step keeps it\<close>

lemma session_entry_sel [simp]:
  "hs_session_epoch (session_entry hive epoch st) = epoch"
  "hs_nodes (session_entry hive epoch st) = hs_nodes (unwrap_or remote_hive_state_default (map_of st hive))"
  by (simp_all add: session_entry_def Let_def)

lemma applied_entry_sel [simp]:
  "hs_nodes (applied_entry ce now local hive ru pn p entry) = bucket_nodes ce hive local (lp_nodes p)"
  "hs_last_seq (applied_entry ce now local hive ru pn p entry) = lp_seq p"
  "hs_session_epoch (applied_entry ce now local hive ru pn p entry) = hs_session_epoch entry"
  by (simp_all add: applied_entry_def)

lemma apply_lsa_payload_state:
  "snd (apply_lsa_payload ce now local hive pu pn epoch p st) =
   (if lp_hive p \<noteq> hive then st
    else AList.update hive
      (case payload_router ce pu p of
         Some ru \<Rightarrow>
           if lp_seq p \<le> hs_last_seq (session_entry hive epoch st) then session_entry hive epoch st
           else applied_entry ce now local hive ru pn p (session_entry hive epoch st)
       | None \<Rightarrow> session_entry hive epoch st) st)"
  by (simp add: apply_lsa_payload_def Let_def split: option.splits)

lemma update_sound:
  assumes "buckets_sound st" "\<forall>n \<in> set (hs_nodes entry). node_is_on_hive (ln_name n) hive"
  shows "buckets_sound (AList.update hive entry st)"
  using assms by (auto simp: buckets_sound_def distinct_update dest!: alist_update_cases)

lemma apply_lsa_payload_sound:
  assumes "buckets_sound st"
  shows "buckets_sound (snd (apply_lsa_payload ce now local hive pu pn epoch p st))"
proof -
  have "node_is_on_hive (ln_name n) hive" if "n \<in> set (hs_nodes (session_entry hive epoch st))" for n
    using that assms
    by (cases "map_of st hive")
       (auto simp: remote_hive_state_default_def buckets_sound_def dest: map_of_SomeD)
  moreover have "node_is_on_hive (ln_name n) hive" if "n \<in> set (bucket_nodes ce hive local (lp_nodes p))" for n
    using that by (simp add: bucket_nodes_def)
  ultimately show ?thesis
    using assms by (auto simp: apply_lsa_payload_state split: option.splits intro!: update_sound)
qed

lemma count_lsa_rejects_inv [simp]: "lsa_inv (count_lsa_rejects reason k c) = lsa_inv c"
  by (simp add: lsa_inv_def count_lsa_rejects_def)

lemma bump_lsa_reject_counter_inv [simp]: "lsa_inv (bump_lsa_reject_counter reason c) = lsa_inv c"
  by (simp add: bump_lsa_reject_counter_def)

lemma rebuild_context_fib_inv [simp]: "lsa_inv (rebuild_context_fib c) = lsa_inv c"
  by (simp add: lsa_inv_def rebuild_context_fib_def)

lemma receive_lsa_inv:
  assumes "lsa_inv c"
  shows "lsa_inv (receive_lsa ce now readable peer_hive pu pn epoch payload c)"
proof (cases "ce_lsa_of ce payload")
  case (Some p)
  obtain result st where a: "apply_lsa_payload ce now (local_node_uuids (lc_nodes c) (lc_peer_nodes c))
      peer_hive pu pn epoch p (lc_lsa_state c) = (result, st)" by force
  have "buckets_sound st" using apply_lsa_payload_sound assms a by (metis lsa_inv_def snd_conv)
  then have "lsa_inv (c \<lparr> lc_lsa_state := st \<rparr>)" using assms by (simp add: lsa_inv_def)
  then show ?thesis
    using Some a by (auto simp: receive_lsa_def Let_def write_lsa_state_inv split: lsa_apply_result.splits)
qed (use assms in \<open>simp add: receive_lsa_def\<close>)

lemma vouched_entryD:
  "vouched_entry ce now own peer taken es e = Some (Inr (u, r)) \<Longrightarrow>
   ce_parse_uuid ce (we_uuid e) = Some u \<and> u \<notin> taken \<and> we_hive_id e \<noteq> own \<and> we_hive_id e \<noteq> peer \<and>
   we_name e \<noteq> [] \<and> length (filter (\<lambda>e'. ce_parse_uuid ce (we_uuid e') = Some u) es) \<le> 1 \<and>
   r = \<lparr> re_name = we_name e, re_origin_hive = we_hive_id e, re_next_hop_hive = peer,
         re_vpn_id = we_vpn_id e, re_last_updated = now \<rparr>"
  by (auto simp: vouched_entry_def split: option.splits if_splits)

definition vouched_now ::
  "codec_env \<Rightarrow> nat \<Rightarrow> str \<Rightarrow> wan_reachability_payload \<Rightarrow> lsa_context \<Rightarrow> (uuid \<times> reachability_entry) list" where
  "vouched_now ce now peer p c =
     List.map_filter (\<lambda>r. case r of Inl _ \<Rightarrow> None | Inr e \<Rightarrow> Some e)
       (List.map_filter (vouched_entry ce now (lc_hive_id c) peer
          (local_node_uuids (lc_nodes c) (lc_peer_nodes c) \<union> lsa_listed_uuids (lc_lsa_snapshot c))
          (wp_entries p)) (wp_entries p))"

lemma apply_wan_reachability_table:
  assumes "apply_wan_reachability eval ce now peer payload c \<noteq> c"
  shows "wan_reachability_voucher_allowed eval peer \<and>
    (\<exists>p. ce_reach_of ce payload = Some p \<and> wp_origin_hive p = peer \<and>
       lc_reachability (apply_wan_reachability eval ce now peer payload c) =
         fold (\<lambda>(u, e). AList.update u e) (vouched_now ce now peer p c)
           (filter (\<lambda>(_, e). re_next_hop_hive e \<noteq> peer) (lc_reachability c)) \<and>
       lsa_inv (apply_wan_reachability eval ce now peer payload c) =
         lsa_inv (c \<lparr> lc_reachability :=
           lc_reachability (apply_wan_reachability eval ce now peer payload c) \<rparr>))"
  using assms
  by (auto simp: apply_wan_reachability_def vouched_now_def Let_def rebuild_context_fib_def
      count_lsa_rejects_def lsa_inv_def split: option.splits if_splits)

lemma in_rights:
  "y \<in> set (List.map_filter (\<lambda>r. case r of Inl _ \<Rightarrow> None | Inr e \<Rightarrow> Some e) rs) \<longleftrightarrow> Inr y \<in> set rs"
  by (induction rs) (auto simp: List.map_filter_simps split: sum.splits)

lemma in_vouched_now:
  "(u, r) \<in> set (vouched_now ce now peer p c) \<longleftrightarrow>
   (\<exists>e \<in> set (wp_entries p). vouched_entry ce now (lc_hive_id c) peer
      (local_node_uuids (lc_nodes c) (lc_peer_nodes c) \<union> lsa_listed_uuids (lc_lsa_snapshot c))
      (wp_entries p) e = Some (Inr (u, r)))"
  unfolding vouched_now_def in_rights by (simp add: in_map_filter)

lemma apply_wan_reachability_inv:
  assumes "lsa_inv c" "policy_faithful eval"
  shows "lsa_inv (apply_wan_reachability eval ce now peer payload c)"
proof (cases "apply_wan_reachability eval ce now peer payload c = c")
  case False
  note t = apply_wan_reachability_table [OF False]
  then obtain p where table: "lc_reachability (apply_wan_reachability eval ce now peer payload c) =
      fold (\<lambda>(u, e). AList.update u e) (vouched_now ce now peer p c)
        (filter (\<lambda>(_, e). re_next_hop_hive e \<noteq> peer) (lc_reachability c))" (is "_ = ?table") by blast
  have hub: "trim peer = PRIMARY_HIVE_ID"
    using voucher_is_hub [OF assms(2)] t by (simp add: PRIMARY_HIVE_ID_def)
  have old: "vouches_sound (lc_hive_id c) (lc_reachability c)" using assms(1) by (simp add: lsa_inv_def)
  have "vouches_sound (lc_hive_id c) ?table"
    unfolding vouches_sound_def
  proof (intro conjI ballI)
    show "distinct (map fst ?table)"
      using old by (intro fold_update_distinct) (simp add: vouches_sound_def distinct_map_filter)
    fix x
    assume "x \<in> set ?table"
    then consider "x \<in> set (vouched_now ce now peer p c)" | "x \<in> set (lc_reachability c)"
      by (auto dest: fold_update_cases)
    then show "case x of (u, e) \<Rightarrow> re_name e \<noteq> [] \<and> re_origin_hive e \<noteq> lc_hive_id c \<and>
        re_origin_hive e \<noteq> re_next_hop_hive e \<and> trim (re_next_hop_hive e) = PRIMARY_HIVE_ID"
      using old hub by cases (auto simp: in_vouched_now vouches_sound_def dest!: vouched_entryD)
  qed
  with assms(1) t table show ?thesis by (auto simp: lsa_inv_def)
qed (use assms in simp)

lemma mark_stale_sound: "buckets_sound (mark_stale now dead st) = buckets_sound st"
proof -
  have keys: "fst \<circ> (\<lambda>(hive, s). (hive, s \<lparr> hs_flags := stale_flags now dead s \<rparr>)) = fst" by auto
  show ?thesis by (auto simp: mark_stale_def buckets_sound_def keys)
qed

lemma lsa_stale_tick_inv: "lsa_inv c \<Longrightarrow> lsa_inv (lsa_stale_tick ce now readable c)"
proof -
  assume inv: "lsa_inv c"
  let ?c = "c \<lparr> lc_lsa_state := mark_stale now (lc_dead_interval_ms c) (lc_lsa_state c) \<rparr>"
  have "lsa_inv ?c" using inv by (simp add: lsa_inv_def mark_stale_sound)
  moreover from this have "lsa_inv (write_lsa_state ce now readable ?c)" by (rule write_lsa_state_inv)
  moreover have "lsa_inv (d \<lparr> lc_reachability := filter P (lc_reachability d) \<rparr>)" if "lsa_inv d" for d P
    using that by (auto simp: lsa_inv_def vouches_sound_def distinct_map_filter)
  ultimately show ?thesis by (simp add: lsa_stale_tick_def Let_def)
qed

lemma broadcast_lsa_inv: "lsa_inv c \<Longrightarrow> lsa_inv (fst (broadcast_lsa ce now target c))"
  by (simp add: broadcast_lsa_def Let_def lsa_inv_def)

lemma lsa_broadcast_tick_inv: "lsa_inv c \<Longrightarrow> lsa_inv (fst (lsa_broadcast_tick ce now readable c))"
  using broadcast_lsa_inv [OF write_lsa_state_inv]
  by (simp add: lsa_broadcast_tick_def Let_def case_prod_beta)

lemma refresh_lsa_inv: "lsa_inv c \<Longrightarrow> lsa_inv (refresh_lsa readable c)"
  by (simp add: refresh_lsa_def lsa_inv_def rebuild_context_fib_def)

section \<open>The exchange as a state machine\<close>

text \<open>A restart keeps the region and nothing else.  The other tasks of the router change its nodes,
  its routes and rules, its peers and its table at any time.\<close>

definition restarted :: "lsa_context \<Rightarrow> lsa_context" where
  "restarted c =
     c \<lparr> lc_nodes := [], lc_peer_nodes := [], lc_wan_peers := [], lc_lsa_state := [], lc_lsa_seq := 0,
         lc_reachability := [], lc_lsa_snapshot := None, lc_fib := [], lc_lsa_reject_counters := [] \<rparr>"

inductive lsa_step :: "policy_eval \<Rightarrow> codec_env \<Rightarrow> lsa_context \<Rightarrow> lsa_context \<Rightarrow> bool"
  for eval :: policy_eval and ce :: codec_env where
  Receive: "lsa_step eval ce c (receive_lsa ce now readable peer_hive pu pn epoch payload c)"
| Vouch: "lsa_step eval ce c (apply_wan_reachability eval ce now peer_hive payload c)"
| Stale: "lsa_step eval ce c (lsa_stale_tick ce now readable c)"
| Beacon: "lsa_step eval ce c (fst (lsa_broadcast_tick ce now readable c))"
| Greet: "lsa_step eval ce c (fst (broadcast_lsa ce now target c))"
| Refresh: "lsa_step eval ce c (refresh_lsa readable c)"
| Restart: "lsa_step eval ce c (restarted c)"
| Others: "lsa_step eval ce c
    (c \<lparr> lc_nodes := ns, lc_peer_nodes := ps, lc_static_routes := rs, lc_vpn_rules := vs,
         lc_tap_rules := ts, lc_wan_peers := ws, lc_fib := fib \<rparr>)"

definition lsa_start :: "lsa_context \<Rightarrow> bool" where
  "lsa_start c =
     (lc_lsa_state c = [] \<and> lc_reachability c = [] \<and> lc_lsa_snapshot c = None \<and>
      ls_hives (lc_region c) = [] \<and> ls_nodes (lc_region c) = [])"

lemma lsa_start_inv: "lsa_start c \<Longrightarrow> lsa_inv c"
  by (simp add: lsa_start_def lsa_inv_def buckets_sound_def vouches_sound_def region_sound_def)

lemma lsa_step_inv:
  assumes "lsa_step eval ce c c'" "lsa_inv c" "policy_faithful eval"
  shows "lsa_inv c'"
  using assms
proof (induction rule: lsa_step.induct)
  case Restart
  then show ?case by (simp add: restarted_def lsa_inv_def buckets_sound_def vouches_sound_def)
next
  case Others
  then show ?case by (simp add: lsa_inv_def)
qed (simp_all add: receive_lsa_inv apply_wan_reachability_inv lsa_stale_tick_inv lsa_broadcast_tick_inv
      broadcast_lsa_inv refresh_lsa_inv)

interpretation lsa: step_invariant "\<lambda>c. policy_faithful eval \<and> lsa_start c" "lsa_step eval ce"
    "\<lambda>c. policy_faithful eval \<and> lsa_inv c"
  for eval ce
  by unfold_locales (auto intro: lsa_start_inv lsa_step_inv)

lemma reach_init_mono: "reach init step s \<Longrightarrow> (\<And>x. init x \<Longrightarrow> init' x) \<Longrightarrow> reach init' step s"
  by (induction rule: reach.induct) (auto intro: reach.intros)

lemma reach_lsa_inv:
  assumes "policy_faithful eval" "reach lsa_start (lsa_step eval ce) c"
  shows "lsa_inv c"
proof -
  have "reach (\<lambda>c. policy_faithful eval \<and> lsa_start c) (lsa_step eval ce) c"
    using assms by (auto intro: reach_init_mono)
  then show ?thesis by (rule conjunct2 [OF lsa.reach_inv])
qed

lemma of_hiveD:
  assumes "of_hive g s i" "length (ls_hives s) \<le> 65536"
  shows "i < length (ls_hives s) \<and> hive_usable (ls_hives s ! i) \<and> hive_name (ls_hives s ! i) = g"
  using assms by (auto simp: of_hive_def fib_hives_def in_set_enumerate_eq dest!: map_of_SomeD)

lemma region_names_on_hive:
  assumes "region_sound s" "n \<in> set (ls_nodes s)" "of_hive g s (rn_hive_index n)"
    and "node_name n = target" "target \<noteq> []" "length target < 256" "g \<noteq> []" "length g < 64"
  shows "node_is_on_hive target g"
proof -
  have len: "length (ls_hives s) \<le> 65536"
    using assms(1) by (simp add: region_sound_def MAX_REMOTE_HIVES_def)
  note g = of_hiveD [OF assms(3) len]
  then obtain name hive where "node_is_on_hive name hive" "node_name n = cut 256 name" "g = cut 64 hive"
    using assms(1,2) by (auto simp: region_sound_def)
  with assms(4-8) show ?thesis by (metis cut_short)
qed


section \<open>Properties\<close>

text \<open>C8: a hive cannot interfere with another hive's names.  In every state the exchange reaches,
  whatever advertisements a peer hive sent, all it advertised, nodes and routes, can be struck from the
  region without changing how a name that is not on that hive resolves.  Names shorter than the fields of the
  region are not cut by it.\<close>

theorem hive_cannot_interfere:
  assumes "policy_faithful eval" "reach lsa_start (lsa_step eval ce) c" "lc_lsa_snapshot c = Some s"
    and "\<not> node_is_on_hive target g" "\<not> ends_with target ''@*''"
    and "target \<noteq> []" "length target < 256" "g \<noteq> []" "length g < 64"
  shows "resolve_by_name target src nodes
      (rebuild_fib nodes peer_nodes static_routes (Some s) reachability) meta =
    resolve_by_name target src nodes
      (rebuild_fib nodes peer_nodes static_routes (Some (without_hive g s)) reachability) meta"
proof (rule resolve_without_hive [OF _ assms(4,5)])
  have "region_sound s" using reach_lsa_inv [OF assms(1,2)] assms(3) by (simp add: lsa_inv_def)
  then show "\<forall>n \<in> set (ls_nodes s). node_usable n \<and> of_hive g s (rn_hive_index n) \<longrightarrow> node_name n \<noteq> target"
    using region_names_on_hive assms(4,6-9) by blast
qed

definition demo_codec :: "lsa_payload \<Rightarrow> codec_env" where
  "demo_codec p =
     \<lparr> ce_parse_uuid = Some, ce_show_uuid = (\<lambda>u. u), ce_trace = (\<lambda>_. ''t''), ce_to_vec = (\<lambda>_. Some []),
       ce_lsa_json = (\<lambda>_. JNull), ce_lsa_of = (\<lambda>_. Some p), ce_reach_json = (\<lambda>_. JNull),
       ce_reach_of = (\<lambda>_. None) \<rparr>"

definition demo_payload :: lsa_payload where
  "demo_payload =
     \<lparr> lp_hive = ''w1'', lp_router_id = [], lp_router_name = ''RT.gateway@w1'', lp_seq = 1,
       lp_timestamp = [],
       lp_nodes = [\<lparr> ln_uuid = ''u1'', ln_name = ''AI.a@w1'', ln_vpn_id = 0 \<rparr>,
                   \<lparr> ln_uuid = ''u2'', ln_name = ''SY.admin@m'', ln_vpn_id = 0 \<rparr>],
       lp_routes = [\<lparr> lr_prefix = ''SY.admin@m'', lr_match_kind = ''EXACT'', lr_action = ''DROP'',
                      lr_next_hop_hive = [], lr_metric = 0 \<rparr>],
       lp_vpns = [], lp_taps = [] \<rparr>"

definition demo_context :: lsa_context where
  "demo_context =
     \<lparr> lc_router_uuid = ''r'', lc_router_name = ''RT.gateway@m'', lc_hive_id = ''m'',
       lc_dead_interval_ms = 10, lc_nodes = [], lc_peer_nodes = [], lc_static_routes = [],
       lc_vpn_rules = [], lc_tap_rules = [], lc_wan_peers = [(''w1'', ''r1''), (''w2'', ''r2'')], lc_lsa_state = [],
       lc_lsa_seq = 0, lc_reachability = [], lc_lsa_writer = True,
       lc_region = \<lparr> ls_hives = [], ls_nodes = [], ls_routes = [], ls_vpns = [], ls_taps = [] \<rparr>,
       lc_lsa_snapshot = None, lc_fib = [], lc_lsa_reject_counters = [] \<rparr>"

definition demo_received :: lsa_context where
  "demo_received = receive_lsa (demo_codec demo_payload) 5 True ''w1'' ''r1'' [] 1 JNull demo_context"

lemma demo_received_reached:
  "reach lsa_start (lsa_step eval (demo_codec demo_payload)) demo_received"
proof -
  have "lsa_start demo_context" by (simp add: lsa_start_def demo_context_def)
  then have "reach lsa_start (lsa_step eval (demo_codec demo_payload)) demo_context" by (rule reach.start)
  then show ?thesis unfolding demo_received_def by (rule reach.move) (rule Receive)
qed

lemma demo_received_snapshot:
  "\<exists>s. lc_lsa_snapshot demo_received = Some s \<and> length (ls_nodes s) = 1 \<and> length (ls_routes s) = 1"
proof -
  have on: "node_is_on_hive ''AI.a@w1'' ''w1''" "\<not> node_is_on_hive ''SY.admin@m'' ''w1''"
    "match_kind_from_label ''EXACT'' = Some MATCH_EXACT" "action_from_label ''DROP'' = Some ACTION_DROP"
    by code_simp+
  show ?thesis
    by (simp add: Let_def demo_received_def receive_lsa_def demo_codec_def demo_payload_def demo_context_def on
        apply_lsa_payload_def session_entry_def payload_router_def remote_hive_state_default_def
        applied_entry_def bucket_nodes_def uuid_in_def local_node_uuids_def listed_elsewhere_def
        parsed_uuids_def List.map_filter_simps
        count_lsa_rejects_def write_lsa_state_def region_hives_def self_state_def
        build_local_lsa_payload_def lsa_node_map_def region_of_def entries_of_def node_entry_of_def
        route_entry_of_def region_fits_def MAX_REMOTE_HIVES_def MAX_REMOTE_NODES_def
        MAX_REMOTE_ROUTES_def)
qed

theorem hive_cannot_interfere_witness:
  "\<exists>s. lc_lsa_snapshot demo_received = Some s \<and> length (ls_nodes s) = 1 \<and> length (ls_routes s) = 1 \<and>
     resolve_by_name ''SY.admin@m'' demo_src [] (rebuild_fib [] [] [] (Some s) []) meta_default =
     resolve_by_name ''SY.admin@m'' demo_src [] (rebuild_fib [] [] [] (Some (without_hive ''w1'' s)) []) meta_default"
proof -
  obtain s where s: "lc_lsa_snapshot demo_received = Some s" "length (ls_nodes s) = 1" "length (ls_routes s) = 1"
    using demo_received_snapshot by blast
  have "\<not> node_is_on_hive ''SY.admin@m'' ''w1''" "\<not> ends_with ''SY.admin@m'' ''@*''" by code_simp+
  then show ?thesis
    using s hive_cannot_interfere [OF rego_eval_faithful demo_received_reached s(1), of "''SY.admin@m''" "''w1''"]
    by simp
qed


definition demo_vouch :: wan_reachability_payload where
  "demo_vouch =
     \<lparr> wp_origin_hive = ''motherbee'', wp_router_id = [], wp_router_name = [], wp_seq = 1,
       wp_timestamp = [],
       wp_entries = [\<lparr> we_uuid = ''u2'', we_name = ''AI.b@w2'', we_hive_id = ''w2'', we_vpn_id = 0 \<rparr>,
                     \<lparr> we_uuid = ''u1'', we_name = ''AI.a@w2'', we_hive_id = ''w2'', we_vpn_id = 0 \<rparr>] \<rparr>"

definition demo_spoke :: lsa_context where
  "demo_spoke = demo_context \<lparr> lc_hive_id := ''w1'',
     lc_nodes := [(''u1'', \<lparr> nh_name = ''AI.a@w1'', nh_vpn_id = 0, nh_connected_at = 0 \<rparr>)] \<rparr>"

definition demo_vouch_codec :: codec_env where
  "demo_vouch_codec = (demo_codec demo_payload) \<lparr> ce_reach_of := (\<lambda>_. Some demo_vouch) \<rparr>"


definition bucket_content :: "remote_hive_state \<Rightarrow>
    lsa_node list \<times> lsa_route list \<times> lsa_vpn list \<times> lsa_tap list" where
  "bucket_content s = (hs_nodes s, hs_routes s, hs_vpns s, hs_taps s)"



fun accepted :: "codec_env \<Rightarrow> uuid set \<Rightarrow> (str \<Rightarrow> nat) \<Rightarrow> (nat \<times> str \<times> lsa_payload) list \<Rightarrow> lsa_state \<Rightarrow>
    (str \<times> nat) list" where
  "accepted ce local epoch [] st = []"
| "accepted ce local epoch ((now, hive, p) # rest) st =
     (let (result, st') = apply_lsa_payload ce now local hive [] [] (epoch hive) p st
      in (case result of LsaApplied _ _ \<Rightarrow> [(hive, lp_seq p)] | LsaRejected _ _ _ _ _ \<Rightarrow> [])
         @ accepted ce local epoch rest st')"

lemma session_entry_update:
  "session_entry h epoch (AList.update hive entry st) =
   (if h = hive then (if hs_session_epoch entry \<noteq> epoch
      then entry \<lparr> hs_session_epoch := epoch, hs_last_seq := 0 \<rparr> else entry)
    else session_entry h epoch st)"
  by (simp add: session_entry_def Let_def)

lemma last_seq_after:
  fixes st :: lsa_state
  assumes "apply_lsa_payload ce now local hive pu pn (epoch hive) p st = (result, st')"
  shows "hs_last_seq (session_entry h (epoch h) st') =
    (case result of
       LsaApplied _ _ \<Rightarrow> if h = hive then lp_seq p else hs_last_seq (session_entry h (epoch h) st)
     | LsaRejected _ _ _ _ _ \<Rightarrow> hs_last_seq (session_entry h (epoch h) st))"
    and "result = LsaApplied f d \<Longrightarrow> hs_last_seq (session_entry hive (epoch hive) st) < lp_seq p"
  using assms
  by (auto simp: apply_lsa_payload_def Let_def session_entry_update split: option.splits if_splits)

lemma accepted_above:
  "(h, n) \<in> set (accepted ce local epoch ps st) \<Longrightarrow> hs_last_seq (session_entry h (epoch h) st) < n"
proof (induction ps arbitrary: st)
  case (Cons x ps)
  obtain now hive p where x: "x = (now, hive, p)" by (cases x)
  obtain result st' where a: "apply_lsa_payload ce now local hive [] [] (epoch hive) p st = (result, st')"
    by force
  note seq = last_seq_after(1) [where epoch = epoch and h = h, OF a] last_seq_after(2) [where epoch = epoch, OF a]
  show ?case
  proof (cases "(h, n) \<in> set (accepted ce local epoch ps st')")
    case True
    from Cons.IH [OF this] show ?thesis
      using seq by (auto split: lsa_apply_result.splits if_splits)
  next
    case False
    with Cons.prems x a have "\<exists>f d. result = LsaApplied f d" "h = hive" "n = lp_seq p"
      by (auto split: lsa_apply_result.splits)
    with seq(2) show ?thesis by auto
  qed
qed simp

text \<open>C22: no advertisement is applied twice.  While the sessions last, whatever advertisements arrive, of
  whatever hives and in whatever order, those applied for a hive have strictly increasing numbers: a
  replayed or reordered one is refused.\<close>

theorem lsa_not_replayed:
  "sorted_wrt (<) (map snd (filter (\<lambda>(h, _). h = hive) (accepted ce local epoch ps st)))"
proof (induction ps arbitrary: st)
  case (Cons x ps)
  obtain now h p where x: "x = (now, h, p)" by (cases x)
  obtain result st' where a: "apply_lsa_payload ce now local h [] [] (epoch h) p st = (result, st')"
    by force
  have "lp_seq p < n" if "(h, n) \<in> set (accepted ce local epoch ps st')" "result = LsaApplied f d" for n f d
    using accepted_above [OF that(1)] last_seq_after(1) [where epoch = epoch and h = h, OF a] that(2) by simp
  then show ?case using Cons.IH [of st'] x a by (auto split: lsa_apply_result.splits)
qed simp

lemma contested_if_two:
  assumes "distinct (map fst st)" "(h1, s1) \<in> set st" "(h2, s2) \<in> set st" "h1 \<noteq> h2"
    and "u \<in> parsed_uuids ce (hs_nodes s1)" "u \<in> parsed_uuids ce (hs_nodes s2)"
  shows "u \<in> contested_uuids ce st"
proof -
  let ?P = "\<lambda>x :: str \<times> remote_hive_state. u \<in> parsed_uuids ce (hs_nodes (snd x))"
  have "distinct (filter ?P st)" using assms(1) by (simp add: distinct_map)
  then have "length (filter ?P st) = card (set (filter ?P st))" by (rule distinct_card [symmetric])
  moreover have "{(h1, s1), (h2, s2)} \<subseteq> set (filter ?P st)" using assms by auto
  then have "card {(h1, s1), (h2, s2)} \<le> card (set (filter ?P st))" by (intro card_mono) auto
  ultimately have "length (filter ?P st) > 1" using assms(4) by simp
  then have "length (filter (\<lambda>us. u \<in> us) (map (\<lambda>(_, s). parsed_uuids ce (hs_nodes s)) st)) > 1"
    by (simp add: filter_map comp_def case_prod_beta)
  with assms show ?thesis by (force simp: contested_uuids_def)
qed

lemma in_reachability_entries:
  "e \<in> set (reachability_entries ce st target) \<longleftrightarrow>
   (\<exists>(origin, s) \<in> set st. hs_flags s AND FLAG_STALE = 0 \<and> origin \<noteq> target \<and>
      (\<exists>n \<in> set (hs_nodes s). \<not> uuid_in ce (contested_uuids ce st) n \<and>
         e = \<lparr> we_uuid = ln_uuid n, we_name = ln_name n, we_hive_id = origin, we_vpn_id = ln_vpn_id n \<rparr>))"
  by (auto simp: reachability_entries_def image_iff Bex_def split: if_splits)

text \<open>What the hub tells a spoke.  Each message goes to a peer; it vouches, in this hive's own name, only for
  nodes that hives other than that peer advertised, whose advertisement is not stale and whose UUID no
  other hive lists; and a router with fewer than two peers vouches for nothing.\<close>

theorem hub_vouches_split_horizon:
  assumes "(target, data) \<in> set (broadcast_reachability ce now c)" "distinct (map fst (lc_lsa_state c))"
  shows "length (lc_wan_peers c) \<ge> 2 \<and>
    (\<exists>router p. (target, router) \<in> set (lc_wan_peers c) \<and> wp_origin_hive p = lc_hive_id c \<and> wp_entries p \<noteq> [] \<and>
       ce_to_vec ce (build_wan_reachability (ce_show_uuid ce (lc_router_uuid c)) (ce_show_uuid ce router)
         (ce_show_uuid ce (ce_trace ce target)) (ce_reach_json ce p)) = Some data \<and>
       (\<forall>e \<in> set (wp_entries p). we_hive_id e \<noteq> target \<and>
          (\<exists>s. map_of (lc_lsa_state c) (we_hive_id e) = Some s \<and> hs_flags s AND FLAG_STALE = 0 \<and>
             (\<exists>n \<in> set (hs_nodes s). ln_uuid n = we_uuid e \<and> ln_name n = we_name e)) \<and>
          (\<forall>(h, s) \<in> set (lc_lsa_state c). h \<noteq> we_hive_id e \<longrightarrow>
             (\<forall>u \<in> parsed_uuids ce (hs_nodes s). ce_parse_uuid ce (we_uuid e) \<noteq> Some u))))"
proof -
  let ?p = "reachability_payload ce now c target"
  let ?st = "lc_lsa_state c"
  obtain router where r: "(target, router) \<in> set (lc_wan_peers c)" "wp_entries ?p \<noteq> []"
    "ce_to_vec ce (build_wan_reachability (ce_show_uuid ce (lc_router_uuid c)) (ce_show_uuid ce router)
       (ce_show_uuid ce (ce_trace ce target)) (ce_reach_json ce ?p)) = Some data"
    and two: "length (lc_wan_peers c) \<ge> 2"
    using assms(1) by (auto simp: broadcast_reachability_def in_map_filter Let_def split: if_splits)
  have entry: "we_hive_id e \<noteq> target \<and>
      (\<exists>s. map_of ?st (we_hive_id e) = Some s \<and> hs_flags s AND FLAG_STALE = 0 \<and>
         (\<exists>n \<in> set (hs_nodes s). ln_uuid n = we_uuid e \<and> ln_name n = we_name e)) \<and>
      (\<forall>(h, s) \<in> set ?st. h \<noteq> we_hive_id e \<longrightarrow>
         (\<forall>u \<in> parsed_uuids ce (hs_nodes s). ce_parse_uuid ce (we_uuid e) \<noteq> Some u))"
    if e_in: "e \<in> set (wp_entries ?p)" for e
  proof -
    obtain origin s n where s: "(origin, s) \<in> set ?st" "hs_flags s AND FLAG_STALE = 0" "origin \<noteq> target"
      and n: "n \<in> set (hs_nodes s)" "\<not> uuid_in ce (contested_uuids ce ?st) n"
      and e: "e = \<lparr> we_uuid = ln_uuid n, we_name = ln_name n, we_hive_id = origin, we_vpn_id = ln_vpn_id n \<rparr>"
      using e_in by (auto simp: reachability_payload_def in_reachability_entries)
    have "ce_parse_uuid ce (we_uuid e) \<noteq> Some u"
      if h: "(h, s') \<in> set ?st" "h \<noteq> origin" "u \<in> parsed_uuids ce (hs_nodes s')" for h s' u
    proof
      assume parse: "ce_parse_uuid ce (we_uuid e) = Some u"
      then have "u \<in> parsed_uuids ce (hs_nodes s)" using n(1) e by (auto simp: parsed_uuids_def in_map_filter)
      then have "u \<in> contested_uuids ce ?st" using contested_if_two [OF assms(2) s(1) h(1)] h by blast
      with n(2) parse e show False by (simp add: uuid_in_def)
    qed
    then show ?thesis using s n(1) e assms(2) by auto
  qed
  show ?thesis
    using two r entry by (intro conjI exI [of _ router] exI [of _ ?p]) (auto simp: reachability_payload_def)
qed

definition demo_hub :: lsa_context where
  "demo_hub = demo_context \<lparr> lc_lsa_state :=
     [(''w1'', remote_hive_state_default \<lparr> hs_nodes :=
         [\<lparr> ln_uuid = ''u1'', ln_name = ''AI.a@w1'', ln_vpn_id = 0 \<rparr>,
          \<lparr> ln_uuid = ''u3'', ln_name = ''AI.c@w1'', ln_vpn_id = 0 \<rparr>] \<rparr>),
      (''w2'', remote_hive_state_default \<lparr> hs_nodes :=
         [\<lparr> ln_uuid = ''u3'', ln_name = ''AI.c@w2'', ln_vpn_id = 0 \<rparr>] \<rparr>)] \<rparr>"

theorem hub_vouches_split_horizon_witness:
  "broadcast_reachability (demo_codec demo_payload) 5 demo_hub = [(''w2'', [])] \<and>
   distinct (map fst (lc_lsa_state demo_hub)) \<and> length (lc_wan_peers demo_hub) \<ge> 2"
proof -
  have contested: "contested_uuids (demo_codec demo_payload) (lc_lsa_state demo_hub) = {''u3''}"
    by (auto simp: contested_uuids_def demo_hub_def parsed_uuids_def demo_codec_def List.map_filter_simps)
  have entries: "reachability_entries (demo_codec demo_payload) (lc_lsa_state demo_hub) ''w1'' = []"
    "reachability_entries (demo_codec demo_payload) (lc_lsa_state demo_hub) ''w2'' \<noteq> []"
    unfolding reachability_entries_def contested
    by (simp_all add: demo_hub_def remote_hive_state_default_def uuid_in_def demo_codec_def)
  have peers: "lc_wan_peers demo_hub = [(''w1'', ''r1''), (''w2'', ''r2'')]"
    by (simp add: demo_hub_def demo_context_def)
  have sent: "broadcast_reachability (demo_codec demo_payload) 5 demo_hub = [(''w2'', [])]"
    unfolding broadcast_reachability_def peers
    by (simp add: reachability_payload_def entries List.map_filter_simps) (simp add: demo_codec_def)
  moreover have keys: "distinct (map fst (lc_lsa_state demo_hub))" by (simp add: demo_hub_def)
  moreover have "length (lc_wan_peers demo_hub) \<ge> 2"
    using hub_vouches_split_horizon [OF _ keys, of "''w2''" "[]" "demo_codec demo_payload" 5] sent by simp
  ultimately show ?thesis by simp
qed

lemma no_hive_no_entry:
  assumes "\<And>i. \<not> of_hive g s i"
    and "e \<in> set (fib_entries nodes peer_nodes static_routes (Some s) reachability)"
  shows "not_from g e"
proof -
  have "without_hive g s = s" using assms(1) by (simp add: without_hive_def)
  then show ?thesis
    using entries_without_hive [of nodes peer_nodes static_routes g s reachability] assms(2)
    by (metis filter_id_conv)
qed

lemma not_self_usable:
  "x AND HIVE_FLAG_SELF \<noteq> 0 \<Longrightarrow> x AND (HIVE_FLAG_SELF OR FLAG_STALE) \<noteq> 0"
  "x AND FLAG_STALE \<noteq> 0 \<Longrightarrow> x AND (HIVE_FLAG_SELF OR FLAG_STALE) \<noteq> 0"
  by (auto simp: bit.conj_disj_distrib or_eq_0_iff)

lemma region_hive_of:
  assumes "of_hive g (region_of ce (self # rest)) i" "region_fits (region_of ce (self # rest))"
    and "hs_flags (snd self) AND HIVE_FLAG_SELF \<noteq> 0" "g \<noteq> []" "length g < 64"
  shows "\<exists>s. (g, s) \<in> set rest \<and> (self # rest) ! i = (g, s) \<and> hs_flags s AND FLAG_STALE = 0 \<and>
    hs_flags s AND HIVE_FLAG_SELF = 0"
proof -
  let ?s = "region_of ce (self # rest)"
  have len: "length (ls_hives ?s) \<le> 65536"
    using assms(2) by (simp add: region_fits_def MAX_REMOTE_HIVES_def)
  note g = of_hiveD [OF assms(1) len]
  then have i: "i < length (self # rest)" by (simp add: region_of_def)
  have ith: "ls_hives ?s ! i = hive_entry_of ((self # rest) ! i)"
    using i by (simp only: region_of_def lsa_snapshot.simps nth_map)
  obtain h s where hs: "(self # rest) ! i = (h, s)" by (cases "(self # rest) ! i")
  have flags: "hs_flags s AND FLAG_STALE = 0 \<and> hs_flags s AND HIVE_FLAG_SELF = 0"
    using g ith hs not_self_usable [of "hs_flags s"]
    by (auto simp: hive_usable_def hive_entry_of_flags)
  have "cut 64 h = g" using g ith hs by (simp add: hive_entry_of_name)
  then have "h = g" using cut_short assms(4,5) by blast
  moreover have "i \<noteq> 0" using flags hs assms(3) by (cases i) auto
  then have "(h, s) \<in> set rest" using i hs by (metis Suc_pred length_Cons less_Suc_eq_0_disj not_gr_zero nth_Cons_Suc nth_mem Suc_less_eq)
  ultimately show ?thesis using hs flags by blast
qed

lemma self_state_flags: "hs_flags (self_state ce now c) AND HIVE_FLAG_SELF \<noteq> 0"
  by (simp add: self_state_def Let_def FLAG_ACTIVE_def HIVE_FLAG_SELF_def)

lemma stale_flags_set:
  assumes "now - hs_last_updated s > dead"
  shows "stale_flags now dead s AND FLAG_STALE \<noteq> 0"
proof -
  have "(x OR FLAG_STALE) AND FLAG_STALE = FLAG_STALE" for x by (simp add: or.commute)
  then show ?thesis using assms by (auto simp: stale_flags_def FLAG_STALE_def)
qed

text \<open>C23: a silent hive leaves the table.  At the first pass of the timer after a hive was silent for
  longer than the dead interval, the region is written without it, and the table built from it has no
  node and no route of that hive.\<close>

theorem silent_hive_expires:
  assumes "(g, s) \<in> set (lc_lsa_state c)" "distinct (map fst (lc_lsa_state c))"
    and "now - hs_last_updated s > lc_dead_interval_ms c" "hs_flags s AND FLAG_STALE = 0"
    and "lc_lsa_writer c" "g \<noteq> []" "length g < 64"
    and "region_fits (region_of ce (region_hives ce now
      (c \<lparr> lc_lsa_state := mark_stale now (lc_dead_interval_ms c) (lc_lsa_state c) \<rparr>)))"
  shows "\<forall>e \<in> set (lc_fib (refresh_lsa True (lsa_stale_tick ce now readable c))).
    (fe_source e = LsaNode \<longrightarrow> fe_next_hop e \<noteq> Some (HopHive g)) \<and> fe_source e \<noteq> LsaRoute g"
proof -
  let ?st = "mark_stale now (lc_dead_interval_ms c) (lc_lsa_state c)"
  let ?c = "c \<lparr> lc_lsa_state := ?st \<rparr>"
  let ?R = "region_of ce (region_hives ce now ?c)"
  have stale: "hs_flags s' AND FLAG_STALE \<noteq> 0" if in_st: "(g, s') \<in> set ?st" for s'
  proof -
    obtain s0 where "(g, s0) \<in> set (lc_lsa_state c)"
      and s': "s' = s0 \<lparr> hs_flags := stale_flags now (lc_dead_interval_ms c) s0 \<rparr>"
      using in_st by (auto simp: mark_stale_def)
    then have "s0 = s" using assms(1,2) by (metis eq_key_imp_eq_value)
    with s' show ?thesis using stale_flags_set [OF assms(3)] by simp
  qed
  have "(g, s \<lparr> hs_flags := stale_flags now (lc_dead_interval_ms c) s \<rparr>) \<in> set ?st"
    using assms(1) by (force simp: mark_stale_def)
  then have "stale_flags now (lc_dead_interval_ms c) s \<noteq> hs_flags s"
    using stale assms(4) by fastforce
  then have changed: "map (\<lambda>(_, s). hs_flags s) ?st \<noteq> map (\<lambda>(_, s). hs_flags s) (lc_lsa_state c)"
    using assms(1) by (auto simp: mark_stale_def intro!: bexI [of _ "(g, s)"])
  have region: "lc_region (lsa_stale_tick ce now readable c) = ?R"
    using assms(5,8) changed by (simp add: lsa_stale_tick_def write_lsa_state_def Let_def rebuild_context_fib_def)
  have "\<not> of_hive g ?R i" for i
  proof
    assume "of_hive g ?R i"
    then obtain s' where "(g, s') \<in> set (tl (region_hives ce now ?c))" "hs_flags s' AND FLAG_STALE = 0"
      using region_hive_of [of g ce "(lc_hive_id ?c, self_state ce now ?c)" "tl (region_hives ce now ?c)" i]
        assms(6-8) self_state_flags by (auto simp: region_hives_def)
    with stale show False by (auto simp: region_hives_def)
  qed
  then have "not_from g e" if "e \<in> set (lc_fib (refresh_lsa True (lsa_stale_tick ce now readable c)))" for e
    using that no_hive_no_entry by (force simp: refresh_lsa_def rebuild_context_fib_def rebuild_fib_def region)
  then show ?thesis by (fastforce simp: not_from_def)
qed

definition demo_silent :: lsa_context where
  "demo_silent = demo_context \<lparr> lc_lsa_state :=
     [(''w1'', remote_hive_state_default \<lparr> hs_nodes := [\<lparr> ln_uuid = ''u1'', ln_name = ''AI.a@w1'', ln_vpn_id = 0 \<rparr>] \<rparr>)] \<rparr>"

theorem silent_hive_expires_witness:
  "LsaRoute ''w1'' \<notin>
     fe_source ` set (lc_fib (refresh_lsa True (lsa_stale_tick (demo_codec demo_payload) 11 True demo_silent)))"
proof -
  let ?s = "remote_hive_state_default \<lparr> hs_nodes := [\<lparr> ln_uuid = ''u1'', ln_name = ''AI.a@w1'', ln_vpn_id = 0 \<rparr>] \<rparr>"
  have "(''w1'', ?s) \<in> set (lc_lsa_state demo_silent)" "distinct (map fst (lc_lsa_state demo_silent))"
    "11 - hs_last_updated ?s > lc_dead_interval_ms demo_silent" "hs_flags ?s AND FLAG_STALE = 0"
    "lc_lsa_writer demo_silent" "''w1'' \<noteq> []" "length ''w1'' < 64"
    by (simp_all add: demo_silent_def demo_context_def remote_hive_state_default_def)
  moreover have "region_fits (region_of (demo_codec demo_payload) (region_hives (demo_codec demo_payload) 11
      (demo_silent \<lparr> lc_lsa_state := mark_stale 11 (lc_dead_interval_ms demo_silent) (lc_lsa_state demo_silent) \<rparr>)))"
    by (simp add: region_fits_def region_of_def entries_of_def region_hives_def self_state_def Let_def
        build_local_lsa_payload_def lsa_node_map_def mark_stale_def demo_silent_def demo_context_def
        remote_hive_state_default_def List.map_filter_simps node_entry_of_def demo_codec_def
        MAX_REMOTE_HIVES_def MAX_REMOTE_NODES_def)
  ultimately have "\<forall>e \<in> set (lc_fib (refresh_lsa True (lsa_stale_tick (demo_codec demo_payload) 11 True demo_silent))).
      (fe_source e = LsaNode \<longrightarrow> fe_next_hop e \<noteq> Some (HopHive ''w1'')) \<and> fe_source e \<noteq> LsaRoute ''w1''"
    by (rule silent_hive_expires)
  then show ?thesis by (metis imageE)
qed

lemma map_of_fold_update:
  "distinct (map fst kvs) \<Longrightarrow>
   map_of (fold (\<lambda>(k, v). AList.update k (f k v)) kvs al) k' =
     (case map_of kvs k' of Some v \<Rightarrow> Some (f k' v) | None \<Rightarrow> map_of al k')"
proof (induction kvs arbitrary: al)
  case (Cons kv kvs)
  obtain k v where kv: "kv = (k, v)" by force
  have "map_of kvs k = None" using Cons.prems kv by (simp add: map_of_eq_None_iff)
  then show ?case using Cons kv by (auto split: option.splits)
qed simp

lemma distinct_fold_update:
  "distinct (map fst al) \<Longrightarrow> distinct (map fst (fold (\<lambda>(k, v). AList.update k (f k v)) kvs al))"
  by (induction kvs arbitrary: al) (auto simp: distinct_update)

lemma in_fold_update:
  "(k, x) \<in> set (fold (\<lambda>(k, v). AList.update k (f k v)) kvs al) \<Longrightarrow> (\<exists>v. x = f k v) \<or> (k, x) \<in> set al"
  by (induction kvs arbitrary: al) (force dest!: alist_update_cases)+

lemma lsa_node_map_distinct: "distinct (map fst (lsa_node_map ce nodes peers))"
  unfolding lsa_node_map_def by (intro distinct_fold_update) simp

lemma in_lsa_node_map: "(u, n) \<in> set (lsa_node_map ce nodes peers) \<Longrightarrow> ln_uuid n = ce_show_uuid ce u"
  unfolding lsa_node_map_def
  by (drule in_fold_update) (auto simp: lsa_node_of_def dest!: in_fold_update)

lemma lsa_node_map_own:
  assumes "distinct (map fst nodes)" "(u, h) \<in> set nodes" "u \<notin> fst ` set peers" "distinct (map fst peers)"
  shows "(u, lsa_node_of ce u (nh_name h) (nh_vpn_id h)) \<in> set (lsa_node_map ce nodes peers)"
proof -
  have "map_of peers u = None" using assms(3) by (simp add: map_of_eq_None_iff)
  then have "map_of (lsa_node_map ce nodes peers) u = Some (lsa_node_of ce u (nh_name h) (nh_vpn_id h))"
    using assms by (simp add: lsa_node_map_def map_of_fold_update)
  then show ?thesis by (rule map_of_SomeD)
qed

text \<open>Finding a node of a bucket in the region.\<close>

lemma find_exists: "x \<in> set xs \<Longrightarrow> P x \<Longrightarrow> \<exists>y. find P xs = Some y"
  by (induction xs) auto

lemma hive_position_exists:
  assumes "i < length hives" "hive_usable (hives ! i)" "hive_name (hives ! i) = g"
  shows "\<exists>j. hive_position hives g = Some j"
proof -
  have "(i, hives ! i) \<in> set (enumerate 0 hives)" using assms(1) by (simp add: in_set_enumerate_eq)
  then have "find (\<lambda>(i, h). hive_usable h \<and> hive_name h = g) (enumerate 0 hives) \<noteq> None"
    using assms(2,3) by (auto simp: find_None_iff)
  then show ?thesis by (auto simp: hive_position_def)
qed

lemma position_of_bucket:
  assumes "region_fits (region_of ce (self # rest))" "hs_flags (snd self) AND HIVE_FLAG_SELF \<noteq> 0"
    and "(g, s) \<in> set rest" "distinct (map fst rest)" "g \<noteq> []" "length g < 64" "utf8_valid g"
    and "hs_flags s AND (HIVE_FLAG_SELF OR FLAG_STALE) = 0"
  shows "\<exists>j. hive_position (ls_hives (region_of ce (self # rest))) g = Some j \<and>
    j < length (self # rest) \<and> (self # rest) ! j = (g, s)"
proof -
  let ?hives = "self # rest"
  let ?s = "region_of ce ?hives"
  have ith: "ls_hives ?s ! i = hive_entry_of (?hives ! i)" if "i < length ?hives" for i
    using that by (simp only: region_of_def lsa_snapshot.simps nth_map)
  have lenh: "length (ls_hives ?s) = length ?hives" by (simp add: region_of_def)
  obtain k where k: "k < length ?hives" "?hives ! k = (g, s)"
    using assms(3) by (metis in_set_conv_nth length_Cons not_less_eq nth_Cons_Suc)
  have "hive_usable (ls_hives ?s ! k)" "hive_name (ls_hives ?s ! k) = g"
    using k ith [OF k(1)] assms(5-8) by (simp_all add: hive_entry_of_name)
      (simp add: hive_usable_def hive_entry_of_def copied_len_def)
  then obtain j where j: "hive_position (ls_hives ?s) g = Some j"
    using hive_position_exists [of k "ls_hives ?s" g] k(1) lenh by auto
  note jd = hive_positionD [OF j]
  obtain h t where ht: "?hives ! j = (h, t)" by (cases "?hives ! j")
  have jlen: "j < length ?hives" using jd lenh by simp
  have h: "h = g" using jd ith [OF jlen] ht cut_short [of 64 h g] assms(5,6) by (simp add: hive_entry_of_name)
  have "j \<noteq> 0" using jd ith [OF jlen] ht assms(2) not_self_usable
    by (cases j) (auto simp: hive_usable_def hive_entry_of_flags)
  then have "(g, t) \<in> set rest"
    using ht jlen h by (metis Suc_less_eq Suc_pred length_Cons not_gr_zero nth_Cons_Suc nth_mem)
  then have "?hives ! j = (g, s)" using ht h assms(3,4) by (metis eq_key_imp_eq_value)
  with j jlen show ?thesis by blast
qed

lemma node_entry_of_uuid:
  "node_entry_of ce i n = Some e \<Longrightarrow> ce_parse_uuid ce (ln_uuid n) = Some (rn_uuid e) \<and> rn_vpn_id e = ln_vpn_id n"
  by (auto simp: node_entry_of_def)

lemma write_lsa_state_unchanged [simp]:
  "lc_router_uuid (write_lsa_state ce now r c) = lc_router_uuid c"
  "lc_router_name (write_lsa_state ce now r c) = lc_router_name c"
  "lc_nodes (write_lsa_state ce now r c) = lc_nodes c"
  "lc_peer_nodes (write_lsa_state ce now r c) = lc_peer_nodes c"
  "lc_static_routes (write_lsa_state ce now r c) = lc_static_routes c"
  "lc_vpn_rules (write_lsa_state ce now r c) = lc_vpn_rules c"
  "lc_tap_rules (write_lsa_state ce now r c) = lc_tap_rules c"
  "lc_lsa_seq (write_lsa_state ce now r c) = lc_lsa_seq c"
  by (simp_all add: write_lsa_state_def Let_def)

lemma region_hives_write [simp]:
  "region_hives ce now (write_lsa_state ce now' readable c) = region_hives ce now c"
  by (simp add: region_hives_def self_state_def build_local_lsa_payload_def)

lemma find_in_region:
  assumes pos: "hive_position (ls_hives (region_of ce hives)) g = Some j" "j < length hives"
      "hives ! j = (g, s)" "length hives \<le> MAX_REMOTE_HIVES"
    and n: "n \<in> set (hs_nodes s)" "ce_parse_uuid ce (ln_uuid n) = Some u"
      "\<forall>m \<in> set (hs_nodes s). ce_parse_uuid ce (ln_uuid m) = Some u \<longrightarrow> m = n"
    and name: "ln_name n \<noteq> []" "utf8_valid (ln_name n)" "length (ln_name n) \<le> 256"
  shows "find_node_of_hive (Some (region_of ce hives)) u g =
    Some \<lparr> ri_name = ln_name n, ri_vpn_id = ln_vpn_id n, ri_hive_id = g, ri_next_hop_hive = g, ri_via_hub = False \<rparr>"
proof -
  let ?P = "\<lambda>e. rn_hive_index e = j \<and> node_usable e \<and> rn_uuid e = u"
  let ?entry = "\<lparr> rn_uuid = u, rn_name = copied 256 (ln_name n), rn_name_len = copied_len 256 (ln_name n),
      rn_vpn_id = ln_vpn_id n, rn_hive_index = as_u16 j, rn_flags = FLAG_ACTIVE \<rparr>"
  let ?nodes = "entries_of (node_entry_of ce) hs_nodes hives"
  have j16: "as_u16 i = i" if "i < length hives" for i
    using that pos(4) by (simp add: as_u16_def MAX_REMOTE_HIVES_def)
  have "node_entry_of ce j n = Some ?entry" using n(2) by (simp add: node_entry_of_def)
  then have "?entry \<in> set ?nodes" using pos(2,3) n(1) unfolding in_entries_of by (intro exI [of _ j] conjI bexI [of _ n]) simp_all
  moreover have "?P ?entry"
    using j16 [OF pos(2)] name(1)
    by (simp add: node_usable_def copied_len_def FLAG_ACTIVE_def FLAG_DELETED_def FLAG_STALE_def)
  ultimately obtain e where e: "find ?P ?nodes = Some e" using find_exists [of ?entry ?nodes ?P] by blast
  then have ed: "e \<in> set ?nodes" "?P e" by (auto dest: find_Some_memberD)
  obtain i m where i: "i < length hives" and m: "m \<in> set (hs_nodes (snd (hives ! i)))"
    and ent: "node_entry_of ce i m = Some e"
    using ed(1) unfolding in_entries_of by blast
  have "i = j" using node_entry_of_name [OF ent] ed(2) j16 [OF i] by simp
  then have "m = n" using m pos(3) node_entry_of_uuid [OF ent] ed(2) n(3) by simp
  then have "node_name e = ln_name n" "rn_vpn_id e = ln_vpn_id n"
    using node_entry_of_name [OF ent] node_entry_of_uuid [OF ent] name by simp_all
  moreover have "ls_nodes (region_of ce hives) = ?nodes" by (simp add: region_of_def)
  ultimately show ?thesis using pos(1) e by (simp add: find_node_of_hive_def)
qed

lemma in_update: "(k, v) \<in> set (AList.update k v al)"
  by (induction al) auto

lemma cleared_flags:
  fixes x :: flags
  assumes "x AND HIVE_FLAG_SELF = 0"
  shows "(x AND NOT FLAG_STALE) AND (HIVE_FLAG_SELF OR FLAG_STALE) = 0"
proof -
  have "(x AND NOT FLAG_STALE) AND HIVE_FLAG_SELF = (x AND HIVE_FLAG_SELF) AND NOT FLAG_STALE"
    by (simp add: ac_simps)
  moreover have "(x AND NOT FLAG_STALE) AND FLAG_STALE = 0" by (simp add: and.assoc)
  ultimately show ?thesis using assms by (simp add: bit.conj_disj_distrib)
qed

lemma lsa_node_map_unique:
  assumes "\<forall>u. ce_parse_uuid ce (ce_show_uuid ce u) = Some u"
    and "(k, m) \<in> set (lsa_node_map ce nodes peers)" "ce_parse_uuid ce (ln_uuid m) = Some u"
    and "(u, n) \<in> set (lsa_node_map ce nodes peers)"
  shows "m = n"
proof -
  have "k = u" using in_lsa_node_map [OF assms(2)] assms(1,3) by simp
  then show ?thesis using lsa_node_map_distinct assms(2,4) by (metis eq_key_imp_eq_value)
qed

lemma received_region:
  assumes "lp_hive p = g" "payload_router ce pu p = Some ru" "ce_lsa_of ce payload = Some p" "lc_lsa_writer b"
    and "hs_last_seq (session_entry g epoch (lc_lsa_state b)) < lp_seq p"
    and "b' = receive_lsa ce now True g pu pn epoch payload b"
      "region_fits (region_of ce (region_hives ce now b'))"
  shows "\<exists>c. lc_hive_id c = lc_hive_id b \<and>
    lc_lsa_state c = AList.update g (applied_entry ce now (local_node_uuids (lc_nodes b) (lc_peer_nodes b)) g ru pn p
      (session_entry g epoch (lc_lsa_state b))) (lc_lsa_state b) \<and>
    region_fits (region_of ce (region_hives ce now c)) \<and>
    lc_lsa_snapshot b' = Some (region_of ce (region_hives ce now c))"
proof -
  let ?local = "local_node_uuids (lc_nodes b) (lc_peer_nodes b)"
  let ?st = "AList.update g (applied_entry ce now ?local g ru pn p (session_entry g epoch (lc_lsa_state b))) (lc_lsa_state b)"
  obtain f d where app: "apply_lsa_payload ce now ?local g pu pn epoch p (lc_lsa_state b) = (LsaApplied f d, ?st)"
    using assms(1,2,5) by (auto simp: apply_lsa_payload_def Let_def)
  obtain c where c: "b' = write_lsa_state ce now True c" "lc_lsa_state c = ?st" "lc_hive_id c = lc_hive_id b"
    "lc_lsa_writer c"
    using assms(3,4,6) app by (simp add: receive_lsa_def Let_def count_lsa_rejects_def split: if_splits)
  then have "region_fits (region_of ce (region_hives ce now c))" using assms(7) by simp
  with c show ?thesis by (intro exI [of _ c]) (simp add: write_lsa_state_def Let_def)
qed


definition demo_advert :: lsa_payload where
  "demo_advert = build_local_lsa_payload (demo_codec demo_payload) 1 1 demo_spoke"


end
