(* ===== verification/Stream_Queue.thy ===== *)
theory Stream_Queue
  imports Stream_Log Protocol "HOL-Library.Multiset"
begin

text \<open>
  The router's side of the stream (\<^verbatim>\<open>StreamHandle\<close> in \<^verbatim>\<open>src/src/router/stream.rs\<close>): appending to a
  bounded queue without ever waiting, and the disk thread taking from it.  \<^verbatim>\<open>handle_append\<close> is one
  append with nothing in between; \<^verbatim>\<open>queue_step\<close> interleaves any number of appends and the disk thread at
  each atomic operation of the code, and a lemma shows the former is a run of the latter.
\<close>

definition STREAM_TURN_QUEUE :: nat where "STREAM_TURN_QUEUE = 4096"
definition STREAM_NODE_APPEND_QUEUE :: nat where "STREAM_NODE_APPEND_QUEUE = 1024"
definition STREAM_QUEUE_MAX_BYTES :: nat where "STREAM_QUEUE_MAX_BYTES = 16 * 1024 * 1024"
definition STREAM_USAGE_QUEUE_RESERVE :: nat where "STREAM_USAGE_QUEUE_RESERVE = 128"

definition queue_capacity :: nat where
  "queue_capacity = STREAM_TURN_QUEUE + STREAM_NODE_APPEND_QUEUE"

record stream_handle =
  h_queue :: "incoming list"
  h_turns_in_queue :: nat
  h_nodes_in_queue :: nat
  h_queued_bytes :: nat
  h_counters :: counters

definition queue_limit :: "source \<Rightarrow> str \<Rightarrow> nat" where
  "queue_limit source subject =
     (case source of
        Turns \<Rightarrow> STREAM_TURN_QUEUE
      | Nodes \<Rightarrow> if subject = SUBJECT_STORAGE_USAGE then STREAM_NODE_APPEND_QUEUE
                 else STREAM_NODE_APPEND_QUEUE - STREAM_USAGE_QUEUE_RESERVE)"

definition in_queue :: "source \<Rightarrow> stream_handle \<Rightarrow> nat" where
  "in_queue source h = (case source of Turns \<Rightarrow> h_turns_in_queue h | Nodes \<Rightarrow> h_nodes_in_queue h)"

definition set_in_queue :: "source \<Rightarrow> nat \<Rightarrow> stream_handle \<Rightarrow> stream_handle" where
  "set_in_queue source n h =
     (case source of
        Turns \<Rightarrow> h \<lparr> h_turns_in_queue := n \<rparr> | Nodes \<Rightarrow> h \<lparr> h_nodes_in_queue := n \<rparr>)"

definition drop_it :: "source \<Rightarrow> str \<Rightarrow> stream_handle \<Rightarrow> stream_handle" where
  "drop_it source subject h =
     (let c = h_counters h;
          c = (case source of
              Turns \<Rightarrow> c \<lparr> ct_dropped_queue_turns := ct_dropped_queue_turns c + 1 \<rparr>
            | Nodes \<Rightarrow> c \<lparr> ct_dropped_queue_nodes := ct_dropped_queue_nodes c + 1 \<rparr>);
          c = (if subject = SUBJECT_STORAGE_USAGE then c \<lparr> ct_usage_lost := ct_usage_lost c + 1 \<rparr> else c)
      in h \<lparr> h_counters := c \<rparr>)"

definition handle_append ::
  "nat \<Rightarrow> source \<Rightarrow> str \<Rightarrow> str \<Rightarrow> bytes \<Rightarrow> stream_handle \<Rightarrow> stream_handle" where
  "handle_append now source subject producer payload h =
     (let bytes = length payload in
      if in_queue source h \<ge> queue_limit source subject then drop_it source subject h
      else if h_queued_bytes h + bytes > STREAM_QUEUE_MAX_BYTES then drop_it source subject h
      else if length (h_queue h) \<ge> queue_capacity then drop_it source subject h
      else (set_in_queue source (in_queue source h + 1) h)
             \<lparr> h_queued_bytes := h_queued_bytes h + bytes,
               h_queue := h_queue h @ [\<lparr> in_source = source, in_ts_ms = now, in_subject = subject,
                                         in_producer = producer, in_payload = payload \<rparr>] \<rparr>)"

definition append_turn :: "nat \<Rightarrow> str \<Rightarrow> bytes \<Rightarrow> stream_handle \<Rightarrow> stream_handle" where
  "append_turn now producer payload h =
     handle_append now Turns SUBJECT_STORAGE_TURNS producer payload h"

definition append_cognition_turn :: "nat \<Rightarrow> str \<Rightarrow> bytes \<Rightarrow> stream_handle \<Rightarrow> stream_handle" where
  "append_cognition_turn now agent_node payload h =
     handle_append now Turns SUBJECT_COGNITION_TURNS agent_node payload h"

definition append_from_node :: "nat \<Rightarrow> str \<Rightarrow> str \<Rightarrow> bytes \<Rightarrow> stream_handle \<Rightarrow> stream_handle" where
  "append_from_node now subject producer payload h =
     handle_append now Nodes subject producer payload h"

definition count_refused :: "stream_handle \<Rightarrow> stream_handle" where
  "count_refused h =
     h \<lparr> h_counters := (h_counters h) \<lparr> ct_refused := ct_refused (h_counters h) + 1 \<rparr> \<rparr>"

text \<open>A node's \<^verbatim>\<open>STREAM_APPEND\<close> (all but its log line): an unreadable one, or one the node may not
  append, is refused and counted.  Decoding the payload and serialising the record's own payload are
  arguments.\<close>

definition take_stream_append ::
  "(json \<Rightarrow> (str \<times> json) option) \<Rightarrow> (json \<Rightarrow> bytes option) \<Rightarrow> str \<Rightarrow> nat \<Rightarrow> message \<Rightarrow> str
    \<Rightarrow> stream_handle \<Rightarrow> stream_handle" where
  "take_stream_append append_of to_vec role now msg producer h =
     (case append_of (msg_payload msg) of
        Some (subject, body) \<Rightarrow>
          if subject_allowed subject producer role then
            (case to_vec body of
               Some bytes \<Rightarrow> append_from_node now subject producer bytes h
             | None \<Rightarrow> count_refused h)
          else count_refused h
      | None \<Rightarrow> count_refused h)"

text \<open>The disk thread's receive: the counts go down as it takes the record.\<close>

definition queue_recv :: "stream_handle \<Rightarrow> (incoming \<times> stream_handle) option" where
  "queue_recv h =
     (case h_queue h of
        [] \<Rightarrow> None
      | i # rest \<Rightarrow>
          Some (i, (set_in_queue (in_source i) (in_queue (in_source i) h - 1) h)
                     \<lparr> h_queue := rest, h_queued_bytes := h_queued_bytes h - length (in_payload i) \<rparr>))"



section \<open>Appends that overlap\<close>

text \<open>Where an append, or the disk thread with a record it took, stands between two atomic
  operations: counted above its limit, counted, counted with its bytes above the limit, about to be
  sent, taken from the channel, and taken with its count given back.\<close>

datatype stage = OverLimit | Counted | OverBytes | Sized | Taken | TakenBytes

record queue_sys =
  q_handle :: stream_handle
  q_flight :: "(stage \<times> incoming) multiset"

definition add_in_queue :: "source \<Rightarrow> stream_handle \<Rightarrow> stream_handle" where
  "add_in_queue s h = set_in_queue s (in_queue s h + 1) h"

definition sub_in_queue :: "source \<Rightarrow> stream_handle \<Rightarrow> stream_handle" where
  "sub_in_queue s h = set_in_queue s (in_queue s h - 1) h"

definition add_queued_bytes :: "nat \<Rightarrow> stream_handle \<Rightarrow> stream_handle" where
  "add_queued_bytes n h = h \<lparr> h_queued_bytes := h_queued_bytes h + n \<rparr>"

definition sub_queued_bytes :: "nat \<Rightarrow> stream_handle \<Rightarrow> stream_handle" where
  "sub_queued_bytes n h = h \<lparr> h_queued_bytes := h_queued_bytes h - n \<rparr>"

definition in_bytes :: "incoming \<Rightarrow> nat" where
  "in_bytes i = length (in_payload i)"

inductive queue_step :: "queue_sys \<Rightarrow> queue_sys \<Rightarrow> bool" where
  enter: "queue_step \<lparr> q_handle = h, q_flight = F \<rparr>
    \<lparr> q_handle = add_in_queue (in_source i) h,
      q_flight = add_mset (if in_queue (in_source i) h \<ge> queue_limit (in_source i) (in_subject i)
        then OverLimit else Counted, i) F \<rparr>"
| leave: "queue_step \<lparr> q_handle = h, q_flight = add_mset (OverLimit, i) F \<rparr>
    \<lparr> q_handle = drop_it (in_source i) (in_subject i) (sub_in_queue (in_source i) h), q_flight = F \<rparr>"
| weigh: "queue_step \<lparr> q_handle = h, q_flight = add_mset (Counted, i) F \<rparr>
    \<lparr> q_handle = add_queued_bytes (in_bytes i) h,
      q_flight = add_mset (if h_queued_bytes h + in_bytes i > STREAM_QUEUE_MAX_BYTES
        then OverBytes else Sized, i) F \<rparr>"
| unweigh: "queue_step \<lparr> q_handle = h, q_flight = add_mset (OverBytes, i) F \<rparr>
    \<lparr> q_handle = sub_queued_bytes (in_bytes i) h, q_flight = add_mset (OverLimit, i) F \<rparr>"
| send: "length (h_queue h) < queue_capacity \<Longrightarrow>
    queue_step \<lparr> q_handle = h, q_flight = add_mset (Sized, i) F \<rparr>
      \<lparr> q_handle = h \<lparr> h_queue := h_queue h @ [i] \<rparr>, q_flight = F \<rparr>"
| full: "\<not> length (h_queue h) < queue_capacity \<Longrightarrow>
    queue_step \<lparr> q_handle = h, q_flight = add_mset (Sized, i) F \<rparr>
      \<lparr> q_handle = h, q_flight = add_mset (OverBytes, i) F \<rparr>"
| refuse: "queue_step \<lparr> q_handle = h, q_flight = F \<rparr> \<lparr> q_handle = count_refused h, q_flight = F \<rparr>"
| recv: "h_queue h = i # rest \<Longrightarrow>
    queue_step \<lparr> q_handle = h, q_flight = F \<rparr>
      \<lparr> q_handle = h \<lparr> h_queue := rest \<rparr>, q_flight = add_mset (Taken, i) F \<rparr>"
| uncount: "queue_step \<lparr> q_handle = h, q_flight = add_mset (Taken, i) F \<rparr>
    \<lparr> q_handle = sub_in_queue (in_source i) h, q_flight = add_mset (TakenBytes, i) F \<rparr>"
| taken: "queue_step \<lparr> q_handle = h, q_flight = add_mset (TakenBytes, i) F \<rparr>
    \<lparr> q_handle = sub_queued_bytes (in_bytes i) h, q_flight = F \<rparr>"

definition queue_fresh :: "queue_sys \<Rightarrow> bool" where
  "queue_fresh q \<longleftrightarrow> q_flight q = {#} \<and> h_queue (q_handle q) = [] \<and>
     h_turns_in_queue (q_handle q) = 0 \<and> h_nodes_in_queue (q_handle q) = 0 \<and> h_queued_bytes (q_handle q) = 0"


section \<open>Counts and limits\<close>

definition count_source :: "source \<Rightarrow> incoming list \<Rightarrow> nat" where
  "count_source s q = length (filter (\<lambda>i. in_source i = s) q)"

definition queue_bytes :: "incoming list \<Rightarrow> nat" where
  "queue_bytes q = sum_list (map in_bytes q)"

definition flight_count :: "source \<Rightarrow> stage set \<Rightarrow> (stage \<times> incoming) multiset \<Rightarrow> nat" where
  "flight_count s S F = size (filter_mset (\<lambda>(g, i). g \<in> S \<and> in_source i = s) F)"

definition flight_bytes :: "stage set \<Rightarrow> (stage \<times> incoming) multiset \<Rightarrow> nat" where
  "flight_bytes S F = sum_mset (image_mset (\<lambda>(g, i). if g \<in> S then in_bytes i else 0) F)"

definition source_limit :: "source \<Rightarrow> nat" where
  "source_limit s = (case s of Turns \<Rightarrow> STREAM_TURN_QUEUE | Nodes \<Rightarrow> STREAM_NODE_APPEND_QUEUE)"

definition queue_inv :: "queue_sys \<Rightarrow> bool" where
  "queue_inv q \<longleftrightarrow>
     (let h = q_handle q; F = q_flight q in
      (\<forall>s. in_queue s h = count_source s (h_queue h) + flight_count s (- {TakenBytes}) F) \<and>
      (\<forall>s. count_source s (h_queue h) + flight_count s {Counted, Sized} F \<le> source_limit s) \<and>
      h_queued_bytes h = queue_bytes (h_queue h) +
        flight_bytes {OverBytes, Sized, Taken, TakenBytes} F \<and>
      queue_bytes (h_queue h) + flight_bytes {Sized} F \<le> STREAM_QUEUE_MAX_BYTES)"

lemma count_source_simps [simp]:
  "count_source s [] = 0"
  "count_source s (i # q) = (if in_source i = s then 1 else 0) + count_source s q"
  "count_source s (q @ q') = count_source s q + count_source s q'"
  by (simp_all add: count_source_def)

lemma queue_bytes_simps [simp]:
  "queue_bytes [] = 0" "queue_bytes (i # q) = in_bytes i + queue_bytes q"
  "queue_bytes (q @ q') = queue_bytes q + queue_bytes q'"
  by (simp_all add: queue_bytes_def)

lemma flight_simps [simp]:
  "flight_count s S {#} = 0" "flight_bytes S {#} = 0"
  "flight_count s S (add_mset (g, i) F) = (if g \<in> S \<and> in_source i = s then 1 else 0) + flight_count s S F"
  "flight_bytes S (add_mset (g, i) F) = (if g \<in> S then in_bytes i else 0) + flight_bytes S F"
  by (simp_all add: flight_count_def flight_bytes_def)

lemma flight_count_mono: "S \<subseteq> S' \<Longrightarrow> flight_count s S F \<le> flight_count s S' F"
  by (induction F) (auto split: if_splits)

lemma flight_bytes_mono: "S \<subseteq> S' \<Longrightarrow> flight_bytes S F \<le> flight_bytes S' F"
  by (induction F) (auto split: if_splits)

lemma queue_length: "length q = count_source Turns q + count_source Nodes q"
proof (induction q)
  case (Cons i q)
  then show ?case by (cases "in_source i") auto
qed simp

lemma in_queue_set [simp]:
  "in_queue s (set_in_queue s' n h) = (if s = s' then n else in_queue s h)"
  by (cases s; cases s') (simp_all add: in_queue_def set_in_queue_def)

lemma set_in_queue_frame [simp]:
  "h_queue (set_in_queue s n h) = h_queue h" "h_queued_bytes (set_in_queue s n h) = h_queued_bytes h"
  by (cases s; simp add: set_in_queue_def)+

lemma drop_it_frame [simp]:
  "h_queue (drop_it s j h) = h_queue h" "in_queue s' (drop_it s j h) = in_queue s' h"
  "h_queued_bytes (drop_it s j h) = h_queued_bytes h"
  by (cases s'; simp add: drop_it_def Let_def in_queue_def)+

lemma in_queue_update [simp]:
  "in_queue s (h \<lparr> h_queue := q \<rparr>) = in_queue s h" "in_queue s (h \<lparr> h_queued_bytes := n \<rparr>) = in_queue s h"
  "in_queue s (count_refused h) = in_queue s h"
  by (cases s; simp add: in_queue_def count_refused_def)+

lemma count_refused_frame [simp]:
  "h_queue (count_refused h) = h_queue h" "h_queued_bytes (count_refused h) = h_queued_bytes h"
  by (simp_all add: count_refused_def)

lemmas queue_ops = add_in_queue_def sub_in_queue_def add_queued_bytes_def sub_queued_bytes_def

lemma queue_limit_le: "queue_limit s j \<le> source_limit s"
  by (cases s) (simp_all add: queue_limit_def source_limit_def)

lemma below_limit:
  "\<forall>s. count_source s q + ((if in_source i = s then 1 else 0) + flight_count s S F) \<le> source_limit s \<Longrightarrow>
   count_source s q + flight_count s S F \<le> source_limit s"
  "\<forall>s. (if in_source i = s then 1 else 0) + count_source s q + flight_count s S F \<le> source_limit s \<Longrightarrow>
   count_source s q + flight_count s S F \<le> source_limit s"
  by (drule spec [of _ s]; linarith)+

lemma queue_inv_step:
  assumes "queue_inv q" "queue_step q q'"
  shows "queue_inv q'"
  using assms(2, 1)
proof cases
  case (enter h F i)
  then show ?thesis
    using assms(1) queue_limit_le [of "in_source i" "in_subject i"]
      flight_count_mono [of "{Counted, Sized}" "- {TakenBytes}" "in_source i" F]
    by (auto simp: queue_inv_def queue_ops Let_def)
next
  case (weigh h i F)
  then show ?thesis
    using assms(1) flight_bytes_mono [of "{Sized}" "{OverBytes, Sized, Taken, TakenBytes}" F]
    by (auto simp: queue_inv_def queue_ops Let_def dest: below_limit)
next
  case (send h i F)
  then show ?thesis
    using assms(1) by (auto simp: queue_inv_def Let_def add.assoc)
next
  case (recv h i rest F)
  then show ?thesis
    using assms(1) by (auto simp: queue_inv_def Let_def dest: below_limit)
qed (use assms(1) in \<open>auto simp: queue_inv_def queue_ops Let_def dest: below_limit\<close>)

interpretation stream_queue: step_invariant queue_fresh queue_step queue_inv
proof
  show "queue_inv q" if "queue_fresh q" for q
  proof -
    have "in_queue s (q_handle q) = 0" for s
      using that by (cases s) (simp_all add: queue_fresh_def in_queue_def)
    with that show ?thesis by (simp add: queue_fresh_def queue_inv_def)
  qed
qed (rule queue_inv_step)

text \<open>An append with nothing in between is a run of the interleaved steps.\<close>

lemma handle_append_steps:
  "queue_step\<^sup>*\<^sup>* \<lparr> q_handle = h, q_flight = {#} \<rparr>
     \<lparr> q_handle = handle_append now s j p b h, q_flight = {#} \<rparr>"
proof -
  let ?i = "\<lparr> in_source = s, in_ts_ms = now, in_subject = j, in_producer = p, in_payload = b \<rparr>"
  let ?h1 = "add_in_queue s h" and ?h2 = "add_queued_bytes (length b) (add_in_queue s h)"
  have dropped: "sub_in_queue s ?h1 = h"
    by (cases s) (simp_all add: queue_ops in_queue_def set_in_queue_def)
  have unweighed: "sub_queued_bytes (length b) ?h2 = ?h1"
    by (simp add: queue_ops)
  have drop: "queue_step \<lparr> q_handle = ?h1, q_flight = {#(OverLimit, ?i)#} \<rparr>
      \<lparr> q_handle = drop_it s j h, q_flight = {#} \<rparr>"
    using queue_step.leave [of ?h1 ?i "{#}"] by (simp add: dropped)
  have unweigh: "queue_step \<lparr> q_handle = ?h2, q_flight = {#(OverBytes, ?i)#} \<rparr>
      \<lparr> q_handle = ?h1, q_flight = {#(OverLimit, ?i)#} \<rparr>"
    using queue_step.unweigh [of ?h2 ?i "{#}"] by (simp add: in_bytes_def unweighed)
  have sent: "handle_append now s j p b h = ?h2 \<lparr> h_queue := h_queue h @ [?i] \<rparr>"
    if "\<not> in_queue s h \<ge> queue_limit s j" "\<not> h_queued_bytes h + length b > STREAM_QUEUE_MAX_BYTES"
      "length (h_queue h) < queue_capacity"
    using that by (simp add: handle_append_def queue_ops)
  note enter = queue_step.enter [of h "{#}" ?i] and weigh = queue_step.weigh [of ?h1 ?i "{#}"]
    and send = queue_step.send [of ?h2 ?i "{#}"] and full = queue_step.full [of ?h2 ?i "{#}"]
  have frame: "h_queued_bytes ?h1 = h_queued_bytes h" "h_queue ?h2 = h_queue h"
    by (simp_all add: queue_ops)
  consider "in_queue s h \<ge> queue_limit s j"
    | "\<not> in_queue s h \<ge> queue_limit s j" "h_queued_bytes h + length b > STREAM_QUEUE_MAX_BYTES"
    | "\<not> in_queue s h \<ge> queue_limit s j" "\<not> h_queued_bytes h + length b > STREAM_QUEUE_MAX_BYTES"
        "\<not> length (h_queue h) < queue_capacity"
    | "\<not> in_queue s h \<ge> queue_limit s j" "\<not> h_queued_bytes h + length b > STREAM_QUEUE_MAX_BYTES"
        "length (h_queue h) < queue_capacity"
    by blast
  then show ?thesis
  proof cases
    case 1
    with enter drop show ?thesis by (auto simp: handle_append_def)
  next
    case 2
    with enter weigh have "queue_step\<^sup>*\<^sup>* \<lparr> q_handle = h, q_flight = {#} \<rparr>
        \<lparr> q_handle = ?h2, q_flight = {#(OverBytes, ?i)#} \<rparr>"
      by (auto simp: frame in_bytes_def)
    with unweigh drop have "queue_step\<^sup>*\<^sup>* \<lparr> q_handle = h, q_flight = {#} \<rparr> \<lparr> q_handle = drop_it s j h, q_flight = {#} \<rparr>"
      by (meson rtranclp.rtrancl_into_rtrancl)
    with 2 show ?thesis by (simp add: handle_append_def)
  next
    case 3
    with enter weigh full have "queue_step\<^sup>*\<^sup>* \<lparr> q_handle = h, q_flight = {#} \<rparr>
        \<lparr> q_handle = ?h2, q_flight = {#(OverBytes, ?i)#} \<rparr>"
      by (simp add: frame in_bytes_def)
    with unweigh drop have "queue_step\<^sup>*\<^sup>* \<lparr> q_handle = h, q_flight = {#} \<rparr> \<lparr> q_handle = drop_it s j h, q_flight = {#} \<rparr>"
      by (meson rtranclp.rtrancl_into_rtrancl)
    with 3 show ?thesis by (simp add: handle_append_def)
  next
    case 4
    with enter weigh send show ?thesis
      by (simp add: frame in_bytes_def sent)
  qed
qed


section \<open>Properties\<close>

text \<open>C30: however the appends and the disk thread interleave, the router's memory for the stream is
  bounded.  In every reachable state at most 4,096 turns, 1,024 appends of nodes and 16 MiB of
  payloads wait in the channel, the counts never fall below what waits there, and an append that
  passed both limits always finds room in the channel.\<close>

theorem stream_queue_bounded:
  assumes "reach queue_fresh queue_step q"
  shows "count_source Turns (h_queue (q_handle q)) \<le> 4096 \<and>
    count_source Nodes (h_queue (q_handle q)) \<le> 1024 \<and>
    queue_bytes (h_queue (q_handle q)) \<le> 16777216 \<and>
    count_source s (h_queue (q_handle q)) \<le> in_queue s (q_handle q) \<and>
    queue_bytes (h_queue (q_handle q)) \<le> h_queued_bytes (q_handle q) \<and>
    ((Sized, i) \<in># q_flight q \<longrightarrow> length (h_queue (q_handle q)) < queue_capacity)"
proof -
  let ?Q = "h_queue (q_handle q)" and ?F = "q_flight q"
  have inv: "queue_inv q" using assms by (rule stream_queue.reach_inv)
  then have le: "count_source s ?Q + flight_count s {Counted, Sized} ?F \<le> source_limit s" for s
    by (simp add: queue_inv_def Let_def)
  have room: "length ?Q < queue_capacity" if "(Sized, i) \<in># ?F"
  proof -
    from that obtain F where "?F = add_mset (Sized, i) F" by (blast dest: multi_member_split)
    with le [of Turns] le [of Nodes] show ?thesis
      by (cases "in_source i") (auto simp: queue_length queue_capacity_def source_limit_def)
  qed
  have "count_source Turns ?Q \<le> 4096" "count_source Nodes ?Q \<le> 1024"
    using le [of Turns] le [of Nodes]
    by (simp_all add: source_limit_def STREAM_TURN_QUEUE_def STREAM_NODE_APPEND_QUEUE_def)
  moreover have "queue_bytes ?Q \<le> 16777216"
    using inv by (simp add: queue_inv_def Let_def STREAM_QUEUE_MAX_BYTES_def)
  ultimately show ?thesis
    using inv room by (simp add: queue_inv_def Let_def)
qed

definition demo_handle :: stream_handle where
  "demo_handle =
     \<lparr> h_queue = [], h_turns_in_queue = 0, h_nodes_in_queue = 0, h_queued_bytes = 0,
       h_counters = \<lparr> ct_appended_turns = 0, ct_appended_nodes = 0, ct_dropped_queue_turns = 0,
         ct_dropped_queue_nodes = 0, ct_dropped_cap_turns = 0, ct_dropped_cap_nodes = 0,
         ct_refused = 0, ct_disk_errors = 0, ct_usage_lost = 0 \<rparr> \<rparr>"

lemmas demo_append = handle_append_def demo_handle_def Let_def in_queue_def queue_limit_def
  set_in_queue_def STREAM_TURN_QUEUE_def STREAM_NODE_APPEND_QUEUE_def STREAM_USAGE_QUEUE_RESERVE_def
  STREAM_QUEUE_MAX_BYTES_def queue_capacity_def

lemma reach_steps: "step\<^sup>*\<^sup>* s s' \<Longrightarrow> reach init step s \<Longrightarrow> reach init step s'"
  by (induction rule: rtranclp_induct) (auto intro: reach.move)

theorem stream_queue_bounded_witness:
  "queue_bytes (h_queue (append_turn 5 ''AI.a@h'' ''{}'' demo_handle)) \<le> 16777216 \<and>
   length (h_queue (append_turn 5 ''AI.a@h'' ''{}'' demo_handle)) = 1"
proof -
  let ?h = "append_turn 5 ''AI.a@h'' ''{}'' demo_handle"
  have "reach queue_fresh queue_step \<lparr> q_handle = demo_handle, q_flight = {#} \<rparr>"
    by (rule reach.start) (simp add: queue_fresh_def demo_handle_def)
  with handle_append_steps have "reach queue_fresh queue_step \<lparr> q_handle = ?h, q_flight = {#} \<rparr>"
    unfolding append_turn_def by (rule reach_steps)
  from stream_queue_bounded [OF this, of Turns] have "queue_bytes (h_queue ?h) \<le> 16777216"
    by simp
  moreover have "length (h_queue ?h) = 1"
    by (simp add: append_turn_def demo_append)
  ultimately show ?thesis by simp
qed

text \<open>C31: only usage records come from nodes, and only from a node that may charge.  Whatever a node
  sends, its append enters the queue only under \<^verbatim>\<open>storage.usage\<close>, and never under the name of the
  cognition on a hive that does not run it, nor of the frontdesk, the architect or the admin outside
  the motherbee.\<close>

theorem node_appends_usage_only:
  assumes "h_queue (take_stream_append append_of to_vec role now msg producer h) \<noteq> h_queue h"
  shows "\<exists>body bytes. append_of (msg_payload msg) = Some (SUBJECT_STORAGE_USAGE, body) \<and>
    to_vec body = Some bytes \<and>
    h_queue (take_stream_append append_of to_vec role now msg producer h) =
      h_queue h @ [\<lparr> in_source = Nodes, in_ts_ms = now, in_subject = SUBJECT_STORAGE_USAGE,
                     in_producer = producer, in_payload = bytes \<rparr>] \<and>
    (to_ascii_lowercase (role_of producer) = ''sy.cognition'' \<longrightarrow> role_runs_cognition role) \<and>
    (to_ascii_lowercase (role_of producer) \<in> {''sy.frontdesk.gov'', ''sy.architect'', ''sy.admin''} \<longrightarrow>
       eq_ignore_ascii_case (trim role) ''motherbee'')"
proof -
  obtain subject body bytes where a: "append_of (msg_payload msg) = Some (subject, body)"
    and b: "to_vec body = Some bytes" and ok: "subject_allowed subject producer role"
    using assms by (auto simp: take_stream_append_def split: option.splits if_splits)
  have "h_queue (take_stream_append append_of to_vec role now msg producer h) =
      h_queue h @ [\<lparr> in_source = Nodes, in_ts_ms = now, in_subject = subject,
                     in_producer = producer, in_payload = bytes \<rparr>]"
    using assms a b ok
    by (auto simp: take_stream_append_def append_from_node_def handle_append_def Let_def
        split: if_splits)
  with a b ok show ?thesis
    by (simp add: subject_allowed_def usage_producer_allowed_def Let_def split: if_splits)
qed

definition demo_append_of :: "json \<Rightarrow> (str \<times> json) option" where
  "demo_append_of payload = (case payload of JStr s \<Rightarrow> Some (s, JNull) | _ \<Rightarrow> None)"

definition demo_append_message :: message where
  "demo_append_message = (build_hello [] [] JNull) \<lparr> msg_payload := JStr ''storage.usage'' \<rparr>"

theorem node_appends_usage_only_witness:
  "take_stream_append demo_append_of (\<lambda>_. Some ''{}'') ''worker'' 5 demo_append_message ''AI.a@h'' demo_handle
     \<noteq> demo_handle \<and>
   (\<exists>body. demo_append_of (msg_payload demo_append_message) = Some (SUBJECT_STORAGE_USAGE, body))"
proof -
  have "subject_allowed ''storage.usage'' ''AI.a@h'' ''worker''" by code_simp
  then have *: "h_queue (take_stream_append demo_append_of (\<lambda>_. Some ''{}'') ''worker'' 5
      demo_append_message ''AI.a@h'' demo_handle) \<noteq> h_queue demo_handle"
    by (simp add: take_stream_append_def append_from_node_def demo_append demo_append_of_def
        demo_append_message_def)
  from node_appends_usage_only [OF this] * show ?thesis by auto
qed

end
