(* ===== verification/Delivery.thy ===== *)
theory Delivery
  imports System_Policy Stream_Queue
begin

text \<open>
  Delivery to the local nodes (\<^verbatim>\<open>src/src/router/mod.rs\<close>): the authority gate of a protected system
  action, the memory package of an agent cut to a frame, and the copies of turns for the stream.
  \<^verbatim>\<open>to_vec\<close> and \<^verbatim>\<open>turn_vec\<close> are \<^verbatim>\<open>serde_json::to_vec\<close> on a message and on a turn of a package,
  \<^verbatim>\<open>None\<close> being its error.  The memory region is read into a snapshot by the caller; the log lines
  about packages that were cut are left out.
\<close>

section \<open>Turns and their copies\<close>

definition canonical_thread_id_from_meta :: "meta \<Rightarrow> str option" where
  "canonical_thread_id_from_meta meta = non_blank (mt_thread_id meta)"

definition should_publish_turn :: "message \<Rightarrow> bool" where
  "should_publish_turn msg = is_solution_kind (mt_msg_type (msg_meta msg))"

definition should_enrich_with_memory_package :: "message \<Rightarrow> bool" where
  "should_enrich_with_memory_package msg = is_solution_kind (mt_msg_type (msg_meta msg))"

text \<open>\<^verbatim>\<open>name.get(..3)\<close> is the first three bytes when they end a character, which an ASCII match does.\<close>

definition is_agent_node :: "str \<Rightarrow> bool" where
  "is_agent_node name = eq_ignore_ascii_case (take 3 name) ''AI.''"

definition is_workflow_node :: "str \<Rightarrow> bool" where
  "is_workflow_node name = eq_ignore_ascii_case (take 3 name) ''WF.''"

definition is_communication_turn :: "message \<Rightarrow> bool" where
  "is_communication_turn msg =
     (should_publish_turn msg \<and> \<not> mt_via_tap (msg_meta msg)
      \<and> rt_dst (msg_routing msg) \<noteq> Broadcast
      \<and> canonical_thread_id_from_meta (msg_meta msg) \<noteq> None)"

definition copied_for_cognition_at_entry :: "str \<Rightarrow> message \<Rightarrow> bool" where
  "copied_for_cognition_at_entry sender msg =
     (let to_an_io_node =
        (case rt_dst (msg_routing msg) of Unicast dst \<Rightarrow> is_io_node dst | _ \<Rightarrow> False)
      in is_communication_turn msg
         \<and> (is_agent_node sender \<or> (is_workflow_node sender \<and> to_an_io_node)))"

definition with_action_class :: "message \<Rightarrow> message" where
  "with_action_class msg =
     (if mt_action_class (msg_meta msg) = None
      then msg \<lparr> msg_meta := (msg_meta msg)
             \<lparr> mt_action_class := classify_routed_message (mt_msg_type (msg_meta msg)) \<rparr> \<rparr>
      else msg)"

definition with_src_l2_name :: "str \<Rightarrow> message \<Rightarrow> message" where
  "with_src_l2_name name msg =
     msg \<lparr> msg_routing := (msg_routing msg) \<lparr> rt_src_l2_name := Some name \<rparr> \<rparr>"

definition with_package :: "memory_package option \<Rightarrow> message \<Rightarrow> message" where
  "with_package p msg = msg \<lparr> msg_meta := (msg_meta msg) \<lparr> mt_memory_package := p \<rparr> \<rparr>"

definition turn_copy :: "(message \<Rightarrow> bytes option) \<Rightarrow> message \<Rightarrow> str \<Rightarrow> bytes option" where
  "turn_copy to_vec msg conn_node_name =
     to_vec (with_src_l2_name conn_node_name (with_action_class msg))"

definition cognition_copy :: "(message \<Rightarrow> bytes option) \<Rightarrow> message \<Rightarrow> str \<Rightarrow> bytes option" where
  "cognition_copy to_vec msg sender_name =
     to_vec (with_action_class (with_package None (with_src_l2_name sender_name msg)))"


section \<open>The authority gate\<close>

definition prepare_local_delivery :: "policy_eval \<Rightarrow> str \<Rightarrow> message \<Rightarrow> bool \<Rightarrow> message option" where
  "prepare_local_delivery eval hive_id msg src_via_hub =
     (let named = (case mt_msg (msg_meta msg) of Some m \<Rightarrow> m | None \<Rightarrow> []);
          authorized = (case protected_system_action named of
              Some action \<Rightarrow>
                \<not> src_via_hub \<and> \<not> mt_via_tap (msg_meta msg)
                \<and> authorize_system eval action (rt_src_l2_name (msg_routing msg)) hive_id
            | None \<Rightarrow> True)
      in if authorized then Some (with_package None (with_action_class msg)) else None)"


section \<open>The memory package\<close>

definition MAX_FRAME_SIZE :: nat where "MAX_FRAME_SIZE = 128 * 1024"

record memory_thread_entry =
  me_thread_id :: str
  me_agent_ilk :: str
  me_agent_node :: str
  me_package :: memory_package

definition package_for ::
  "memory_thread_entry list option \<Rightarrow> message \<Rightarrow> str \<Rightarrow> memory_package option" where
  "package_for memory msg agent_node =
     (case canonical_thread_id_from_meta (msg_meta msg) of
        None \<Rightarrow> None
      | Some thread_id \<Rightarrow>
          (case memory of
             None \<Rightarrow> None
           | Some threads \<Rightarrow>
               map_option me_package
                 (find (\<lambda>e. me_thread_id e = thread_id \<and> me_agent_node e = agent_node) threads)))"

text \<open>How many of the oldest turns free the excess: \<^verbatim>\<open>take_while\<close> with its running count.\<close>

definition turn_cost :: "(memory_turn \<Rightarrow> bytes option) \<Rightarrow> memory_turn \<Rightarrow> nat" where
  "turn_cost turn_vec t = (case turn_vec t of Some b \<Rightarrow> length b + 1 | None \<Rightarrow> 0)"

fun oldest_to_free :: "(memory_turn \<Rightarrow> bytes option) \<Rightarrow> nat \<Rightarrow> nat \<Rightarrow> memory_turn list \<Rightarrow> nat" where
  "oldest_to_free turn_vec excess freed [] = 0"
| "oldest_to_free turn_vec excess freed (t # ts) =
     (if freed \<ge> excess then 0
      else Suc (oldest_to_free turn_vec excess (freed + turn_cost turn_vec t) ts))"

definition drop_turns :: "nat \<Rightarrow> memory_package \<Rightarrow> memory_package" where
  "drop_turns n p = p \<lparr> package_turns := drop n (package_turns p) \<rparr>"

function serialize_package ::
  "(message \<Rightarrow> bytes option) \<Rightarrow> (memory_turn \<Rightarrow> bytes option) \<Rightarrow> message \<Rightarrow> memory_package option \<Rightarrow>
   bytes option" where
  "serialize_package to_vec turn_vec prepared package =
     (case to_vec (with_package package prepared) of
        None \<Rightarrow> None
      | Some data \<Rightarrow>
          (case package of
             None \<Rightarrow> Some data
           | Some p \<Rightarrow>
               let excess = length data - MAX_FRAME_SIZE in
               if excess = 0 then Some data
               else if package_turns p = []
                 then serialize_package to_vec turn_vec prepared None
               else serialize_package to_vec turn_vec prepared
                      (Some (drop_turns (max (oldest_to_free turn_vec excess 0 (package_turns p)) 1) p))))"
  by pat_completeness auto

termination
  by (relation "measure (\<lambda>(_, _, _, package). case package of
        None \<Rightarrow> 0 | Some p \<Rightarrow> Suc (length (package_turns p)))")
     (auto simp: drop_turns_def)

declare serialize_package.simps [simp del]

definition serialize_with_package ::
  "(message \<Rightarrow> bytes option) \<Rightarrow> (memory_turn \<Rightarrow> bytes option) \<Rightarrow> message \<Rightarrow> memory_package \<Rightarrow>
   bytes option" where
  "serialize_with_package to_vec turn_vec prepared package =
     serialize_package to_vec turn_vec prepared (Some package)"


section \<open>Delivery\<close>

text \<open>What surrounds a delivery: the policy evaluator, the serialisers, the hive, the snapshot of the
  memory region (\<^verbatim>\<open>None\<close> when it cannot be read) and the clock that stamps the copies.\<close>

record delivery_env =
  de_eval :: policy_eval
  de_to_vec :: "message \<Rightarrow> bytes option"
  de_turn_vec :: "memory_turn \<Rightarrow> bytes option"
  de_hive_id :: str
  de_memory :: "memory_thread_entry list option"
  de_now :: nat

definition package_of_delivery :: "delivery_env \<Rightarrow> message \<Rightarrow> str \<Rightarrow> memory_package option" where
  "package_of_delivery env prepared node =
     (if is_agent_node node \<and> should_enrich_with_memory_package prepared
         \<and> canonical_thread_id_from_meta (msg_meta prepared) \<noteq> None
      then package_for (de_memory env) prepared node else None)"

definition delivery_data :: "delivery_env \<Rightarrow> message \<Rightarrow> str \<Rightarrow> bytes option" where
  "delivery_data env prepared node =
     (case package_of_delivery env prepared node of
        Some package \<Rightarrow> serialize_with_package (de_to_vec env) (de_turn_vec env) prepared package
      | None \<Rightarrow> de_to_vec env prepared)"

text \<open>A local node a message goes to: the channel of its connection and its name.  The loop of
  \<^verbatim>\<open>deliver_locally\<close> stops at the first serialisation error, with what it already sent; the message
  without a package is serialised once, which the model does each time.\<close>

type_synonym 'ch delivery = "'ch \<times> str"

fun deliver_each ::
  "delivery_env \<Rightarrow> message \<Rightarrow> 'ch delivery list \<Rightarrow> stream_handle \<Rightarrow>
   bool \<times> ('ch \<times> bytes) list \<times> stream_handle" where
  "deliver_each env prepared [] h = (True, [], h)"
| "deliver_each env prepared ((ch, node) # rest) h =
     (let sender_name = (case rt_src_l2_name (msg_routing prepared) of Some s \<Rightarrow> s | None \<Rightarrow> []);
          h = (if is_agent_node node \<and> is_communication_turn prepared then
                 (case cognition_copy (de_to_vec env) prepared sender_name of
                    Some copy \<Rightarrow> append_cognition_turn (de_now env) node copy h
                  | None \<Rightarrow> h)
               else h)
      in case delivery_data env prepared node of
           None \<Rightarrow> (False, [], h)
         | Some data \<Rightarrow>
             let (ok, sent, h) = deliver_each env prepared rest h in (ok, (ch, data) # sent, h))"

definition deliver_locally ::
  "delivery_env \<Rightarrow> 'ch delivery list \<Rightarrow> message \<Rightarrow> bool \<Rightarrow> stream_handle \<Rightarrow>
   bool \<times> ('ch \<times> bytes) list \<times> stream_handle" where
  "deliver_locally env deliveries msg src_via_hub h =
     (if deliveries = [] then (True, [], h)
      else case prepare_local_delivery (de_eval env) (de_hive_id env) msg src_via_hub of
        None \<Rightarrow> (True, [], h)
      | Some prepared \<Rightarrow> deliver_each env prepared deliveries h)"

text \<open>\<^verbatim>\<open>serialize_for_local_delivery\<close>: \<^verbatim>\<open>None\<close> an error, \<^verbatim>\<open>Some None\<close> dropped by the gate.\<close>

definition serialize_for_local_delivery ::
  "delivery_env \<Rightarrow> message \<Rightarrow> bool \<Rightarrow> str \<Rightarrow> bytes option option" where
  "serialize_for_local_delivery env msg src_via_hub dst_node =
     (case prepare_local_delivery (de_eval env) (de_hive_id env) msg src_via_hub of
        None \<Rightarrow> Some None
      | Some prepared \<Rightarrow> map_option Some (delivery_data env prepared dst_node))"

section \<open>Cutting a package\<close>

definition size_with :: "(message \<Rightarrow> bytes option) \<Rightarrow> message \<Rightarrow> memory_package option \<Rightarrow> nat" where
  "size_with to_vec prepared package =
     (case to_vec (with_package package prepared) of Some data \<Rightarrow> length data | None \<Rightarrow> 0)"

text \<open>What the documentation of \<^verbatim>\<open>serde_json\<close> says of serialising these types: it does not fail, and a
  turn that is not the last of its array takes its own text and a comma.\<close>

definition turns_additive ::
  "(message \<Rightarrow> bytes option) \<Rightarrow> (memory_turn \<Rightarrow> bytes option) \<Rightarrow> bool" where
  "turns_additive to_vec turn_vec \<longleftrightarrow>
     (\<forall>m. to_vec m \<noteq> None) \<and> (\<forall>t. turn_vec t \<noteq> None) \<and>
     (\<forall>m p t t' ts. package_turns p = t # t' # ts \<longrightarrow>
        size_with to_vec m (Some p) =
          size_with to_vec m (Some (drop_turns 1 p)) + length (the (turn_vec t)) + 1)"

lemma drop_turns_simps [simp]:
  "package_turns (drop_turns n p) = drop n (package_turns p)"
  "drop_turns m (drop_turns n p) = drop_turns (n + m) p"
  "drop_turns 0 p = p"
  by (simp_all add: drop_turns_def add.commute)

lemma oldest_freed:
  "m < oldest_to_free turn_vec excess freed ts \<Longrightarrow>
   m < length ts \<and> freed + sum_list (map (turn_cost turn_vec) (take m ts)) < excess"
proof (induction ts arbitrary: m freed)
  case (Cons t ts)
  then have lt: "freed < excess" by (simp split: if_splits)
  show ?case
  proof (cases m)
    case (Suc m')
    with Cons.prems lt Cons.IH [of m' "freed + turn_cost turn_vec t"] show ?thesis
      by (simp add: add.assoc)
  qed (use lt in simp)
qed simp

lemma oldest_positive: "ts \<noteq> [] \<Longrightarrow> 0 < excess \<Longrightarrow> 0 < oldest_to_free turn_vec excess 0 ts"
  by (cases ts) auto

lemma oldest_le: "oldest_to_free turn_vec excess freed ts \<le> length ts"
  by (induction ts arbitrary: freed) auto

lemma size_drop_turns:
  assumes "turns_additive to_vec turn_vec" "m < length (package_turns p)"
  shows "size_with to_vec prepared (Some p) =
    size_with to_vec prepared (Some (drop_turns m p))
      + sum_list (map (turn_cost turn_vec) (take m (package_turns p)))"
  using assms(2)
proof (induction m)
  case (Suc m)
  let ?q = "drop_turns m p"
  let ?t = "package_turns p ! m"
  have "drop m (package_turns p) = ?t # package_turns p ! Suc m # drop (Suc (Suc m)) (package_turns p)"
    using Suc.prems by (simp add: Cons_nth_drop_Suc)
  then have q: "package_turns ?q = ?t # package_turns p ! Suc m # drop (Suc (Suc m)) (package_turns p)"
    by simp
  have "size_with to_vec prepared (Some ?q) =
      size_with to_vec prepared (Some (drop_turns (Suc m) p)) + turn_cost turn_vec ?t"
    using assms(1) q unfolding turns_additive_def turn_cost_def
    by (force split: option.splits)
  with Suc show ?case by (simp add: take_Suc_conv_app_nth)
qed simp

lemma cut_not_earlier:
  assumes "turns_additive to_vec turn_vec" "size_with to_vec prepared (Some p) > MAX_FRAME_SIZE"
    and "m < oldest_to_free turn_vec (size_with to_vec prepared (Some p) - MAX_FRAME_SIZE) 0 (package_turns p)"
  shows "size_with to_vec prepared (Some (drop_turns m p)) > MAX_FRAME_SIZE"
  using oldest_freed [OF assms(3)] size_drop_turns [OF assms(1), of m p prepared] by auto

lemma serialises: "turns_additive to_vec turn_vec \<Longrightarrow> \<exists>data. to_vec m = Some data"
  by (simp add: turns_additive_def)

lemma serialize_package_maximal:
  assumes "turns_additive to_vec turn_vec"
    and "package = Some (drop_turns k p)" "k \<le> length (package_turns p)"
    and "\<forall>m < k. size_with to_vec prepared (Some (drop_turns m p)) > MAX_FRAME_SIZE"
  shows "\<exists>data cut. serialize_package to_vec turn_vec prepared package = Some data \<and>
    to_vec (with_package cut prepared) = Some data \<and>
    (case cut of
       None \<Rightarrow> \<forall>m \<le> length (package_turns p).
         size_with to_vec prepared (Some (drop_turns m p)) > MAX_FRAME_SIZE
     | Some q \<Rightarrow> \<exists>n \<le> length (package_turns p). q = drop_turns n p \<and> length data \<le> MAX_FRAME_SIZE \<and>
         (\<forall>m < n. size_with to_vec prepared (Some (drop_turns m p)) > MAX_FRAME_SIZE))"
  using assms(2-)
proof (induction "length (package_turns p) - k" arbitrary: k package rule: less_induct)
  case less
  obtain data where data: "to_vec (with_package package prepared) = Some data"
    using serialises [OF assms(1)] by blast
  then have sz: "size_with to_vec prepared package = length data" by (simp add: size_with_def)
  let ?q = "drop_turns k p"
  consider "length data \<le> MAX_FRAME_SIZE"
    | "length data > MAX_FRAME_SIZE" "package_turns ?q = []"
    | "length data > MAX_FRAME_SIZE" "package_turns ?q \<noteq> []" by linarith
  then show ?case
  proof cases
    case 1
    then have "serialize_package to_vec turn_vec prepared package = Some data"
      using less.prems data by (simp add: serialize_package.simps [of _ _ _ "Some _"])
    with 1 data less.prems show ?thesis by (intro exI [of _ data] exI [of _ package]) auto
  next
    case 2
    obtain bare where bare: "to_vec (with_package None prepared) = Some bare"
      using serialises [OF assms(1)] by blast
    have "serialize_package to_vec turn_vec prepared package = Some bare"
      using 2 less.prems data bare
      by (simp add: serialize_package.simps [of _ _ _ "Some _"] serialize_package.simps [of _ _ _ None])
    moreover have "k = length (package_turns p)" using 2 less.prems by simp
    ultimately show ?thesis
      using 2 less.prems sz bare by (intro exI [of _ bare] exI [of _ None]) (auto simp: le_less)
  next
    case 3
    let ?n = "oldest_to_free turn_vec (length data - MAX_FRAME_SIZE) 0 (package_turns ?q)"
    have n: "0 < ?n" "?n \<le> length (package_turns ?q)"
      using oldest_positive [OF 3(2)] 3(1) oldest_le by (simp, blast)
    then have step: "serialize_package to_vec turn_vec prepared package =
        serialize_package to_vec turn_vec prepared (Some (drop_turns (k + ?n) p))"
      using 3 less.prems data
      by (simp add: serialize_package.simps [of _ _ _ "Some ?q"] max_absorb1 Suc_le_eq)
    have "size_with to_vec prepared (Some (drop_turns m p)) > MAX_FRAME_SIZE" if "m < k + ?n" for m
    proof (cases "m < k")
      case False
      then show ?thesis
        using cut_not_earlier [OF assms(1), of prepared ?q "m - k"] that 3 sz less.prems(1) by auto
    qed (use less.prems in blast)
    then show ?thesis
      unfolding step using n less.prems by (intro less.hyps [of "k + ?n"]) auto
  qed
qed


section \<open>What is delivered\<close>

lemma serialize_package_shape:
  "serialize_package to_vec turn_vec prepared package = Some data \<Longrightarrow>
   \<exists>cut. to_vec (with_package cut prepared) = Some data \<and>
     (cut = None \<or> (\<exists>p n. package = Some p \<and> cut = Some (drop_turns n p)))"
proof (induction to_vec turn_vec prepared package rule: serialize_package.induct)
  case (1 to_vec turn_vec prepared package)
  obtain whole where w: "to_vec (with_package package prepared) = Some whole"
    using "1.prems" by (auto simp: serialize_package.simps [of _ _ _ package] split: option.splits)
  show ?case
  proof (cases package)
    case None
    with "1.prems" w show ?thesis
      by (auto simp: serialize_package.simps [of _ _ _ None])
  next
    case (Some p)
    let ?ex = "length whole - MAX_FRAME_SIZE"
    let ?n = "max (oldest_to_free turn_vec ?ex 0 (package_turns p)) 1"
    consider "?ex = 0" | "?ex \<noteq> 0" "package_turns p = []" | "?ex \<noteq> 0" "package_turns p \<noteq> []"
      by blast
    then show ?thesis
    proof cases
      case 1
      with "1.prems" w Some have "data = whole"
        by (simp add: serialize_package.simps [of _ _ _ "Some _"])
      with w Some show ?thesis by (intro exI [of _ package]) (auto intro: exI [of _ 0])
    next
      case 2
      with "1.prems" w Some have "serialize_package to_vec turn_vec prepared None = Some data"
        by (simp add: serialize_package.simps [of _ _ _ "Some _"])
      from "1.IH"(1) [OF w Some refl 2 this] show ?thesis by auto
    next
      case 3
      with "1.prems" w Some have "serialize_package to_vec turn_vec prepared (Some (drop_turns ?n p)) = Some data"
        by (simp add: serialize_package.simps [of _ _ _ "Some p"])
      from "1.IH"(2) [OF w Some refl 3 this] Some show ?thesis by auto
    qed
  qed
qed

lemma with_package_twice [simp]: "with_package p (with_package q m) = with_package p m"
  by (simp add: with_package_def)

lemma delivery_data_shape:
  assumes "delivery_data env prepared node = Some data" "mt_memory_package (msg_meta prepared) = None"
  shows "\<exists>cut. de_to_vec env (with_package cut prepared) = Some data \<and>
    (cut = None \<or> (\<exists>p n. package_of_delivery env prepared node = Some p \<and> cut = Some (drop_turns n p)))"
proof (cases "package_of_delivery env prepared node")
  case None
  moreover have "with_package None prepared = prepared" using assms(2) by (simp add: with_package_def)
  ultimately show ?thesis using assms(1) by (auto simp: delivery_data_def)
next
  case (Some p)
  then show ?thesis
    using assms(1) serialize_package_shape [of "de_to_vec env" "de_turn_vec env" prepared "Some p" data]
    by (auto simp: delivery_data_def serialize_with_package_def)
qed

lemma deliver_each_sent:
  "(ch, data) \<in> set (fst (snd (deliver_each env prepared ds h))) \<Longrightarrow>
   \<exists>node. (ch, node) \<in> set ds \<and> delivery_data env prepared node = Some data"
proof (induction ds arbitrary: h)
  case (Cons d rest)
  obtain ch' node where d: "d = (ch', node)" by (cases d)
  obtain h1 where "deliver_each env prepared (d # rest) h =
      (case delivery_data env prepared node of
         None \<Rightarrow> (False, [], h1)
       | Some data \<Rightarrow>
           let (ok, sent, h) = deliver_each env prepared rest h1 in (ok, (ch', data) # sent, h))"
    by (simp add: d Let_def)
  with Cons.prems obtain data' where data': "delivery_data env prepared node = Some data'"
    and "(ch, data) = (ch', data') \<or> (ch, data) \<in> set (fst (snd (deliver_each env prepared rest h1)))"
    by (simp split: option.splits prod.splits)
  with Cons.IH d show ?case by fastforce
qed simp

lemma with_action_class_frame [simp]:
  "msg_routing (with_action_class m) = msg_routing m"
  "msg_payload (with_action_class m) = msg_payload m"
  "mt_msg (msg_meta (with_action_class m)) = mt_msg (msg_meta m)"
  "mt_msg_type (msg_meta (with_action_class m)) = mt_msg_type (msg_meta m)"
  "mt_via_tap (msg_meta (with_action_class m)) = mt_via_tap (msg_meta m)"
  "mt_thread_id (msg_meta (with_action_class m)) = mt_thread_id (msg_meta m)"
  "mt_memory_package (msg_meta (with_action_class m)) = mt_memory_package (msg_meta m)"
  by (simp_all add: with_action_class_def)

lemma with_package_frame [simp]:
  "msg_routing (with_package p m) = msg_routing m" "msg_payload (with_package p m) = msg_payload m"
  "mt_msg (msg_meta (with_package p m)) = mt_msg (msg_meta m)"
  "mt_msg_type (msg_meta (with_package p m)) = mt_msg_type (msg_meta m)"
  "mt_via_tap (msg_meta (with_package p m)) = mt_via_tap (msg_meta m)"
  "mt_thread_id (msg_meta (with_package p m)) = mt_thread_id (msg_meta m)"
  "mt_memory_package (msg_meta (with_package p m)) = p"
  by (simp_all add: with_package_def)

text \<open>What the gate demands of a message that is delivered.\<close>

definition authority_ok :: "policy_eval \<Rightarrow> str \<Rightarrow> message \<Rightarrow> bool \<Rightarrow> bool" where
  "authority_ok eval hive_id msg via_hub =
     (case protected_system_action (case mt_msg (msg_meta msg) of Some m \<Rightarrow> m | None \<Rightarrow> []) of
        Some action \<Rightarrow> \<not> via_hub \<and> \<not> mt_via_tap (msg_meta msg)
          \<and> authorize_system eval action (rt_src_l2_name (msg_routing msg)) hive_id
      | None \<Rightarrow> True)"

lemma prepare_iff:
  "prepare_local_delivery eval hive_id msg via_hub = Some prepared \<longleftrightarrow>
   authority_ok eval hive_id msg via_hub \<and> prepared = with_package None (with_action_class msg)"
  by (auto simp: prepare_local_delivery_def authority_ok_def Let_def split: option.splits)

text \<open>The message a delivery hands to a node: the routed one, with its class and with no package but
  the node's own, at most without its oldest turns.\<close>

definition delivered_form :: "delivery_env \<Rightarrow> message \<Rightarrow> str \<Rightarrow> message \<Rightarrow> bool" where
  "delivered_form env msg node m \<longleftrightarrow>
     (\<exists>cut. m = with_package cut (with_action_class msg) \<and>
        (cut = None \<or> (\<exists>p n. package_of_delivery env msg node = Some p \<and> cut = Some (drop_turns n p))))"

lemma package_of_delivery_prepared [simp]:
  "package_of_delivery env (with_package q (with_action_class m)) node = package_of_delivery env m node"
  by (simp add: package_of_delivery_def package_for_def should_enrich_with_memory_package_def
      canonical_thread_id_from_meta_def)

lemma delivered_formI:
  assumes "delivery_data env (with_package None (with_action_class msg)) node = Some data"
  shows "\<exists>m. delivered_form env msg node m \<and> de_to_vec env m = Some data"
proof -
  obtain cut where "de_to_vec env (with_package cut (with_action_class msg)) = Some data"
    and "cut = None \<or> (\<exists>p n. package_of_delivery env msg node = Some p \<and> cut = Some (drop_turns n p))"
    using delivery_data_shape [OF assms] by auto
  then show ?thesis unfolding delivered_form_def by blast
qed

lemma deliver_locally_sent:
  assumes "(ch, data) \<in> set (fst (snd (deliver_locally env ds msg via_hub h)))"
  shows "authority_ok (de_eval env) (de_hive_id env) msg via_hub \<and>
    (\<exists>node m. (ch, node) \<in> set ds \<and> delivered_form env msg node m \<and> de_to_vec env m = Some data)"
proof -
  obtain prepared where p: "prepare_local_delivery (de_eval env) (de_hive_id env) msg via_hub = Some prepared"
    and d: "(ch, data) \<in> set (fst (snd (deliver_each env prepared ds h)))"
    using assms by (auto simp: deliver_locally_def split: if_splits option.splits)
  obtain node where "(ch, node) \<in> set ds" "delivery_data env prepared node = Some data"
    using deliver_each_sent [OF d] by blast
  with p delivered_formI [of env msg node data] show ?thesis by (auto simp: prepare_iff)
qed

lemma serialize_for_local_delivery_form:
  assumes "serialize_for_local_delivery env msg via_hub node = Some (Some data)"
  shows "authority_ok (de_eval env) (de_hive_id env) msg via_hub \<and>
    (\<exists>m. delivered_form env msg node m \<and> de_to_vec env m = Some data)"
  using assms delivered_formI [of env msg node data]
  by (auto simp: serialize_for_local_delivery_def prepare_iff split: option.splits)

lemma package_of_deliveryD:
  assumes "package_of_delivery env msg node = Some p"
  shows "is_agent_node node \<and> (\<exists>e. e \<in> set (the (de_memory env)) \<and> me_agent_node e = node \<and>
    Some (me_thread_id e) = canonical_thread_id_from_meta (msg_meta msg) \<and> p = me_package e)"
  using assms
  by (auto simp: package_of_delivery_def package_for_def find_Some_iff split: if_splits option.splits
      dest: nth_mem)


section \<open>Properties\<close>

text \<open>C3: no protected system action is delivered without authority.  Whatever its \<^verbatim>\<open>msg_type\<close>, and
  whatever the case of its verb and the spaces around it, a message that names a protected action
  reaches a local node only if its sender was not learned through the hub, it is not a tap copy, and
  the system policy allows that action to the name the router stamped; a node-control or edge verb
  only from \<^verbatim>\<open>SY.admin@motherbee\<close>.\<close>

theorem protected_delivery_authorized:
  assumes "policy_faithful (de_eval env)"
    and "mt_msg (msg_meta msg) = Some named" "protected_system_action named = Some action"
    and "(ch, data) \<in> set (fst (snd (deliver_locally env ds msg via_hub h)))"
  shows "\<not> via_hub \<and> \<not> mt_via_tap (msg_meta msg) \<and>
    rego_allow action (rt_src_l2_name (msg_routing msg)) (de_hive_id env) \<and>
    (action \<in> set edge_service_actions \<union> set node_control_actions \<longrightarrow>
       parsed (rt_src_l2_name (msg_routing msg)) = Some (''SY.admin'', ''motherbee''))"
proof -
  have ok: "\<not> via_hub" "\<not> mt_via_tap (msg_meta msg)"
    "authorize_system (de_eval env) action (rt_src_l2_name (msg_routing msg)) (de_hive_id env)"
    using deliver_locally_sent [OF assms(4)] assms(2,3) by (auto simp: authority_ok_def)
  then have allow: "rego_allow action (rt_src_l2_name (msg_routing msg)) (de_hive_id env)"
    using assms(1) authorize_system_rego by blast
  then obtain role hive where "parsed (rt_src_l2_name (msg_routing msg)) = Some (role, hive)"
    using rego_allow_named by blast
  with ok allow rego_allow_control [OF allow] show ?thesis by blast
qed

definition demo_message :: message where
  "demo_message =
     (build_hello ''u'' ''t'' JNull)
       \<lparr> msg_routing := \<lparr> rt_src = ''u'', rt_src_l2_name = Some ''SY.admin@motherbee'',
                          rt_dst = Unicast ''AI.a@w'', rt_ttl = 5, rt_trace_id = ''t'' \<rparr>,
         msg_meta := meta_default \<lparr> mt_msg_type := ''admin'', mt_msg := Some '' system_update'',
                                    mt_thread_id := Some ''th'' \<rparr> \<rparr>"

definition demo_to_vec :: "message \<Rightarrow> bytes option" where
  "demo_to_vec m =
     Some (case mt_memory_package (msg_meta m) of
             None \<Rightarrow> []
           | Some p \<Rightarrow> concat (map (\<lambda>t. turn_text t @ '','') (package_turns p)))"

definition demo_env :: delivery_env where
  "demo_env = \<lparr> de_eval = rego_eval, de_to_vec = demo_to_vec, de_turn_vec = (\<lambda>t. Some (turn_text t)),
                de_hive_id = ''w'', de_memory = None, de_now = 5 \<rparr>"

lemma demo_sent:
  "fst (snd (deliver_locally demo_env [(0::nat, ''IO.b@w'')] demo_message False demo_handle)) = [(0, [])]"
  by code_simp

theorem protected_delivery_authorized_witness:
  "fst (snd (deliver_locally demo_env [(0::nat, ''IO.b@w'')] demo_message False demo_handle)) = [(0, [])] \<and>
   parsed (Some ''SY.admin@motherbee'') = Some (''SY.admin'', ''motherbee'')"
proof -
  have p: "protected_system_action '' system_update'' = Some ''SYSTEM_UPDATE''" by code_simp
  note sent = demo_sent
  have "mt_msg (msg_meta demo_message) = Some '' system_update''" "policy_faithful (de_eval demo_env)"
    by (simp_all add: demo_message_def demo_env_def)
  from protected_delivery_authorized [OF this(2,1) p, of 0 "[]"] sent
  have "''SYSTEM_UPDATE'' \<in> set edge_service_actions \<union> set node_control_actions \<longrightarrow>
      parsed (rt_src_l2_name (msg_routing demo_message)) = Some (''SY.admin'', ''motherbee'')"
    by (metis list.set_intros(1))
  then show ?thesis using sent by (simp add: node_control_actions_def demo_message_def)
qed

text \<open>C34: what an agent is handed.  Every copy of a message that reaches a local node is the routed
  message with its action class and without the sender's memory package; a package in it is the one
  the memory region holds for this thread and this very node, at most without its oldest turns, and
  only an agent gets one.\<close>

theorem delivered_package_is_own:
  assumes "(ch, data) \<in> set (fst (snd (deliver_locally env ds msg via_hub h)))"
  shows "\<exists>node m. (ch, node) \<in> set ds \<and> de_to_vec env m = Some data \<and>
    with_package None m = with_package None (with_action_class msg) \<and>
    (\<forall>p. mt_memory_package (msg_meta m) = Some p \<longrightarrow>
       is_agent_node node \<and>
       (\<exists>e n. e \<in> set (the (de_memory env)) \<and> me_agent_node e = node \<and>
          Some (me_thread_id e) = canonical_thread_id_from_meta (msg_meta msg) \<and>
          p = drop_turns n (me_package e)))"
proof -
  obtain node m where nm: "(ch, node) \<in> set ds" "delivered_form env msg node m" "de_to_vec env m = Some data"
    using deliver_locally_sent [OF assms] by blast
  then obtain cut where m: "m = with_package cut (with_action_class msg)"
    and cut: "cut = None \<or> (\<exists>p n. package_of_delivery env msg node = Some p \<and> cut = Some (drop_turns n p))"
    by (auto simp: delivered_form_def)
  have "is_agent_node node \<and> (\<exists>e n. e \<in> set (the (de_memory env)) \<and> me_agent_node e = node \<and>
      Some (me_thread_id e) = canonical_thread_id_from_meta (msg_meta msg) \<and> p = drop_turns n (me_package e))"
    if "cut = Some p" for p
    using cut that by (auto dest!: package_of_deliveryD)
  then show ?thesis using nm m by (intro exI [of _ node] exI [of _ m]) auto
qed

theorem delivered_package_is_own_witness:
  "\<exists>node m. (0::nat, node) \<in> set [(0, ''IO.b@w'')] \<and> demo_to_vec m = Some [] \<and>
    with_package None m = with_package None (with_action_class demo_message)"
proof -
  have "(0, []) \<in> set (fst (snd (deliver_locally demo_env [(0::nat, ''IO.b@w'')] demo_message False demo_handle)))"
    by (simp add: demo_sent)
  from delivered_package_is_own [OF this] obtain node m
    where "(0::nat, node) \<in> set [(0, ''IO.b@w'')]" "de_to_vec demo_env m = Some []"
      "with_package None m = with_package None (with_action_class demo_message)"
    by blast
  moreover have "de_to_vec demo_env = demo_to_vec" by (simp add: demo_env_def)
  ultimately show ?thesis by (intro exI [of _ node] exI [of _ m] conjI) simp_all
qed

text \<open>The package never costs the message, and loses no more than it must.  The loop that cuts a
  package to a frame always returns; what it returns is the message with the longest run of the
  newest turns that fits a frame, or without the package when not even the package without turns
  fits.\<close>

theorem package_cut_maximal:
  assumes "turns_additive to_vec turn_vec"
  shows "\<exists>data cut. serialize_with_package to_vec turn_vec prepared package = Some data \<and>
    to_vec (with_package cut prepared) = Some data \<and>
    (case cut of
       None \<Rightarrow> \<forall>m \<le> length (package_turns package).
         size_with to_vec prepared (Some (drop_turns m package)) > MAX_FRAME_SIZE
     | Some p \<Rightarrow> \<exists>n \<le> length (package_turns package). p = drop_turns n package \<and>
         length data \<le> MAX_FRAME_SIZE \<and>
         (\<forall>m < n. size_with to_vec prepared (Some (drop_turns m package)) > MAX_FRAME_SIZE))"
  unfolding serialize_with_package_def
  by (rule serialize_package_maximal [OF assms, of _ 0]) simp_all

definition demo_turn :: "str \<Rightarrow> memory_turn" where
  "demo_turn t = \<lparr> turn_direction_of = TurnIn, turn_src_ilk = None, turn_via = None, turn_writer = None,
     turn_to = None, turn_to_via = None, turn_text = t, turn_attachments = 0, turn_choice = None, turn_ts = [] \<rparr>"

definition demo_package :: "memory_turn list \<Rightarrow> memory_package" where
  "demo_package ts = \<lparr> package_version = 5, package_thread_id = ''th'', dominant_context = None,
     dominant_reason = None, package_contexts = [], package_reasons = [], package_memories = [],
     package_feelings = [], package_news = [], package_turns = ts, package_truncated = None \<rparr>"

lemma demo_additive: "turns_additive demo_to_vec (\<lambda>t. Some (turn_text t))"
  by (auto simp: turns_additive_def demo_to_vec_def size_with_def)

theorem package_cut_maximal_witness:
  "serialize_with_package demo_to_vec (\<lambda>t. Some (turn_text t)) demo_message
     (demo_package [demo_turn (replicate 131072 (CHR ''x'')), demo_turn ''b'']) = Some ''b,''"
proof -
  let ?p = "demo_package [demo_turn (replicate 131072 (CHR ''x'')), demo_turn ''b'']"
  obtain data cut where d: "serialize_with_package demo_to_vec (\<lambda>t. Some (turn_text t)) demo_message ?p = Some data"
    "demo_to_vec (with_package cut demo_message) = Some data"
    and c: "case cut of
       None \<Rightarrow> \<forall>m \<le> length (package_turns ?p).
         size_with demo_to_vec demo_message (Some (drop_turns m ?p)) > MAX_FRAME_SIZE
     | Some p \<Rightarrow> \<exists>n \<le> length (package_turns ?p). p = drop_turns n ?p \<and> length data \<le> MAX_FRAME_SIZE \<and>
         (\<forall>m < n. size_with demo_to_vec demo_message (Some (drop_turns m ?p)) > MAX_FRAME_SIZE)"
    using package_cut_maximal [OF demo_additive] by blast
  have one: "\<not> size_with demo_to_vec demo_message (Some (drop_turns 1 ?p)) > MAX_FRAME_SIZE"
    by (simp add: size_with_def demo_to_vec_def demo_package_def demo_turn_def drop_turns_def MAX_FRAME_SIZE_def)
  have zero: "size_with demo_to_vec demo_message (Some (drop_turns 0 ?p)) > MAX_FRAME_SIZE"
    by (simp add: size_with_def demo_to_vec_def demo_package_def demo_turn_def drop_turns_def MAX_FRAME_SIZE_def)
  have len: "length (package_turns ?p) = 2" by (simp add: demo_package_def)
  obtain n where n: "cut = Some (drop_turns n ?p)" "length data \<le> MAX_FRAME_SIZE" "n \<le> 2"
    and before: "\<forall>m < n. size_with demo_to_vec demo_message (Some (drop_turns m ?p)) > MAX_FRAME_SIZE"
    using c one len by (cases cut) fastforce+
  have "n \<noteq> 0"
  proof
    assume "n = 0"
    with d(2) n(1) have "size_with demo_to_vec demo_message (Some (drop_turns 0 ?p)) = length data"
      by (simp add: size_with_def)
    with zero n(2) show False by linarith
  qed
  moreover have "\<not> 1 < n" using before one by blast
  ultimately have "n = 1" by simp
  with n(1) d show ?thesis by (simp add: demo_to_vec_def demo_package_def demo_turn_def drop_turns_def)
qed

end
