(* ===== verification/Message_Trace.thy ===== *)
theory Message_Trace
  imports Protocol "HOL-Library.AList"
begin

text \<open>
  The trace of a message's cycle (\<^verbatim>\<open>src/crates/fluxbee_sdk/src/message_trace.rs\<close>): the entry a node
  writes on a message as it sends it, in \<^verbatim>\<open>meta.context.trace\<close>, and how the trace is read.  A JSON
  object is an association list, an entry its derived JSON form.  The time in RFC 3339 and whether a
  text is a UUID are arguments.
\<close>

section \<open>Entries\<close>

definition TRACE_KEY :: str where "TRACE_KEY = ''trace''"
definition MAX_ACT_WORDS :: nat where "MAX_ACT_WORDS = 8"
definition MAX_ACT_WORD_CHARS :: nat where "MAX_ACT_WORD_CHARS = 32"

record trace_entry =
  te_t :: str
  te_from :: str
  te_to :: "str option"
  te_act :: "str list"

record trace_note =
  tn_to :: "str option"
  tn_act :: "str list"

definition entry_json :: "trace_entry \<Rightarrow> json" where
  "entry_json e =
     JObj ([(''t'', JStr (te_t e)), (''from'', JStr (te_from e))]
       @ (case te_to e of Some to \<Rightarrow> [(''to'', JStr to)] | None \<Rightarrow> [])
       @ (if te_act e = [] then [] else [(''act'', JArr (map JStr (te_act e)))]))"

fun str_list_of :: "json list \<Rightarrow> str list option" where
  "str_list_of [] = Some []"
| "str_list_of (JStr s # rest) = map_option (Cons s) (str_list_of rest)"
| "str_list_of (_ # rest) = None"

text \<open>The derived reading: \<^verbatim>\<open>t\<close> and \<^verbatim>\<open>from\<close> are texts, \<^verbatim>\<open>to\<close> a text, null or missing, \<^verbatim>\<open>act\<close> a list
  of texts or missing.\<close>

definition entry_of_json :: "json \<Rightarrow> trace_entry option" where
  "entry_of_json j =
     (case j of
        JObj kvs \<Rightarrow>
          (case (map_of kvs ''t'', map_of kvs ''from'') of
             (Some (JStr t), Some (JStr from)) \<Rightarrow>
               (case (case map_of kvs ''to'' of
                        None \<Rightarrow> Some None | Some JNull \<Rightarrow> Some None
                      | Some (JStr to) \<Rightarrow> Some (Some to) | _ \<Rightarrow> None) of
                  None \<Rightarrow> None
                | Some to \<Rightarrow>
                    map_option (\<lambda>act. \<lparr> te_t = t, te_from = from, te_to = to, te_act = act \<rparr>)
                      (case map_of kvs ''act'' of
                         None \<Rightarrow> Some [] | Some (JArr l) \<Rightarrow> str_list_of l | _ \<Rightarrow> None))
           | _ \<Rightarrow> None)
      | _ \<Rightarrow> None)"


section \<open>Writing and reading\<close>

fun take_chars :: "nat \<Rightarrow> str \<Rightarrow> str" where
  "take_chars n [] = []"
| "take_chars n (c # cs) =
     (if is_continuation c then c # take_chars n cs
      else case n of 0 \<Rightarrow> [] | Suc m \<Rightarrow> c # take_chars m cs)"

text \<open>The loop of \<^verbatim>\<open>act_words\<close>, which stops when it has kept enough.\<close>

fun act_words_from :: "str list \<Rightarrow> str list \<Rightarrow> str list" where
  "act_words_from kept [] = kept"
| "act_words_from kept (w # ws) =
     (let word = take_chars MAX_ACT_WORD_CHARS (trim w)
      in if word = [] \<or> word \<in> set kept then act_words_from kept ws
         else let kept = kept @ [word]
              in if length kept = MAX_ACT_WORDS then kept else act_words_from kept ws)"

definition act_words :: "str list \<Rightarrow> str list" where
  "act_words ws = act_words_from [] ws"

definition destination_name :: "(str \<Rightarrow> uuid option) \<Rightarrow> destination \<Rightarrow> str option" where
  "destination_name parse_uuid dst =
     (case dst of
        Unicast value \<Rightarrow> if parse_uuid value = None \<and> trim value \<noteq> [] then Some (trim value) else None
      | Broadcast \<Rightarrow> Some ''broadcast''
      | Resolve \<Rightarrow> None)"

definition trace_list :: "(str \<times> json) list \<Rightarrow> json list" where
  "trace_list kvs = (case map_of kvs TRACE_KEY of Some (JArr l) \<Rightarrow> l | _ \<Rightarrow> [])"

definition trace_append :: "trace_entry \<Rightarrow> meta \<Rightarrow> meta" where
  "trace_append e meta =
     (let context = unwrap_or (JObj []) (mt_context meta)
      in meta \<lparr> mt_context := Some
           (case context of
              JObj kvs \<Rightarrow> JObj (AList.update TRACE_KEY (JArr (trace_list kvs @ [entry_json e])) kvs)
            | _ \<Rightarrow> context) \<rparr>)"

definition write_entry :: "(str \<Rightarrow> uuid option) \<Rightarrow> str \<Rightarrow> str \<Rightarrow> trace_note \<Rightarrow> message \<Rightarrow> message" where
  "write_entry parse_uuid now from note msg =
     (if trim from = [] \<or> \<not> is_solution_kind (mt_msg_type (msg_meta msg)) then msg
      else let to = (case tn_to note of
                 Some to \<Rightarrow> if trim to \<noteq> [] then Some (trim to)
                            else destination_name parse_uuid (rt_dst (msg_routing msg))
               | None \<Rightarrow> destination_name parse_uuid (rt_dst (msg_routing msg)))
           in msg \<lparr> msg_meta := trace_append
                \<lparr> te_t = now, te_from = trim from, te_to = to, te_act = act_words (tn_act note) \<rparr> (msg_meta msg) \<rparr>)"

definition trace_entries :: "json option \<Rightarrow> trace_entry list" where
  "trace_entries context =
     (case context of
        Some (JObj kvs) \<Rightarrow> List.map_filter entry_of_json (trace_list kvs)
      | _ \<Rightarrow> [])"

definition trace_origin :: "json option \<Rightarrow> str option" where
  "trace_origin context =
     (case context of
        Some (JObj kvs) \<Rightarrow>
          (case trace_list kvs of
             JObj e # _ \<Rightarrow>
               (case map_of e ''from'' of
                  Some (JStr from) \<Rightarrow> if trim from = [] then None else Some (trim from)
                | _ \<Rightarrow> None)
           | _ \<Rightarrow> None)
      | _ \<Rightarrow> None)"


section \<open>Lemmas\<close>

lemma str_list_of_map [simp]: "str_list_of (map JStr ws) = Some ws"
  by (induction ws) auto

lemma entry_round_trip [simp]: "entry_of_json (entry_json e) = Some e"
  by (cases "te_to e"; cases e) (auto simp: entry_json_def entry_of_json_def)

lemma trace_list_Nil [simp]: "trace_list [] = []"
  by (simp add: trace_list_def)

lemma act_words_from_bounds:
  assumes "distinct kept" "length kept < MAX_ACT_WORDS" "[] \<notin> set kept"
  shows "distinct (act_words_from kept ws) \<and> length (act_words_from kept ws) \<le> MAX_ACT_WORDS \<and>
    [] \<notin> set (act_words_from kept ws)"
  using assms
proof (induction ws arbitrary: kept)
  case (Cons w ws)
  let ?word = "take_chars MAX_ACT_WORD_CHARS (trim w)"
  show ?case
  proof (cases "?word = [] \<or> ?word \<in> set kept")
    case False
    with Cons show ?thesis by (cases "length (kept @ [?word]) = MAX_ACT_WORDS") (auto simp: Let_def)
  qed (use Cons in \<open>auto simp: Let_def\<close>)
qed simp


section \<open>Properties\<close>

text \<open>C35: the trace a node leaves.  Writing on a solution message appends one entry, from the trimmed name of
  the sender, to what the trace reads as, and changes no other key of the context and nothing else of the
  message; the origin of the cycle stays the first entry's.  The entry keeps at most eight different, non-blank
  words.  On any other message, or without a name, nothing changes.\<close>

theorem trace_written:
  assumes "mt_context (msg_meta msg) = None \<or> (\<exists>kvs. mt_context (msg_meta msg) = Some (JObj kvs))"
  shows "let msg' = write_entry parse_uuid now from note msg;
             context = mt_context (msg_meta msg); context' = mt_context (msg_meta msg')
    in if trim from = [] \<or> \<not> is_solution_kind (mt_msg_type (msg_meta msg)) then msg' = msg
       else (\<exists>e. trace_entries context' = trace_entries context @ [e] \<and> te_from e = trim from \<and> te_t e = now \<and>
               distinct (te_act e) \<and> length (te_act e) \<le> MAX_ACT_WORDS \<and> [] \<notin> set (te_act e)) \<and>
            (trace_origin context \<noteq> None \<longrightarrow> trace_origin context' = trace_origin context) \<and>
            (\<forall>key. key \<noteq> TRACE_KEY \<longrightarrow>
               (\<exists>kvs'. context' = Some (JObj kvs') \<and>
                  map_of kvs' key = (case context of Some (JObj kvs) \<Rightarrow> map_of kvs key | _ \<Rightarrow> None))) \<and>
            msg_meta msg' = (msg_meta msg) \<lparr> mt_context := context' \<rparr> \<and>
            msg_routing msg' = msg_routing msg \<and> msg_payload msg' = msg_payload msg"
proof (cases "trim from = [] \<or> \<not> is_solution_kind (mt_msg_type (msg_meta msg))")
  case True
  then show ?thesis by (simp add: write_entry_def)
next
  case False
  obtain kvs where kvs: "unwrap_or (JObj []) (mt_context (msg_meta msg)) = JObj kvs"
    "mt_context (msg_meta msg) = None \<and> kvs = [] \<or> mt_context (msg_meta msg) = Some (JObj kvs)"
    using assms by auto
  have words: "distinct (act_words ws) \<and> length (act_words ws) \<le> MAX_ACT_WORDS \<and> [] \<notin> set (act_words ws)" for ws
    unfolding act_words_def by (rule act_words_from_bounds) (simp_all add: MAX_ACT_WORDS_def)
  obtain e where e: "write_entry parse_uuid now from note msg =
      msg \<lparr> msg_meta := trace_append e (msg_meta msg) \<rparr>" "te_from e = trim from" "te_t e = now"
    "te_act e = act_words (tn_act note)"
    using False by (auto simp: write_entry_def Let_def)
  let ?kvs = "AList.update TRACE_KEY (JArr (trace_list kvs @ [entry_json e])) kvs"
  have ctx: "trace_append e (msg_meta msg) = (msg_meta msg) \<lparr> mt_context := Some (JObj ?kvs) \<rparr>"
    using kvs(1) by (simp add: trace_append_def)
  have list: "trace_list ?kvs = trace_list kvs @ [entry_json e]"
    by (simp add: trace_list_def update_conv')
  have "trace_entries (Some (JObj ?kvs)) = trace_entries (mt_context (msg_meta msg)) @ [e]"
    using kvs(2) by (auto simp: trace_entries_def list List.map_filter_def)
  moreover have "trace_origin (mt_context (msg_meta msg)) \<noteq> None \<Longrightarrow>
      trace_origin (Some (JObj ?kvs)) = trace_origin (mt_context (msg_meta msg))"
    using kvs(2) by (auto simp: trace_origin_def list split: list.splits)
  moreover have "map_of ?kvs key = (case mt_context (msg_meta msg) of Some (JObj kvs) \<Rightarrow> map_of kvs key | _ \<Rightarrow> None)"
    if "key \<noteq> TRACE_KEY" for key
    using kvs(2) that by (auto simp: update_conv')
  ultimately show ?thesis using False e ctx words by (simp add: Let_def)
qed

definition demo_traced :: message where
  "demo_traced = build_system_message ''u'' Resolve 3 ''t'' ''M'' JNull \<lparr> msg_meta := meta_default
     \<lparr> mt_msg_type := ''user'', mt_context := Some (JObj [(''k'', JNull)]) \<rparr> \<rparr>"

theorem trace_written_witness:
  "\<exists>e. trace_entries (mt_context (msg_meta (write_entry (\<lambda>_. None) ''now'' ''RT.r@m''
       \<lparr> tn_to = Some ''AI.a@m'', tn_act = [''resolve''] \<rparr> demo_traced))) = [e] \<and> te_from e = ''RT.r@m''"
proof -
  have "trim ''RT.r@m'' = ''RT.r@m''" "is_solution_kind (mt_msg_type (msg_meta demo_traced))"
    "trace_entries (mt_context (msg_meta demo_traced)) = []"
    by code_simp+
  moreover have "mt_context (msg_meta demo_traced) = None \<or> (\<exists>kvs. mt_context (msg_meta demo_traced) = Some (JObj kvs))"
    by (simp add: demo_traced_def)
  from trace_written [OF this, of "\<lambda>_. None" "''now''" "''RT.r@m''" "\<lparr> tn_to = Some ''AI.a@m'', tn_act = [''resolve''] \<rparr>"]
  show ?thesis using calculation by (auto simp: Let_def)
qed

end
