(* ===== verification/Router.thy ===== *)
theory Router
  imports Lsa_Exchange Delivery Message_Trace
begin

text \<open>
  How a router handles a frame (\<^verbatim>\<open>src/src/router/mod.rs\<close>): one from a node of its own, one from another
  hive, one from a sibling router; what it sends back, forwards and delivers, and the copies for taps.
  A handler is a function of the state that ends in a value, in an error (\<^verbatim>\<open>?\<close>), or waiting for a
  lock it already holds.  What it sends is appended to \<^verbatim>\<open>rs_sent\<close>, each frame with the channel it goes
  to.  The one lock a handler can ask for while holding it is that of \<^verbatim>\<open>peers\<close>; it is part of the
  state.  The choice of a destination by policy (\<^verbatim>\<open>resolve_target_with_identity\<close>) is an argument.
\<close>

section \<open>State and actions\<close>

datatype channel = ToNode uuid | ToPeer uuid | ToWan str | ToSession

record broadcast_cache =
  bc_seen :: "(uuid \<times> nat) list"
  bc_ttl_ms :: nat

record router_state =
  rs_lsa :: lsa_context
  rs_is_gateway :: bool
  rs_peers :: "uuid list"
  rs_peer_routers :: "(uuid \<times> bool) list"
  rs_broadcast_cache :: broadcast_cache
  rs_stream :: stream_handle
  rs_taps :: "tap_entry list option"
  rs_sent :: "(channel \<times> bytes) list"
  rs_peers_locked :: bool

text \<open>\<^verbatim>\<open>rv_resolve\<close>: an error, no target, or the target.  \<^verbatim>\<open>rv_opa_reload\<close>: the payload of a reload
  decodes.  \<^verbatim>\<open>rv_readable\<close>: the LSA region can be read.  \<^verbatim>\<open>rv_fresh\<close>: the trace of a tap's copy.\<close>

record router_env =
  rv_codec :: codec_env
  rv_delivery :: delivery_env
  rv_resolve :: "message \<Rightarrow> str option option"
  rv_opa_reload :: "json \<Rightarrow> bool"
  rv_readable :: bool
  rv_fresh :: "str \<Rightarrow> uuid"
  rv_clock :: str

datatype 'a outcome = Value 'a | Raised | Stuck

type_synonym 'a act = "router_state \<Rightarrow> 'a outcome \<times> router_state"

definition ret :: "'a \<Rightarrow> 'a act" where
  "ret x = (\<lambda>s. (Value x, s))"

definition andthen :: "'a act \<Rightarrow> ('a \<Rightarrow> 'b act) \<Rightarrow> 'b act" where
  "andthen m f =
     (\<lambda>s. case m s of
        (Value x, s') \<Rightarrow> f x s'
      | (Raised, s') \<Rightarrow> (Raised, s')
      | (Stuck, s') \<Rightarrow> (Stuck, s'))"

definition reading :: "(router_state \<Rightarrow> 'a act) \<Rightarrow> 'a act" where
  "reading f = (\<lambda>s. f s s)"

text \<open>\<^verbatim>\<open>let _ =\<close> on a result: an error is dropped.\<close>

definition ignoring :: "'a act \<Rightarrow> unit act" where
  "ignoring m =
     (\<lambda>s. case m s of
        (Value _, s') \<Rightarrow> (Value (), s')
      | (Raised, s') \<Rightarrow> (Value (), s')
      | (Stuck, s') \<Rightarrow> (Stuck, s'))"

definition emit_all :: "router_env \<Rightarrow> channel list \<Rightarrow> message \<Rightarrow> unit act" where
  "emit_all env chs m =
     (\<lambda>s. case de_to_vec (rv_delivery env) m of
        None \<Rightarrow> (Raised, s)
      | Some data \<Rightarrow> (Value (), s \<lparr> rs_sent := rs_sent s @ map (\<lambda>ch. (ch, data)) chs \<rparr>))"

text \<open>\<^verbatim>\<open>peers.lock()\<close> for one lookup, and held over the body of an \<^verbatim>\<open>if let\<close>: the guard is a
  temporary of the condition and lives to the end of the statement.\<close>

definition lock_peers :: "uuid list act" where
  "lock_peers = (\<lambda>s. if rs_peers_locked s then (Stuck, s) else (Value (rs_peers s), s))"

definition if_peer :: "uuid \<Rightarrow> 'a act \<Rightarrow> 'a \<Rightarrow> 'a act" where
  "if_peer u body absent =
     (\<lambda>s. if rs_peers_locked s then (Stuck, s)
          else if u \<notin> set (rs_peers s) then (Value absent, s)
          else case body (s \<lparr> rs_peers_locked := True \<rparr>) of
            (Stuck, s') \<Rightarrow> (Stuck, s')
          | (r, s') \<Rightarrow> (r, s' \<lparr> rs_peers_locked := False \<rparr>))"



section \<open>Sending\<close>

definition show_uuid :: "router_env \<Rightarrow> uuid \<Rightarrow> str" where
  "show_uuid env u = ce_show_uuid (rv_codec env) u"

definition parse_uuid :: "router_env \<Rightarrow> str \<Rightarrow> uuid option" where
  "parse_uuid env s = ce_parse_uuid (rv_codec env) s"

definition router_name :: "router_env \<Rightarrow> uuid \<Rightarrow> str" where
  "router_name env u = ''router:'' @ show_uuid env u"

definition original_dst :: "message \<Rightarrow> str" where
  "original_dst msg =
     (case rt_dst (msg_routing msg) of Unicast v \<Rightarrow> v | Broadcast \<Rightarrow> ''broadcast'' | Resolve \<Rightarrow> ''null'')"

definition unreachable_message :: "router_env \<Rightarrow> uuid \<Rightarrow> message \<Rightarrow> str \<Rightarrow> message" where
  "unreachable_message env router msg reason =
     build_unreachable (show_uuid env router) (rt_src (msg_routing msg)) (rt_trace_id (msg_routing msg))
       (original_dst msg) reason"

definition send_unreachable_to :: "router_env \<Rightarrow> channel \<Rightarrow> message \<Rightarrow> str \<Rightarrow> unit act" where
  "send_unreachable_to env ch msg reason =
     reading (\<lambda>s. emit_all env [ch] (unreachable_message env (lc_router_uuid (rs_lsa s)) msg reason))"

definition ttl_exceeded_message :: "router_env \<Rightarrow> uuid \<Rightarrow> message \<Rightarrow> message" where
  "ttl_exceeded_message env router msg =
     build_ttl_exceeded (show_uuid env router) (rt_src (msg_routing msg)) (rt_trace_id (msg_routing msg))
       (original_dst msg) (router_name env router)"

definition send_ttl_exceeded_to :: "router_env \<Rightarrow> channel \<Rightarrow> message \<Rightarrow> unit act" where
  "send_ttl_exceeded_to env ch msg =
     reading (\<lambda>s. emit_all env [ch] (ttl_exceeded_message env (lc_router_uuid (rs_lsa s)) msg))"

definition one_hop :: "message \<Rightarrow> message" where
  "one_hop msg =
     (if rt_ttl (msg_routing msg) > 0
      then msg \<lparr> msg_routing := (msg_routing msg) \<lparr> rt_ttl := rt_ttl (msg_routing msg) - 1 \<rparr> \<rparr> else msg)"

definition send_to_peer_router :: "router_env \<Rightarrow> uuid \<Rightarrow> message \<Rightarrow> bool act" where
  "send_to_peer_router env peer msg =
     andthen lock_peers (\<lambda>peers.
       if peer \<notin> set peers then ret False
       else andthen (emit_all env [ToPeer peer] (one_hop msg)) (\<lambda>_. ret True))"

definition send_to_wan_peer :: "router_env \<Rightarrow> str \<Rightarrow> message \<Rightarrow> bool act" where
  "send_to_wan_peer env hive msg =
     reading (\<lambda>s.
       if hive \<notin> fst ` set (lc_wan_peers (rs_lsa s)) then ret False
       else andthen (emit_all env [ToWan hive] (one_hop msg)) (\<lambda>_. ret True))"

definition broadcast_to_peers :: "router_env \<Rightarrow> message \<Rightarrow> unit act" where
  "broadcast_to_peers env msg =
     andthen lock_peers (\<lambda>peers.
       if peers = [] then ret () else emit_all env (map ToPeer peers) (one_hop msg))"

definition broadcast_to_wan :: "router_env \<Rightarrow> message \<Rightarrow> unit act" where
  "broadcast_to_wan env msg =
     reading (\<lambda>s.
       if lc_wan_peers (rs_lsa s) = [] then ret ()
       else emit_all env (map (ToWan \<circ> fst) (lc_wan_peers (rs_lsa s))) (one_hop msg))"

definition gateway_uuid :: "router_state \<Rightarrow> uuid option" where
  "gateway_uuid s = map_option fst (find snd (rs_peer_routers s))"

definition forward_to_hive :: "router_env \<Rightarrow> bool \<Rightarrow> channel \<Rightarrow> str \<Rightarrow> message \<Rightarrow> unit act" where
  "forward_to_hive env is_gateway ch hive msg =
     (if rt_ttl (msg_routing msg) \<le> 1 then send_ttl_exceeded_to env ch msg
      else if is_gateway then
        andthen (send_to_wan_peer env hive msg)
          (\<lambda>sent. if sent then ret () else send_unreachable_to env ch msg ''WAN_UNAVAILABLE'')
      else reading (\<lambda>s.
        case gateway_uuid s of
          None \<Rightarrow> send_unreachable_to env ch msg ''GATEWAY_UNAVAILABLE''
        | Some gateway \<Rightarrow>
            andthen (send_to_peer_router env gateway msg)
              (\<lambda>sent. if sent then ret () else send_unreachable_to env ch msg ''GATEWAY_UNAVAILABLE'')))"

definition forward_broadcast_to_wan :: "router_env \<Rightarrow> bool \<Rightarrow> channel \<Rightarrow> message \<Rightarrow> unit act" where
  "forward_broadcast_to_wan env is_gateway ch msg =
     (if rt_ttl (msg_routing msg) \<le> 2 then ret ()
      else if is_gateway then broadcast_to_wan env msg
      else reading (\<lambda>s.
        case gateway_uuid s of
          None \<Rightarrow> send_unreachable_to env ch msg ''GATEWAY_UNAVAILABLE''
        | Some gateway \<Rightarrow> andthen (send_to_peer_router env gateway msg) (\<lambda>_. ret ())))"

definition check_and_add :: "nat \<Rightarrow> uuid \<Rightarrow> broadcast_cache \<Rightarrow> bool \<times> broadcast_cache" where
  "check_and_add now trace_id cache =
     (let seen = filter (\<lambda>(_, ts). now - ts \<le> bc_ttl_ms cache) (bc_seen cache)
      in if trace_id \<in> fst ` set seen then (False, cache \<lparr> bc_seen := seen \<rparr>)
         else (True, cache \<lparr> bc_seen := AList.update trace_id now seen \<rparr>))"

definition broadcast_cache_new :: broadcast_cache where
  "broadcast_cache_new = \<lparr> bc_seen = [], bc_ttl_ms = 30000 \<rparr>"

definition first_seen :: "nat \<Rightarrow> uuid \<Rightarrow> bool act" where
  "first_seen now trace_id =
     (\<lambda>s. let (fresh, cache) = check_and_add now trace_id (rs_broadcast_cache s)
          in (Value fresh, s \<lparr> rs_broadcast_cache := cache \<rparr>))"

definition delivering :: "router_env \<Rightarrow> channel delivery list \<Rightarrow> message \<Rightarrow> bool \<Rightarrow> unit act" where
  "delivering env deliveries msg via_hub =
     (\<lambda>s. let (ok, sent, h) = deliver_locally (rv_delivery env) deliveries msg via_hub (rs_stream s)
          in (if ok then Value () else Raised, s \<lparr> rs_sent := rs_sent s @ sent, rs_stream := h \<rparr>))"


section \<open>Destinations\<close>

text \<open>Who sends: its name and VPN, and the channel errors go back on.\<close>

record origin =
  og_uuid :: uuid
  og_name :: str
  og_vpn :: nat
  og_reply :: channel
  og_gateway :: bool

definition og_handle :: "origin \<Rightarrow> node_handle" where
  "og_handle og = \<lparr> nh_name = og_name og, nh_vpn_id = og_vpn og, nh_connected_at = 0 \<rparr>"

definition og_allows :: "origin \<Rightarrow> message \<Rightarrow> str \<Rightarrow> nat \<Rightarrow> bool" where
  "og_allows og msg dst_name dst_vpn =
     vpn_allows_between (msg_meta msg) (og_name og) (og_vpn og) dst_name dst_vpn"

text \<open>What a handler goes on with: the deliveries to make, or \<^verbatim>\<open>None\<close> after an early return.\<close>

type_synonym deliveries = "channel delivery list option"

definition refuse :: "router_env \<Rightarrow> origin \<Rightarrow> message \<Rightarrow> str \<Rightarrow> deliveries act" where
  "refuse env og msg reason =
     andthen (send_unreachable_to env (og_reply og) msg reason) (\<lambda>_. ret (Some []))"

definition to_router :: "router_env \<Rightarrow> origin \<Rightarrow> message \<Rightarrow> uuid \<Rightarrow> deliveries act" where
  "to_router env og msg peer =
     (if rt_ttl (msg_routing msg) \<le> 1
      then andthen (send_ttl_exceeded_to env (og_reply og) msg) (\<lambda>_. ret None)
      else andthen (send_to_peer_router env peer msg)
             (\<lambda>sent. if sent then ret None else refuse env og msg ''PEER_UNAVAILABLE''))"

definition to_hive :: "router_env \<Rightarrow> origin \<Rightarrow> message \<Rightarrow> str \<Rightarrow> deliveries act" where
  "to_hive env og msg hive =
     andthen (forward_to_hive env (og_gateway og) (og_reply og) hive msg) (\<lambda>_. ret (Some []))"

definition to_local :: "router_env \<Rightarrow> origin \<Rightarrow> message \<Rightarrow> uuid \<Rightarrow> node_handle \<Rightarrow> deliveries act" where
  "to_local env og msg u h =
     (if og_allows og msg (nh_name h) (nh_vpn_id h) then ret (Some [(ToNode u, nh_name h)])
      else refuse env og msg ''VPN_BLOCKED'')"

definition remote_node :: "lsa_context \<Rightarrow> uuid \<Rightarrow> remote_node_info option" where
  "remote_node c u =
     (case find_remote_node (lc_lsa_snapshot c) u of
        Some info \<Rightarrow> Some info
      | None \<Rightarrow> find_reachable_node (lc_reachability c) u)"

definition to_uuid :: "router_env \<Rightarrow> origin \<Rightarrow> message \<Rightarrow> uuid \<Rightarrow> deliveries act" where
  "to_uuid env og msg u =
     reading (\<lambda>s.
       case map_of (lc_nodes (rs_lsa s)) u of
         Some h \<Rightarrow> to_local env og msg u h
       | None \<Rightarrow>
           (case map_of (lc_peer_nodes (rs_lsa s)) u of
              Some p \<Rightarrow>
                if og_allows og msg (pn_name p) (pn_vpn_id p) then to_router env og msg (pn_router_uuid p)
                else refuse env og msg ''VPN_BLOCKED''
            | None \<Rightarrow>
                (case remote_node (rs_lsa s) u of
                   Some remote \<Rightarrow>
                     if og_allows og msg (ri_name remote) (ri_vpn_id remote)
                     then to_hive env og msg (ri_next_hop_hive remote)
                     else refuse env og msg ''VPN_BLOCKED''
                 | None \<Rightarrow> refuse env og msg ''NODE_NOT_FOUND'')))"

definition to_name :: "router_env \<Rightarrow> origin \<Rightarrow> message \<Rightarrow> str \<Rightarrow> deliveries act" where
  "to_name env og msg target =
     reading (\<lambda>s.
       case resolve_by_name target (og_handle og) (lc_nodes (rs_lsa s)) (lc_fib (rs_lsa s)) (msg_meta msg) of
         RouteDrop \<Rightarrow> ret (Some [])
       | RouteUnreachable reason \<Rightarrow> refuse env og msg reason
       | RouteDeliver u \<Rightarrow>
           (case map_of (lc_nodes (rs_lsa s)) u of
              Some h \<Rightarrow> to_local env og msg u h
            | None \<Rightarrow> refuse env og msg ''NODE_NOT_FOUND'')
       | RouteRouter peer \<Rightarrow> to_router env og msg peer
       | RouteHive hive \<Rightarrow> to_hive env og msg hive)"

definition broadcast_targets :: "origin \<Rightarrow> message \<Rightarrow> nodes \<Rightarrow> channel delivery list" where
  "broadcast_targets og msg nodes =
     List.map_filter (\<lambda>(u, h).
       if u = og_uuid og then None
       else if \<not> vpn_allows_broadcast_between (msg_meta msg) (og_name og) (og_vpn og) (nh_name h) (nh_vpn_id h)
         then None
       else case mt_target (msg_meta msg) of
         Some pattern \<Rightarrow> if pattern_match pattern (nh_name h) then Some (ToNode u, nh_name h) else None
       | None \<Rightarrow> Some (ToNode u, nh_name h)) nodes"


section \<open>A frame from a node\<close>

definition tap_matches :: "str \<Rightarrow> str \<Rightarrow> tap_entry \<Rightarrow> bool" where
  "tap_matches src dst t =
     (tp_enabled t \<noteq> 0
      \<and> bytes_to_string (tp_match_src t) (tp_match_src_len t) = src
      \<and> bytes_to_string (tp_match_dst t) (tp_match_dst_len t) = dst
      \<and> bytes_to_string (tp_target t) (tp_target_len t) \<noteq> [])"

definition lsa_tap_matches :: "lsa_snapshot \<Rightarrow> str \<Rightarrow> str \<Rightarrow> remote_tap_entry \<Rightarrow> bool" where
  "lsa_tap_matches s src dst t =
     (rp_enabled t \<noteq> 0 \<and> rule_active (rp_flags t)
      \<and> bytes_to_string (rp_match_src t) (rp_match_src_len t) = src
      \<and> bytes_to_string (rp_match_dst t) (rp_match_dst_len t) = dst
      \<and> lsa_tap_applies s t src dst
      \<and> bytes_to_string (rp_target t) (rp_target_len t) \<noteq> [])"

definition tap_targets :: "tap_entry list \<Rightarrow> lsa_snapshot option \<Rightarrow> str \<Rightarrow> str \<Rightarrow> str list" where
  "tap_targets taps snapshot src dst =
     remdups_adj (sort
       (map (\<lambda>t. bytes_to_string (tp_target t) (tp_target_len t)) (filter (tap_matches src dst) taps)
        @ (case snapshot of
             None \<Rightarrow> []
           | Some s \<Rightarrow> map (\<lambda>t. bytes_to_string (rp_target t) (rp_target_len t))
                         (filter (lsa_tap_matches s src dst) (ls_taps s)))))"

definition tap_dst_name :: "router_env \<Rightarrow> lsa_context \<Rightarrow> str \<Rightarrow> str" where
  "tap_dst_name env c dst_label =
     (case parse_uuid env dst_label of
        None \<Rightarrow> dst_label
      | Some u \<Rightarrow>
          (case map_of (lc_nodes c) u of
             Some h \<Rightarrow> nh_name h
           | None \<Rightarrow>
               (case map_of (lc_peer_nodes c) u of
                  Some p \<Rightarrow> pn_name p
                | None \<Rightarrow> unwrap_or [] (map_option ri_name (find_remote_node (lc_lsa_snapshot c) u)))))"

definition tap_copy :: "router_env \<Rightarrow> message \<Rightarrow> str \<Rightarrow> message" where
  "tap_copy env msg target =
     msg \<lparr> msg_meta := (msg_meta msg) \<lparr> mt_via_tap := True \<rparr>,
           msg_routing := (msg_routing msg) \<lparr> rt_dst := Unicast target,
                                              rt_trace_id := show_uuid env (rv_fresh env target) \<rparr> \<rparr>"

definition send_tap_copy :: "router_env \<Rightarrow> origin \<Rightarrow> message \<Rightarrow> str \<Rightarrow> unit act" where
  "send_tap_copy env og msg target =
     (let copy = tap_copy env msg target in
      reading (\<lambda>s.
        case resolve_by_name target (og_handle og) (lc_nodes (rs_lsa s)) (lc_fib (rs_lsa s)) (msg_meta copy) of
          RouteDeliver u \<Rightarrow>
            (case map_of (lc_nodes (rs_lsa s)) u of
               None \<Rightarrow> ret ()
             | Some h \<Rightarrow>
                 if \<not> og_allows og copy (nh_name h) (nh_vpn_id h) then ret ()
                 else case serialize_for_local_delivery (rv_delivery env) copy False (nh_name h) of
                   Some (Some data) \<Rightarrow> (\<lambda>s. (Value (), s \<lparr> rs_sent := rs_sent s @ [(ToNode u, data)] \<rparr>))
                 | _ \<Rightarrow> ret ())
        | RouteRouter peer \<Rightarrow>
            if rt_ttl (msg_routing copy) \<le> 1 then ret ()
            else ignoring (send_to_peer_router env peer copy)
        | RouteHive hive \<Rightarrow> ignoring (forward_to_hive env (og_gateway og) (og_reply og) hive copy)
        | _ \<Rightarrow> ret ()))"

fun each :: "('a \<Rightarrow> unit act) \<Rightarrow> 'a list \<Rightarrow> unit act" where
  "each f [] = ret ()"
| "each f (x # xs) = andthen (f x) (\<lambda>_. each f xs)"

definition fanout_taps_for_unicast :: "router_env \<Rightarrow> origin \<Rightarrow> message \<Rightarrow> str \<Rightarrow> tap_entry list \<Rightarrow> unit act" where
  "fanout_taps_for_unicast env og msg dst_label taps =
     reading (\<lambda>s.
       let src_name = unwrap_or [] (rt_src_l2_name (msg_routing msg));
           dst_name = tap_dst_name env (rs_lsa s) dst_label
       in if src_name = [] \<or> dst_name = [] then ret ()
          else each (send_tap_copy env og msg)
                 (tap_targets taps (lc_lsa_snapshot (rs_lsa s)) src_name dst_name))"

definition tapped :: "router_env \<Rightarrow> origin \<Rightarrow> message \<Rightarrow> unit act" where
  "tapped env og msg =
     reading (\<lambda>s.
       case (rt_dst (msg_routing msg), rs_taps s) of
         (Unicast dst_label, Some taps) \<Rightarrow>
           if mt_via_tap (msg_meta msg) \<or> taps = [] then ret ()
           else fanout_taps_for_unicast env og msg dst_label taps
       | _ \<Rightarrow> ret ())"

definition broadcast_from_node :: "router_env \<Rightarrow> origin \<Rightarrow> message \<Rightarrow> deliveries act" where
  "broadcast_from_node env og msg =
     (case parse_uuid env (rt_trace_id (msg_routing msg)) of
        None \<Rightarrow> ret None
      | Some trace_id \<Rightarrow>
          andthen (first_seen (de_now (rv_delivery env)) trace_id) (\<lambda>fresh.
            if \<not> fresh then ret None
            else reading (\<lambda>s.
              andthen (if rt_ttl (msg_routing msg) \<ge> 2 then broadcast_to_peers env msg else ret ()) (\<lambda>_.
              andthen (if rt_ttl (msg_routing msg) \<ge> 3
                       then forward_broadcast_to_wan env (og_gateway og) (og_reply og) msg else ret ()) (\<lambda>_.
              ret (Some (broadcast_targets og msg (lc_nodes (rs_lsa s)))))))))"

definition router_note :: "str \<Rightarrow> trace_note" where
  "router_note target = \<lparr> tn_to = Some target, tn_act = [''resolve''] \<rparr>"

definition node_origin :: "router_state \<Rightarrow> uuid \<Rightarrow> node_handle \<Rightarrow> origin" where
  "node_origin s u h =
     \<lparr> og_uuid = u, og_name = nh_name h, og_vpn = nh_vpn_id h, og_reply = ToNode u,
       og_gateway = rs_is_gateway s \<rparr>"

text \<open>The message that goes on, after the entry of the router in its trace, and the deliveries.\<close>

definition dispatch_from_node :: "router_env \<Rightarrow> origin \<Rightarrow> message \<Rightarrow> (message \<times> deliveries) act" where
  "dispatch_from_node env og msg =
     (let keep = (\<lambda>m. andthen m (\<lambda>d. ret (msg, d))) in
      case rt_dst (msg_routing msg) of
        Unicast dst \<Rightarrow>
          keep (case parse_uuid env dst of
                  Some u \<Rightarrow> to_uuid env og msg u
                | None \<Rightarrow> to_name env og msg dst)
      | Broadcast \<Rightarrow> keep (broadcast_from_node env og msg)
      | Resolve \<Rightarrow>
          (case rv_resolve env msg of
             None \<Rightarrow> andthen (send_unreachable_to env (og_reply og) msg ''OPA_ERROR'') (\<lambda>_. ret (msg, None))
           | Some None \<Rightarrow>
               andthen (send_unreachable_to env (og_reply og) msg ''OPA_NO_TARGET'') (\<lambda>_. ret (msg, None))
           | Some (Some target) \<Rightarrow>
               reading (\<lambda>s.
                 let msg = write_entry (parse_uuid env) (rv_clock env) (lc_router_name (rs_lsa s))
                             (router_note target) msg
                 in andthen (to_name env og msg target) (\<lambda>d. ret (msg, d)))))"

definition route_from_node :: "router_env \<Rightarrow> origin \<Rightarrow> message \<Rightarrow> unit act" where
  "route_from_node env og msg =
     (if rt_ttl (msg_routing msg) = 0 then send_ttl_exceeded_to env (og_reply og) msg
      else andthen (dispatch_from_node env og msg) (\<lambda>(msg, deliveries).
        case deliveries of
          None \<Rightarrow> ret ()
        | Some ds \<Rightarrow> andthen (delivering env ds msg False) (\<lambda>_. tapped env og msg)))"

definition handle_message :: "router_env \<Rightarrow> message \<Rightarrow> unit act" where
  "handle_message env msg =
     reading (\<lambda>s.
       case parse_uuid env (rt_src (msg_routing msg)) of
         None \<Rightarrow> ret ()
       | Some src_uuid \<Rightarrow>
           (case map_of (lc_nodes (rs_lsa s)) src_uuid of
              None \<Rightarrow> ret ()
            | Some h \<Rightarrow> route_from_node env (node_origin s src_uuid h) (with_src_l2_name (nh_name h) msg)))"


section \<open>A frame from another hive\<close>

text \<open>What the handshake of a WAN session bound: the hive and the router at the other end, and the
  epoch of the session.\<close>

record wan_session =
  ws_hive :: str
  ws_router_uuid :: uuid
  ws_router_name :: str
  ws_epoch :: nat

definition on_lsa :: "(lsa_context \<Rightarrow> lsa_context) \<Rightarrow> unit act" where
  "on_lsa f = (\<lambda>s. (Value (), s \<lparr> rs_lsa := f (rs_lsa s) \<rparr>))"

definition names :: "message \<Rightarrow> str \<Rightarrow> bool" where
  "names msg kind = (is_system_kind (mt_msg_type (msg_meta msg)) \<and> mt_msg (msg_meta msg) = Some kind)"

definition is_error_report :: "message \<Rightarrow> bool" where
  "is_error_report msg = (names msg ''UNREACHABLE'' \<or> names msg ''TTL_EXCEEDED'')"

definition hand_error_report :: "router_env \<Rightarrow> message \<Rightarrow> unit act" where
  "hand_error_report env msg =
     reading (\<lambda>s.
       case rt_dst (msg_routing msg) of
         Unicast dst \<Rightarrow>
           (case parse_uuid env dst of
              None \<Rightarrow> ret ()
            | Some u \<Rightarrow>
                if u \<in> fst ` set (lc_nodes (rs_lsa s)) then emit_all env [ToNode u] msg else ret ())
       | _ \<Rightarrow> ret ())"

definition broadcast_from_wan :: "router_env \<Rightarrow> origin \<Rightarrow> message \<Rightarrow> deliveries act" where
  "broadcast_from_wan env og msg =
     (case parse_uuid env (rt_trace_id (msg_routing msg)) of
        None \<Rightarrow> ret None
      | Some trace_id \<Rightarrow>
          andthen (first_seen (de_now (rv_delivery env)) trace_id) (\<lambda>fresh.
            if \<not> fresh then ret None
            else reading (\<lambda>s.
              andthen (if rt_ttl (msg_routing msg) \<ge> 2 then broadcast_to_peers env msg else ret ()) (\<lambda>_.
              andthen (if rt_ttl (msg_routing msg) \<ge> 3 then broadcast_to_wan env msg else ret ()) (\<lambda>_.
              ret (Some (broadcast_targets og msg (lc_nodes (rs_lsa s)))))))))"

definition dispatch_from_wan :: "router_env \<Rightarrow> origin \<Rightarrow> message \<Rightarrow> deliveries act" where
  "dispatch_from_wan env og msg =
     (case rt_dst (msg_routing msg) of
        Unicast dst \<Rightarrow>
          (case parse_uuid env dst of
             Some u \<Rightarrow> to_uuid env og msg u
           | None \<Rightarrow> to_name env og msg dst)
      | Broadcast \<Rightarrow> broadcast_from_wan env og msg
      | Resolve \<Rightarrow>
          (case rv_resolve env msg of
             None \<Rightarrow> andthen (send_unreachable_to env (og_reply og) msg ''OPA_ERROR'') (\<lambda>_. ret None)
           | Some None \<Rightarrow> andthen (send_unreachable_to env (og_reply og) msg ''OPA_NO_TARGET'') (\<lambda>_. ret None)
           | Some (Some target) \<Rightarrow> to_name env og msg target))"

definition wan_origin :: "uuid \<Rightarrow> remote_node_info \<Rightarrow> origin" where
  "wan_origin u info =
     \<lparr> og_uuid = u, og_name = canonical_wan_src_name (ri_name info) (ri_hive_id info),
       og_vpn = ri_vpn_id info, og_reply = ToSession, og_gateway = True \<rparr>"

definition route_from_wan :: "router_env \<Rightarrow> origin \<Rightarrow> bool \<Rightarrow> message \<Rightarrow> unit act" where
  "route_from_wan env og via_hub msg =
     (if rt_ttl (msg_routing msg) = 0 then send_ttl_exceeded_to env (og_reply og) msg
      else andthen (dispatch_from_wan env og msg) (\<lambda>deliveries.
        case deliveries of None \<Rightarrow> ret () | Some ds \<Rightarrow> delivering env ds msg via_hub))"

definition route_wan_message :: "router_env \<Rightarrow> wan_session \<Rightarrow> message \<Rightarrow> unit act" where
  "route_wan_message env ws msg =
     reading (\<lambda>s.
       case parse_uuid env (rt_src (msg_routing msg)) of
         None \<Rightarrow> ret ()
       | Some src_uuid \<Rightarrow>
           (case wan_frame_source (lc_lsa_snapshot (rs_lsa s)) (lc_reachability (rs_lsa s)) src_uuid (ws_hive ws) of
              None \<Rightarrow> on_lsa (bump_lsa_reject_counter LSA_REJECT_FOREIGN_SOURCE)
            | Some info \<Rightarrow>
                (let og = wan_origin src_uuid info
                 in route_from_wan env og (ri_via_hub info) (with_src_l2_name (og_name og) msg))))"

definition handle_wan_message :: "router_env \<Rightarrow> wan_session \<Rightarrow> message \<Rightarrow> unit act" where
  "handle_wan_message env ws msg =
     (let now = de_now (rv_delivery env) in
      if names msg ''LSA'' then
        on_lsa (receive_lsa (rv_codec env) now (rv_readable env) (ws_hive ws) (ws_router_uuid ws)
          (ws_router_name ws) (ws_epoch ws) (msg_payload msg))
      else if names msg ''WAN_REACHABILITY'' then
        on_lsa (apply_wan_reachability (de_eval (rv_delivery env)) (rv_codec env) now (ws_hive ws)
          (msg_payload msg))
      else if is_error_report msg then hand_error_report env msg
      else route_wan_message env ws msg)"


section \<open>A frame from a sibling router\<close>

definition from_gateway :: "router_state \<Rightarrow> uuid \<Rightarrow> bool" where
  "from_gateway s peer = (map_of (rs_peer_routers s) peer = Some True)"

definition remote_source_from_gateway :: "router_state \<Rightarrow> uuid \<Rightarrow> uuid \<Rightarrow> peer_node option" where
  "remote_source_from_gateway s peer src_uuid =
     (if \<not> from_gateway s peer then None
      else map_option
        (\<lambda>remote. \<lparr> pn_uuid = src_uuid, pn_name = canonical_wan_src_name (ri_name remote) (ri_hive_id remote),
                    pn_vpn_id = ri_vpn_id remote, pn_router_uuid = peer \<rparr>)
        (find_remote_node (lc_lsa_snapshot (rs_lsa s)) src_uuid))"

definition refreshing :: "router_env \<Rightarrow> unit act" where
  "refreshing env = on_lsa (refresh_lsa (rv_readable env))"

definition peer_source :: "router_env \<Rightarrow> uuid \<Rightarrow> uuid \<Rightarrow> peer_node option act" where
  "peer_source env peer src_uuid =
     reading (\<lambda>s.
       case map_of (lc_peer_nodes (rs_lsa s)) src_uuid of
         Some node \<Rightarrow> ret (Some node)
       | None \<Rightarrow>
           (let found = remote_source_from_gateway s peer src_uuid
            in if found = None \<and> from_gateway s peer
               then andthen (refreshing env) (\<lambda>_.
                      reading (\<lambda>s. ret (remote_source_from_gateway s peer src_uuid)))
               else ret found))"

definition peer_refuse :: "router_env \<Rightarrow> uuid \<Rightarrow> message \<Rightarrow> str \<Rightarrow> deliveries act" where
  "peer_refuse env peer msg reason =
     andthen (if_peer peer (send_unreachable_to env (ToPeer peer) msg reason) ()) (\<lambda>_. ret (Some []))"

definition peer_to_hive :: "router_env \<Rightarrow> origin \<Rightarrow> uuid \<Rightarrow> message \<Rightarrow> str \<Rightarrow> deliveries act" where
  "peer_to_hive env og peer msg hive =
     andthen (if_peer peer (forward_to_hive env (og_gateway og) (ToPeer peer) hive msg) ())
       (\<lambda>_. ret (Some []))"

text \<open>\<^verbatim>\<open>ForwardRouter(peer_uuid)\<close> binds \<^verbatim>\<open>peer_uuid\<close> anew: every send of that branch is to the next
  router, not to the one the frame came from.\<close>

definition peer_to_router :: "router_env \<Rightarrow> message \<Rightarrow> uuid \<Rightarrow> deliveries act" where
  "peer_to_router env msg next_router =
     andthen
       (if_peer next_router
          (if rt_ttl (msg_routing msg) \<le> 1
           then andthen (send_ttl_exceeded_to env (ToPeer next_router) msg) (\<lambda>_. ret True) else ret False)
          False)
       (\<lambda>returned.
          if returned then ret None
          else andthen (send_to_peer_router env next_router msg) (\<lambda>sent.
            if sent then ret None else peer_refuse env next_router msg ''PEER_UNAVAILABLE''))"

definition peer_to_local ::
  "router_env \<Rightarrow> origin \<Rightarrow> uuid \<Rightarrow> message \<Rightarrow> uuid \<Rightarrow> node_handle \<Rightarrow> deliveries act" where
  "peer_to_local env og peer msg u h =
     (if og_allows og msg (nh_name h) (nh_vpn_id h) then ret (Some [(ToNode u, nh_name h)])
      else peer_refuse env peer msg ''VPN_BLOCKED'')"

definition peer_to_uuid :: "router_env \<Rightarrow> origin \<Rightarrow> uuid \<Rightarrow> message \<Rightarrow> uuid \<Rightarrow> deliveries act" where
  "peer_to_uuid env og peer msg u =
     reading (\<lambda>s.
       case map_of (lc_nodes (rs_lsa s)) u of
         Some h \<Rightarrow> peer_to_local env og peer msg u h
       | None \<Rightarrow>
           (case remote_node (rs_lsa s) u of
              Some remote \<Rightarrow>
                if og_allows og msg (ri_name remote) (ri_vpn_id remote)
                then peer_to_hive env og peer msg (ri_next_hop_hive remote)
                else peer_refuse env peer msg ''VPN_BLOCKED''
            | None \<Rightarrow> peer_refuse env peer msg ''NODE_NOT_FOUND''))"

definition peer_to_name :: "router_env \<Rightarrow> origin \<Rightarrow> uuid \<Rightarrow> message \<Rightarrow> str \<Rightarrow> deliveries act" where
  "peer_to_name env og peer msg target =
     reading (\<lambda>s.
       case resolve_by_name target (og_handle og) (lc_nodes (rs_lsa s)) (lc_fib (rs_lsa s)) (msg_meta msg) of
         RouteDrop \<Rightarrow> ret (Some [])
       | RouteUnreachable reason \<Rightarrow> peer_refuse env peer msg reason
       | RouteDeliver u \<Rightarrow>
           (case map_of (lc_nodes (rs_lsa s)) u of
              Some h \<Rightarrow> peer_to_local env og peer msg u h
            | None \<Rightarrow> peer_refuse env peer msg ''NODE_NOT_FOUND'')
       | RouteRouter next_router \<Rightarrow> peer_to_router env msg next_router
       | RouteHive hive \<Rightarrow> peer_to_hive env og peer msg hive)"

definition broadcast_from_peer :: "router_env \<Rightarrow> origin \<Rightarrow> uuid \<Rightarrow> message \<Rightarrow> deliveries act" where
  "broadcast_from_peer env og peer msg =
     reading (\<lambda>s.
       andthen (if rt_ttl (msg_routing msg) \<ge> 3
                then if_peer peer (forward_broadcast_to_wan env (og_gateway og) (ToPeer peer) msg) ()
                else ret ()) (\<lambda>_.
       ret (Some (broadcast_targets og msg (lc_nodes (rs_lsa s))))))"

definition dispatch_from_peer :: "router_env \<Rightarrow> origin \<Rightarrow> uuid \<Rightarrow> message \<Rightarrow> deliveries act" where
  "dispatch_from_peer env og peer msg =
     (let give_up = (\<lambda>reason. andthen (if_peer peer (send_unreachable_to env (ToPeer peer) msg reason) ())
                               (\<lambda>_. ret None))
      in case rt_dst (msg_routing msg) of
           Unicast dst \<Rightarrow>
             (case parse_uuid env dst of
                Some u \<Rightarrow> peer_to_uuid env og peer msg u
              | None \<Rightarrow> peer_to_name env og peer msg dst)
         | Broadcast \<Rightarrow> broadcast_from_peer env og peer msg
         | Resolve \<Rightarrow>
             (case rv_resolve env msg of
                None \<Rightarrow> give_up ''OPA_ERROR''
              | Some None \<Rightarrow> give_up ''OPA_NO_TARGET''
              | Some (Some target) \<Rightarrow> peer_to_name env og peer msg target))"

definition peer_origin :: "router_state \<Rightarrow> uuid \<Rightarrow> uuid \<Rightarrow> peer_node \<Rightarrow> origin" where
  "peer_origin s src_uuid peer node =
     \<lparr> og_uuid = src_uuid, og_name = pn_name node, og_vpn = pn_vpn_id node, og_reply = ToPeer peer,
       og_gateway = rs_is_gateway s \<rparr>"

definition route_from_peer :: "router_env \<Rightarrow> origin \<Rightarrow> uuid \<Rightarrow> message \<Rightarrow> unit act" where
  "route_from_peer env og peer msg =
     (if rt_ttl (msg_routing msg) = 0 then if_peer peer (send_ttl_exceeded_to env (ToPeer peer) msg) ()
      else andthen (dispatch_from_peer env og peer msg) (\<lambda>deliveries.
        case deliveries of None \<Rightarrow> ret () | Some ds \<Rightarrow> delivering env ds msg False))"

definition handle_peer_message :: "router_env \<Rightarrow> uuid \<Rightarrow> message \<Rightarrow> unit act" where
  "handle_peer_message env peer msg =
     (case parse_uuid env (rt_src (msg_routing msg)) of
        None \<Rightarrow> ret ()
      | Some src_uuid \<Rightarrow>
          if names msg ''OPA_RELOAD''
          then (if rv_opa_reload env (msg_payload msg) then ret () else (\<lambda>s. (Raised, s)))
          else andthen (peer_source env peer src_uuid) (\<lambda>src_node.
            case src_node of
              None \<Rightarrow> if is_error_report msg then hand_error_report env msg else ret ()
            | Some node \<Rightarrow>
                andthen (refreshing env) (\<lambda>_.
                  reading (\<lambda>s.
                    let og = peer_origin s src_uuid peer node
                    in route_from_peer env og peer (with_src_l2_name (og_name og) msg)))))"

end
