(* ===== verification/Router_Safety.thy ===== *)
theory Router_Safety
  imports Router
begin

text \<open>
  What a router sends.  One rule per combinator of the actions of theory \<^verbatim>\<open>Router\<close> carries a
  predicate on the frames through a handler, together with the fact that it never waits for a lock it
  holds; the handlers then satisfy it operation by operation.
\<close>

section \<open>Rules for actions\<close>

text \<open>The part of the state that routing a frame reads and does not change.\<close>

definition agrees :: "router_state \<Rightarrow> router_state \<Rightarrow> bool" where
  "agrees s t \<longleftrightarrow>
     rs_lsa t = rs_lsa s \<and> rs_is_gateway t = rs_is_gateway s \<and> rs_peers t = rs_peers s \<and>
     rs_peer_routers t = rs_peer_routers s \<and> rs_taps t = rs_taps s"

text \<open>From a state that agrees with \<^verbatim>\<open>s0\<close>, the lock included: the action ends in a state that
  agrees, every frame it adds satisfies \<^verbatim>\<open>P\<close> and its value, if any, \<^verbatim>\<open>Q\<close>; with \<^verbatim>\<open>tot\<close>, it does not
  wait for itself.\<close>

definition ends_well ::
  "bool \<Rightarrow> router_state \<Rightarrow> (channel \<times> bytes \<Rightarrow> bool) \<Rightarrow> ('a \<Rightarrow> bool) \<Rightarrow> router_state \<Rightarrow>
   'a outcome \<times> router_state \<Rightarrow> bool" where
  "ends_well tot s0 P Q s = (\<lambda>(r, s').
     agrees s0 s' \<and> (r = Stuck \<or> rs_peers_locked s' = rs_peers_locked s0) \<and> (tot \<longrightarrow> r \<noteq> Stuck) \<and>
     (\<forall>x. r = Value x \<longrightarrow> Q x) \<and> (\<exists>new. rs_sent s' = rs_sent s @ new \<and> (\<forall>f\<in>set new. P f)))"

definition spec ::
  "bool \<Rightarrow> router_state \<Rightarrow> (channel \<times> bytes \<Rightarrow> bool) \<Rightarrow> ('a \<Rightarrow> bool) \<Rightarrow> 'a act \<Rightarrow> bool" where
  "spec tot s0 P Q m \<longleftrightarrow>
     (\<forall>s. agrees s0 s \<and> rs_peers_locked s = rs_peers_locked s0 \<longrightarrow> ends_well tot s0 P Q s (m s))"

lemma agrees_simps [simp]:
  "agrees s s"
  "agrees s0 (s \<lparr> rs_sent := x \<rparr>) = agrees s0 s"
  "agrees s0 (s \<lparr> rs_stream := y \<rparr>) = agrees s0 s"
  "agrees s0 (s \<lparr> rs_broadcast_cache := z \<rparr>) = agrees s0 s"
  by (auto simp: agrees_def)

lemma agreesD:
  "agrees s0 s \<Longrightarrow> rs_lsa s = rs_lsa s0 \<and> rs_is_gateway s = rs_is_gateway s0 \<and> rs_peers s = rs_peers s0 \<and>
    rs_peer_routers s = rs_peer_routers s0 \<and> rs_taps s = rs_taps s0"
  by (simp add: agrees_def)

lemma specI:
  assumes "\<And>s. agrees s0 s \<Longrightarrow> rs_peers_locked s = rs_peers_locked s0 \<Longrightarrow> ends_well tot s0 P Q s (m s)"
  shows "spec tot s0 P Q m"
  using assms by (simp add: spec_def)

lemma specD:
  "spec tot s0 P Q m \<Longrightarrow> agrees s0 s \<Longrightarrow> rs_peers_locked s = rs_peers_locked s0 \<Longrightarrow>
   ends_well tot s0 P Q s (m s)"
  by (simp add: spec_def)

lemma ends_well_mono:
  assumes "ends_well tot s0 P Q s r" and "\<And>f. P f \<Longrightarrow> P' f" and "\<And>x. Q x \<Longrightarrow> Q' x"
  shows "ends_well tot s0 P' Q' s r"
  using assms unfolding ends_well_def by (cases r) blast

lemma spec_mono:
  assumes "spec tot s0 P Q m" and "\<And>f. P f \<Longrightarrow> P' f" and "\<And>x. Q x \<Longrightarrow> Q' x"
  shows "spec tot s0 P' Q' m"
  using assms ends_well_mono unfolding spec_def by metis

lemma ends_well_trans:
  assumes "ends_well tot s0 P Q s (r1, s1)" "ends_well tot s0 P R s1 r2"
  shows "ends_well tot s0 P R s r2"
proof -
  obtain r s2 where 2: "r2 = (r, s2)" by force
  obtain new1 where "rs_sent s1 = rs_sent s @ new1" "\<forall>f\<in>set new1. P f"
    using assms(1) unfolding ends_well_def by auto
  moreover obtain new2 where "rs_sent s2 = rs_sent s1 @ new2" "\<forall>f\<in>set new2. P f"
    using assms(2) unfolding ends_well_def 2 by auto
  ultimately have "rs_sent s2 = rs_sent s @ (new1 @ new2) \<and> (\<forall>f\<in>set (new1 @ new2). P f)" by auto
  with assms(2) show ?thesis unfolding ends_well_def 2 by blast
qed

named_theorems spec_rules

lemma spec_ret [spec_rules]: "Q x \<Longrightarrow> spec tot s0 P Q (ret x)"
  by (simp add: spec_def ends_well_def ret_def)

lemma spec_andthen:
  assumes m: "spec tot s0 P Q m" and f: "\<And>x. Q x \<Longrightarrow> spec tot s0 P R (f x)"
  shows "spec tot s0 P R (andthen m f)"
proof (rule specI)
  fix s assume s: "agrees s0 s" "rs_peers_locked s = rs_peers_locked s0"
  obtain r1 s1 where 1: "m s = (r1, s1)" by force
  have e: "ends_well tot s0 P Q s (r1, s1)" using specD [OF m s] 1 by simp
  show "ends_well tot s0 P R s (andthen m f s)"
  proof (cases r1)
    case (Value x)
    with e have "Q x" "agrees s0 s1" "rs_peers_locked s1 = rs_peers_locked s0"
      by (auto simp: ends_well_def)
    then have "ends_well tot s0 P R s1 (f x s1)" using f specD by blast
    with e Value 1 show ?thesis using ends_well_trans [OF e] by (simp add: andthen_def)
  qed (use e 1 in \<open>auto simp: andthen_def ends_well_def\<close>)
qed

lemma spec_seq [spec_rules]:
  assumes "spec tot s0 P (\<lambda>_. True) m" and "\<And>x. spec tot s0 P R (f x)"
  shows "spec tot s0 P R (andthen m f)"
  using assms spec_andthen by blast

lemma spec_reading [spec_rules]:
  assumes "\<And>s. rs_lsa s = rs_lsa s0 \<Longrightarrow> rs_is_gateway s = rs_is_gateway s0 \<Longrightarrow>
    rs_peer_routers s = rs_peer_routers s0 \<Longrightarrow> rs_taps s = rs_taps s0 \<Longrightarrow> spec tot s0 P Q (f s)"
  shows "spec tot s0 P Q (reading f)"
proof (rule specI)
  fix s assume s: "agrees s0 s" "rs_peers_locked s = rs_peers_locked s0"
  have "spec tot s0 P Q (f s)" using assms agreesD [OF s(1)] by blast
  with s show "ends_well tot s0 P Q s (reading f s)" by (simp add: reading_def specD)
qed

lemma spec_ignoring [spec_rules]:
  assumes "spec tot s0 P Q m"
  shows "spec tot s0 P (\<lambda>_. True) (ignoring m)"
proof (rule specI)
  fix s assume s: "agrees s0 s" "rs_peers_locked s = rs_peers_locked s0"
  obtain r1 s1 where 1: "m s = (r1, s1)" by force
  with specD [OF assms s] show "ends_well tot s0 P (\<lambda>_. True) s (ignoring m s)"
    by (cases r1) (auto simp: ignoring_def ends_well_def)
qed

lemma spec_emit [spec_rules]:
  assumes "\<And>ch data. de_to_vec (rv_delivery env) m = Some data \<Longrightarrow> ch \<in> set chs \<Longrightarrow> P (ch, data)"
  shows "spec tot s0 P (\<lambda>_. True) (emit_all env chs m)"
  using assms by (cases "de_to_vec (rv_delivery env) m") (auto simp: spec_def ends_well_def emit_all_def)

lemma spec_each [spec_rules]:
  "(\<And>x. x \<in> set xs \<Longrightarrow> spec tot s0 P (\<lambda>_. True) (f x)) \<Longrightarrow> spec tot s0 P (\<lambda>_. True) (each f xs)"
  by (induction xs) (auto intro: spec_ret spec_seq)

lemma spec_lock [spec_rules]:
  "tot \<longrightarrow> \<not> rs_peers_locked s0 \<Longrightarrow> spec tot s0 P (\<lambda>ps. ps = rs_peers s0) lock_peers"
  by (auto simp: spec_def ends_well_def lock_peers_def dest: agreesD)

lemma spec_if_peer:
  assumes "tot \<longrightarrow> \<not> rs_peers_locked s0"
    and "u \<in> set (rs_peers s0) \<Longrightarrow> spec tot (s0 \<lparr> rs_peers_locked := True \<rparr>) P Q body"
    and "u \<notin> set (rs_peers s0) \<Longrightarrow> Q absent"
  shows "spec tot s0 P Q (if_peer u body absent)"
proof (rule specI)
  fix s assume s: "agrees s0 s" "rs_peers_locked s = rs_peers_locked s0"
  show "ends_well tot s0 P Q s (if_peer u body absent s)"
  proof (cases "u \<in> set (rs_peers s0) \<and> \<not> rs_peers_locked s0")
    case True
    let ?l = "s \<lparr> rs_peers_locked := True \<rparr>"
    obtain r1 s1 where 1: "body ?l = (r1, s1)" by force
    have l: "agrees (s0 \<lparr> rs_peers_locked := True \<rparr>) ?l" using s by (simp add: agrees_def)
    have "ends_well tot (s0 \<lparr> rs_peers_locked := True \<rparr>) P Q ?l (r1, s1)"
      using specD [OF assms(2) l] True 1 by simp
    with True 1 s agreesD [OF s(1)] show ?thesis
      by (cases r1) (auto simp: if_peer_def ends_well_def agrees_def)
  qed (use assms agreesD [OF s(1)] s in \<open>auto simp: if_peer_def ends_well_def\<close>)
qed

lemma spec_if [spec_rules]:
  "(b \<Longrightarrow> spec tot s0 P Q m) \<Longrightarrow> (\<not> b \<Longrightarrow> spec tot s0 P Q n) \<Longrightarrow> spec tot s0 P Q (if b then m else n)"
  by simp

lemma spec_first_seen [spec_rules]: "spec tot s0 P (\<lambda>_. True) (first_seen now u)"
  by (auto simp: spec_def ends_well_def first_seen_def Let_def split: prod.splits)

lemma spec_delivering:
  assumes "\<And>ch node m data. authority_ok (de_eval (rv_delivery env)) (de_hive_id (rv_delivery env)) msg via_hub \<Longrightarrow>
    (ch, node) \<in> set ds \<Longrightarrow> delivered_form (rv_delivery env) msg node m \<Longrightarrow>
    de_to_vec (rv_delivery env) m = Some data \<Longrightarrow> P (ch, data)"
  shows "spec tot s0 P (\<lambda>_. True) (delivering env ds msg via_hub)"
proof (rule specI)
  fix s assume s: "agrees s0 s" "rs_peers_locked s = rs_peers_locked s0"
  obtain ok sent h where d: "deliver_locally (rv_delivery env) ds msg via_hub (rs_stream s) = (ok, sent, h)"
    by (metis prod_cases3)
  have "P f" if "f \<in> set sent" for f
  proof (cases f)
    case (Pair ch data)
    with that d have "(ch, data) \<in> set (fst (snd (deliver_locally (rv_delivery env) ds msg via_hub (rs_stream s))))"
      by simp
    from deliver_locally_sent [OF this] assms Pair show ?thesis by blast
  qed
  with s d show "ends_well tot s0 P (\<lambda>_. True) s (delivering env ds msg via_hub s)"
    by (auto simp: delivering_def ends_well_def Let_def split: if_splits)
qed


section \<open>Frames\<close>

text \<open>A message that goes on from \<^verbatim>\<open>msg\<close>: same sender, verb and payload, under the name the router
  knows the sender by.\<close>

definition carries :: "str \<Rightarrow> message \<Rightarrow> message \<Rightarrow> bool" where
  "carries name msg m \<longleftrightarrow>
     rt_src (msg_routing m) = rt_src (msg_routing msg) \<and> rt_src_l2_name (msg_routing m) = Some name \<and>
     msg_payload m = msg_payload msg \<and> mt_msg (msg_meta m) = mt_msg (msg_meta msg) \<and>
     mt_msg_type (msg_meta m) = mt_msg_type (msg_meta msg) \<and>
     rt_ttl (msg_routing m) \<le> rt_ttl (msg_routing msg) \<and>
     (mt_via_tap (msg_meta msg) \<longrightarrow> mt_via_tap (msg_meta m))"

definition error_report :: "router_env \<Rightarrow> uuid \<Rightarrow> message \<Rightarrow> bytes \<Rightarrow> bool" where
  "error_report env router m data \<longleftrightarrow>
     (\<exists>reason. de_to_vec (rv_delivery env) (unreachable_message env router m reason) = Some data) \<or>
     de_to_vec (rv_delivery env) (ttl_exceeded_message env router m) = Some data"

definition replied :: "router_env \<Rightarrow> router_state \<Rightarrow> origin \<Rightarrow> message \<Rightarrow> channel \<times> bytes \<Rightarrow> bool" where
  "replied env s og msg f \<longleftrightarrow>
     (\<exists>m. carries (og_name og) msg m \<and> fst f = og_reply og \<and>
        error_report env (lc_router_uuid (rs_lsa s)) m (snd f))"

definition forwarded :: "router_env \<Rightarrow> router_state \<Rightarrow> origin \<Rightarrow> message \<Rightarrow> channel \<times> bytes \<Rightarrow> bool" where
  "forwarded env s og msg f \<longleftrightarrow>
     (\<exists>m. carries (og_name og) msg m \<and> rt_ttl (msg_routing m) < rt_ttl (msg_routing msg) \<and>
        de_to_vec (rv_delivery env) m = Some (snd f) \<and>
        (fst f \<in> ToPeer ` set (rs_peers s) \<or> fst f \<in> ToWan ` fst ` set (lc_wan_peers (rs_lsa s))))"

definition admitted :: "origin \<Rightarrow> message \<Rightarrow> str \<Rightarrow> nat \<Rightarrow> bool" where
  "admitted og m name vpn =
     (if rt_dst (msg_routing m) = Broadcast
      then vpn_allows_broadcast_between (msg_meta m) (og_name og) (og_vpn og) name vpn
      else vpn_allows_between (msg_meta m) (og_name og) (og_vpn og) name vpn)"

definition delivered ::
  "router_env \<Rightarrow> router_state \<Rightarrow> origin \<Rightarrow> bool \<Rightarrow> message \<Rightarrow> channel \<times> bytes \<Rightarrow> bool" where
  "delivered env s og via_hub msg f \<longleftrightarrow>
     (\<exists>m m' u h. carries (og_name og) msg m \<and> fst f = ToNode u \<and> (u, h) \<in> set (lc_nodes (rs_lsa s)) \<and>
        admitted og m (nh_name h) (nh_vpn_id h) \<and>
        authority_ok (de_eval (rv_delivery env)) (de_hive_id (rv_delivery env)) m via_hub \<and>
        delivered_form (rv_delivery env) m (nh_name h) m' \<and> de_to_vec (rv_delivery env) m' = Some (snd f))"

text \<open>The frames of a routed message: a report of an error to whom it came from, a copy to another
  router with a smaller TTL, or a delivery to a node of this router that the gates let through.\<close>

definition sound_frame ::
  "router_env \<Rightarrow> router_state \<Rightarrow> origin \<Rightarrow> bool \<Rightarrow> message \<Rightarrow> channel \<times> bytes \<Rightarrow> bool" where
  "sound_frame env s og via_hub msg f \<longleftrightarrow>
     replied env s og msg f \<or> forwarded env s og msg f \<or> delivered env s og via_hub msg f"

lemma agrees_frames:
  assumes "agrees s0 s"
  shows "replied env s og msg = replied env s0 og msg" "forwarded env s og msg = forwarded env s0 og msg"
    "delivered env s og via_hub msg = delivered env s0 og via_hub msg"
  using agreesD [OF assms] by (simp_all add: fun_eq_iff replied_def forwarded_def delivered_def)

text \<open>A destination handler: what it sends are replies and forwards, the deliveries it returns go to
  nodes the gate admits.\<close>

definition routes :: "router_env \<Rightarrow> router_state \<Rightarrow> origin \<Rightarrow> message \<Rightarrow> channel \<times> bytes \<Rightarrow> bool" where
  "routes env s og msg f \<longleftrightarrow> replied env s og msg f \<or> forwarded env s og msg f"

definition allowed_deliveries :: "router_state \<Rightarrow> origin \<Rightarrow> message \<Rightarrow> deliveries \<Rightarrow> bool" where
  "allowed_deliveries s og m ds \<longleftrightarrow>
     (\<forall>ch name. (ch, name) \<in> set (unwrap_or [] ds) \<longrightarrow>
        (\<exists>u h. ch = ToNode u \<and> (u, h) \<in> set (lc_nodes (rs_lsa s)) \<and> name = nh_name h \<and>
               admitted og m (nh_name h) (nh_vpn_id h)))"

lemma allowed_simps [simp]:
  "allowed_deliveries s og m None" "allowed_deliveries s og m (Some [])"
  by (simp_all add: allowed_deliveries_def unwrap_or_def)

lemma spec_unreachable [spec_rules]:
  "carries (og_name og) msg m \<Longrightarrow> ch = og_reply og \<Longrightarrow>
   spec tot s0 (routes env s0 og msg) (\<lambda>_. True) (send_unreachable_to env ch m reason)"
  unfolding send_unreachable_to_def
  by (intro spec_rules) (auto simp: routes_def replied_def error_report_def)

lemma spec_ttl_exceeded [spec_rules]:
  "carries (og_name og) msg m \<Longrightarrow> ch = og_reply og \<Longrightarrow>
   spec tot s0 (routes env s0 og msg) (\<lambda>_. True) (send_ttl_exceeded_to env ch m)"
  unfolding send_ttl_exceeded_to_def
  by (intro spec_rules) (auto simp: routes_def replied_def error_report_def)

lemma one_hop_carries:
  assumes "carries name msg m" "rt_ttl (msg_routing m) \<noteq> 0"
  shows "carries name msg (one_hop m)" "rt_ttl (msg_routing (one_hop m)) < rt_ttl (msg_routing msg)"
  using assms by (auto simp: carries_def one_hop_def)

lemma forwardedI:
  assumes "carries (og_name og) msg m" "rt_ttl (msg_routing m) \<noteq> 0"
    and "de_to_vec (rv_delivery env) (one_hop m) = Some data"
    and "ch \<in> ToPeer ` set (rs_peers s) \<or> ch \<in> ToWan ` fst ` set (lc_wan_peers (rs_lsa s))"
  shows "routes env s og msg (ch, data)"
  using one_hop_carries [OF assms(1,2)] assms(3,4) unfolding routes_def forwarded_def by auto

lemma spec_to_peer [spec_rules]:
  assumes "tot \<longrightarrow> \<not> rs_peers_locked s0" "carries (og_name og) msg m" "rt_ttl (msg_routing m) \<noteq> 0"
  shows "spec tot s0 (routes env s0 og msg) (\<lambda>_. True) (send_to_peer_router env peer m)"
  unfolding send_to_peer_router_def
  by (rule spec_andthen [OF spec_lock [OF assms(1)]], intro spec_rules)
    (use assms(2,3) in \<open>auto intro!: forwardedI\<close>)

lemma spec_to_wan [spec_rules]:
  assumes "carries (og_name og) msg m" "rt_ttl (msg_routing m) \<noteq> 0"
  shows "spec tot s0 (routes env s0 og msg) (\<lambda>_. True) (send_to_wan_peer env hive m)"
  unfolding send_to_wan_peer_def
  by (intro spec_rules) (use assms in \<open>auto intro!: forwardedI\<close>)

lemma spec_broadcast_to_peers [spec_rules]:
  assumes "tot \<longrightarrow> \<not> rs_peers_locked s0" "carries (og_name og) msg m" "rt_ttl (msg_routing m) \<noteq> 0"
  shows "spec tot s0 (routes env s0 og msg) (\<lambda>_. True) (broadcast_to_peers env m)"
  unfolding broadcast_to_peers_def
  by (rule spec_andthen [OF spec_lock [OF assms(1)]], intro spec_rules)
    (use assms(2,3) in \<open>auto intro!: forwardedI\<close>)

lemma spec_broadcast_to_wan [spec_rules]:
  assumes "carries (og_name og) msg m" "rt_ttl (msg_routing m) \<noteq> 0"
  shows "spec tot s0 (routes env s0 og msg) (\<lambda>_. True) (broadcast_to_wan env m)"
  unfolding broadcast_to_wan_def
  by (intro spec_rules) (use assms in \<open>auto intro!: forwardedI\<close>)

lemma spec_forward_to_hive [spec_rules]:
  assumes "tot \<longrightarrow> gateway \<or> \<not> rs_peers_locked s0" "carries (og_name og) msg m" "ch = og_reply og"
  shows "spec tot s0 (routes env s0 og msg) (\<lambda>_. True) (forward_to_hive env gateway ch hive m)"
  unfolding forward_to_hive_def using assms
  by (auto intro!: spec_rules split: option.splits)

lemma spec_forward_broadcast [spec_rules]:
  assumes "tot \<longrightarrow> gateway \<or> \<not> rs_peers_locked s0" "carries (og_name og) msg m" "ch = og_reply og"
  shows "spec tot s0 (routes env s0 og msg) (\<lambda>_. True) (forward_broadcast_to_wan env gateway ch m)"
  unfolding forward_broadcast_to_wan_def using assms
  by (auto intro!: spec_rules split: option.splits)


section \<open>Destinations\<close>

lemma spec_refuse [spec_rules]:
  "carries (og_name og) msg m \<Longrightarrow>
   spec tot s0 (routes env s0 og msg) (allowed_deliveries s0 og m) (refuse env og m reason)"
  unfolding refuse_def by (auto intro!: spec_rules)

lemma spec_to_router [spec_rules]:
  "(tot \<longrightarrow> \<not> rs_peers_locked s0) \<Longrightarrow> carries (og_name og) msg m \<Longrightarrow>
   spec tot s0 (routes env s0 og msg) (allowed_deliveries s0 og m) (to_router env og m peer)"
  unfolding to_router_def by (auto intro!: spec_rules)

lemma spec_to_hive [spec_rules]:
  "(tot \<longrightarrow> \<not> rs_peers_locked s0) \<Longrightarrow> carries (og_name og) msg m \<Longrightarrow>
   spec tot s0 (routes env s0 og msg) (allowed_deliveries s0 og m) (to_hive env og m hive)"
  unfolding to_hive_def by (auto intro!: spec_rules)

lemma allowed_local:
  "og_allows og m (nh_name h) (nh_vpn_id h) \<Longrightarrow> map_of (lc_nodes (rs_lsa s0)) u = Some h \<Longrightarrow>
   rt_dst (msg_routing m) \<noteq> Broadcast \<Longrightarrow> allowed_deliveries s0 og m (Some [(ToNode u, nh_name h)])"
  by (auto simp: allowed_deliveries_def unwrap_or_def og_allows_def admitted_def dest: map_of_SomeD)

lemma spec_to_local [spec_rules]:
  "carries (og_name og) msg m \<Longrightarrow> map_of (lc_nodes (rs_lsa s0)) u = Some h \<Longrightarrow>
   rt_dst (msg_routing m) \<noteq> Broadcast \<Longrightarrow>
   spec tot s0 (routes env s0 og msg) (allowed_deliveries s0 og m) (to_local env og m u h)"
  unfolding to_local_def by (auto intro!: spec_rules allowed_local)

lemma spec_to_uuid [spec_rules]:
  "(tot \<longrightarrow> \<not> rs_peers_locked s0) \<Longrightarrow> carries (og_name og) msg m \<Longrightarrow> rt_dst (msg_routing m) \<noteq> Broadcast \<Longrightarrow>
   spec tot s0 (routes env s0 og msg) (allowed_deliveries s0 og m) (to_uuid env og m u)"
  unfolding to_uuid_def by (auto intro!: spec_rules split: option.splits)

lemma spec_to_name [spec_rules]:
  "(tot \<longrightarrow> \<not> rs_peers_locked s0) \<Longrightarrow> carries (og_name og) msg m \<Longrightarrow> rt_dst (msg_routing m) \<noteq> Broadcast \<Longrightarrow>
   spec tot s0 (routes env s0 og msg) (allowed_deliveries s0 og m) (to_name env og m target)"
  unfolding to_name_def by (auto intro!: spec_rules split: option.splits resolved_route.splits)

lemma broadcast_targetsE:
  assumes "(ch, name) \<in> set (broadcast_targets og m nodes)"
  obtains u h where "ch = ToNode u" "(u, h) \<in> set nodes" "name = nh_name h" "u \<noteq> og_uuid og"
    "vpn_allows_broadcast_between (msg_meta m) (og_name og) (og_vpn og) (nh_name h) (nh_vpn_id h)"
    "\<And>pattern. mt_target (msg_meta m) = Some pattern \<Longrightarrow> pattern_match pattern (nh_name h)"
  using assms by (auto simp: broadcast_targets_def in_map_filter split: if_splits option.splits)

lemma allowed_broadcast:
  assumes "rt_dst (msg_routing m) = Broadcast"
  shows "allowed_deliveries s0 og m (Some (broadcast_targets og m (lc_nodes (rs_lsa s0))))"
proof -
  have "\<exists>u h. ch = ToNode u \<and> (u, h) \<in> set (lc_nodes (rs_lsa s0)) \<and> name = nh_name h \<and>
      admitted og m (nh_name h) (nh_vpn_id h)"
    if "(ch, name) \<in> set (broadcast_targets og m (lc_nodes (rs_lsa s0)))" for ch name
    using that
  proof (rule broadcast_targetsE)
    fix u h assume "ch = ToNode u" "(u, h) \<in> set (lc_nodes (rs_lsa s0))" "name = nh_name h"
      "vpn_allows_broadcast_between (msg_meta m) (og_name og) (og_vpn og) (nh_name h) (nh_vpn_id h)"
    with assms show ?thesis unfolding admitted_def by (intro exI [of _ u] exI [of _ h]) simp
  qed
  then show ?thesis by (simp add: allowed_deliveries_def unwrap_or_def)
qed

lemma spec_broadcast_from_node [spec_rules]:
  "(tot \<longrightarrow> \<not> rs_peers_locked s0) \<Longrightarrow> carries (og_name og) msg m \<Longrightarrow> rt_dst (msg_routing m) = Broadcast \<Longrightarrow>
   spec tot s0 (routes env s0 og msg) (allowed_deliveries s0 og m) (broadcast_from_node env og m)"
  unfolding broadcast_from_node_def by (auto intro!: spec_rules allowed_broadcast split: option.splits)

lemma spec_broadcast_from_wan [spec_rules]:
  "(tot \<longrightarrow> \<not> rs_peers_locked s0) \<Longrightarrow> carries (og_name og) msg m \<Longrightarrow> rt_dst (msg_routing m) = Broadcast \<Longrightarrow>
   spec tot s0 (routes env s0 og msg) (allowed_deliveries s0 og m) (broadcast_from_wan env og m)"
  unfolding broadcast_from_wan_def by (auto intro!: spec_rules allowed_broadcast split: option.splits)

lemma carries_stamped: "carries name msg (with_src_l2_name name msg)"
  by (simp add: carries_def with_src_l2_name_def)

lemma carries_written:
  "carries name msg m \<Longrightarrow> carries name msg (write_entry parse clock router note m)"
  by (auto simp: carries_def write_entry_def trace_append_def Let_def split: option.splits)


lemma rt_dst_written [simp]: "rt_dst (msg_routing (write_entry parse clock router note m)) = rt_dst (msg_routing m)"
  by (simp add: write_entry_def Let_def)

definition allowed_dispatch ::
  "router_state \<Rightarrow> origin \<Rightarrow> message \<Rightarrow> message \<times> deliveries \<Rightarrow> bool" where
  "allowed_dispatch s og msg = (\<lambda>(m, ds). carries (og_name og) msg m \<and> allowed_deliveries s og m ds)"

lemma spec_kept:
  assumes "spec tot s0 P (allowed_deliveries s0 og m) act" "carries (og_name og) msg m"
  shows "spec tot s0 P (allowed_dispatch s0 og msg) (andthen act (\<lambda>d. ret (m, d)))"
  by (rule spec_andthen [OF assms(1)]) (simp add: spec_ret allowed_dispatch_def assms(2))

lemma spec_dispatch_from_node:
  assumes "tot \<longrightarrow> \<not> rs_peers_locked s0" "carries (og_name og) msg m"
  shows "spec tot s0 (routes env s0 og msg) (allowed_dispatch s0 og msg) (dispatch_from_node env og m)"
proof -
  have gave_up: "spec tot s0 (routes env s0 og msg) (allowed_dispatch s0 og msg)
      (andthen (send_unreachable_to env (og_reply og) m reason) (\<lambda>_. ret (m, None)))" for reason
    using assms(2) by (auto intro!: spec_rules simp: allowed_dispatch_def)
  note rules = gave_up spec_reading spec_kept spec_to_uuid spec_to_name spec_broadcast_from_node carries_written
  show ?thesis
    unfolding dispatch_from_node_def Let_def using assms
    by (auto intro!: rules split: destination.splits option.splits)
qed

lemma spec_dispatch_from_wan:
  assumes "tot \<longrightarrow> \<not> rs_peers_locked s0" "carries (og_name og) msg m"
  shows "spec tot s0 (routes env s0 og msg) (allowed_deliveries s0 og m) (dispatch_from_wan env og m)"
  unfolding dispatch_from_wan_def using assms
  by (auto intro!: spec_rules split: destination.splits option.splits)

lemma spec_delivering_sound:
  assumes "carries (og_name og) msg m" "allowed_deliveries s0 og m (Some ds)"
  shows "spec tot s0 (sound_frame env s0 og via_hub msg) (\<lambda>_. True) (delivering env ds m via_hub)"
proof (rule spec_delivering)
  fix ch node m' data
  assume a: "authority_ok (de_eval (rv_delivery env)) (de_hive_id (rv_delivery env)) m via_hub"
    and d: "(ch, node) \<in> set ds" and f: "delivered_form (rv_delivery env) m node m'"
    and v: "de_to_vec (rv_delivery env) m' = Some data"
  from d assms(2) obtain u h where u: "ch = ToNode u" "(u, h) \<in> set (lc_nodes (rs_lsa s0))" "node = nh_name h"
    "admitted og m (nh_name h) (nh_vpn_id h)"
    unfolding allowed_deliveries_def unwrap_or_def option.case by blast
  have "delivered env s0 og via_hub msg (ch, data)"
    unfolding delivered_def fst_conv snd_conv using assms(1) a f v u by blast
  then show "sound_frame env s0 og via_hub msg (ch, data)" by (simp add: sound_frame_def)
qed

lemma routes_sound: "routes env s og msg f \<Longrightarrow> sound_frame env s og via_hub msg f"
  by (auto simp: routes_def sound_frame_def)

lemmas spec_routes_sound = spec_mono [where P = "routes env s og msg" and P' = "sound_frame env s og via_hub msg"
  for env s og msg via_hub, OF _ routes_sound]


section \<open>Copies for taps\<close>

lemma carries_tap: "carries name msg m \<Longrightarrow> carries name msg (tap_copy env m target)"
  by (simp add: carries_def tap_copy_def)

lemma spec_tap_local:
  assumes "carries (og_name og) msg m" "map_of (lc_nodes (rs_lsa s0)) u = Some h"
    and "og_allows og m (nh_name h) (nh_vpn_id h)" "rt_dst (msg_routing m) \<noteq> Broadcast"
    and "serialize_for_local_delivery (rv_delivery env) m via_hub (nh_name h) = Some (Some data)"
  shows "spec tot s0 (sound_frame env s0 og via_hub msg) (\<lambda>_. True)
    (\<lambda>s. (Value (), s \<lparr> rs_sent := rs_sent s @ [(ToNode u, data)] \<rparr>))"
proof -
  obtain m' where "delivered_form (rv_delivery env) m (nh_name h) m'" "de_to_vec (rv_delivery env) m' = Some data"
    and "authority_ok (de_eval (rv_delivery env)) (de_hive_id (rv_delivery env)) m via_hub"
    using serialize_for_local_delivery_form [OF assms(5)] by blast
  moreover have "admitted og m (nh_name h) (nh_vpn_id h)"
    using assms(3,4) by (simp add: admitted_def og_allows_def)
  moreover have "(u, h) \<in> set (lc_nodes (rs_lsa s0))" using assms(2) by (rule map_of_SomeD)
  ultimately have "delivered env s0 og via_hub msg (ToNode u, data)"
    unfolding delivered_def fst_conv snd_conv using assms(1) by blast
  then show ?thesis by (auto simp: spec_def ends_well_def sound_frame_def)
qed

lemma spec_send_tap_copy [spec_rules]:
  assumes "tot \<longrightarrow> \<not> rs_peers_locked s0" "carries (og_name og) msg m"
  shows "spec tot s0 (sound_frame env s0 og False msg) (\<lambda>_. True) (send_tap_copy env og m target)"
proof -
  have c: "carries (og_name og) msg (tap_copy env m target)" using assms(2) by (rule carries_tap)
  have d: "rt_dst (msg_routing (tap_copy env m target)) \<noteq> Broadcast" by (simp add: tap_copy_def)
  note rules = spec_reading spec_ret spec_ignoring spec_tap_local spec_if
    spec_routes_sound [OF spec_to_peer] spec_routes_sound [OF spec_forward_to_hive]
  show ?thesis
    unfolding send_tap_copy_def Let_def using assms(1) c d
    by (auto intro!: rules split: option.splits resolved_route.splits)
qed

lemma spec_tapped:
  assumes "tot \<longrightarrow> \<not> rs_peers_locked s0" "carries (og_name og) msg m"
  shows "spec tot s0 (sound_frame env s0 og False msg) (\<lambda>_. True) (tapped env og m)"
  unfolding tapped_def fanout_taps_for_unicast_def Let_def using assms
  by (auto intro!: spec_rules split: option.splits destination.splits)


section \<open>Replies to a sibling router\<close>

text \<open>A report of an error that goes to a sibling, whichever: in the branch that forwards to a third
  router the reports go to that one.\<close>

definition strayed :: "router_env \<Rightarrow> router_state \<Rightarrow> origin \<Rightarrow> message \<Rightarrow> channel \<times> bytes \<Rightarrow> bool" where
  "strayed env s og msg f \<longleftrightarrow>
     (\<exists>m. carries (og_name og) msg m \<and> fst f \<in> ToPeer ` set (rs_peers s) \<and>
        de_to_vec (rv_delivery env) (ttl_exceeded_message env (lc_router_uuid (rs_lsa s)) m) = Some (snd f))"

definition peer_routes :: "router_env \<Rightarrow> router_state \<Rightarrow> origin \<Rightarrow> message \<Rightarrow> channel \<times> bytes \<Rightarrow> bool" where
  "peer_routes env s og msg f \<longleftrightarrow> routes env s og msg f \<or> strayed env s og msg f"

lemma locked_frames:
  "routes env (s \<lparr> rs_peers_locked := b \<rparr>) og msg = routes env s og msg"
  "peer_routes env (s \<lparr> rs_peers_locked := b \<rparr>) og msg = peer_routes env s og msg"
  by (simp_all add: fun_eq_iff routes_def replied_def forwarded_def peer_routes_def strayed_def)

lemma spec_peer_routes:
  "spec tot s0 (routes env s og msg) Q m \<Longrightarrow> spec tot s0 (peer_routes env s og msg) Q m"
  by (erule spec_mono) (auto simp: peer_routes_def)

lemma spec_to_asker:
  assumes "tot \<longrightarrow> \<not> rs_peers_locked s0"
    and "spec tot (s0 \<lparr> rs_peers_locked := True \<rparr>)
      (routes env (s0 \<lparr> rs_peers_locked := True \<rparr>) og msg) (\<lambda>_. True) body"
  shows "spec tot s0 (peer_routes env s0 og msg) (\<lambda>_. True) (if_peer peer body ())"
  by (rule spec_peer_routes) (rule spec_if_peer, use assms in \<open>simp_all add: locked_frames\<close>)

lemma spec_peer_refuse [spec_rules]:
  assumes "tot \<longrightarrow> \<not> rs_peers_locked s0" "carries (og_name og) msg m" "og_reply og = ToPeer peer"
  shows "spec tot s0 (peer_routes env s0 og msg) (allowed_deliveries s0 og m) (peer_refuse env peer m reason)"
  unfolding peer_refuse_def
  by (rule spec_seq, rule spec_to_asker) (use assms in \<open>auto intro!: spec_rules\<close>)

lemma spec_peer_to_hive [spec_rules]:
  assumes "tot \<longrightarrow> \<not> rs_peers_locked s0 \<and> og_gateway og" "carries (og_name og) msg m"
    "og_reply og = ToPeer peer"
  shows "spec tot s0 (peer_routes env s0 og msg) (allowed_deliveries s0 og m) (peer_to_hive env og peer m hive)"
  unfolding peer_to_hive_def
  by (rule spec_seq, rule spec_to_asker) (use assms in \<open>auto intro!: spec_rules\<close>)

lemma spec_to_absent:
  assumes "tot \<longrightarrow> \<not> rs_peers_locked s0" "peer \<notin> set (rs_peers s0)"
  shows "spec tot s0 P (\<lambda>sent. \<not> sent) (send_to_peer_router env peer m)"
  unfolding send_to_peer_router_def
  by (rule spec_andthen [OF spec_lock [OF assms(1)]]) (use assms(2) in \<open>simp add: spec_ret\<close>)

lemma spec_sent:
  assumes "tot \<longrightarrow> \<not> rs_peers_locked s0" "carries (og_name og) msg m" "rt_ttl (msg_routing m) \<noteq> 0"
    "peer \<in> set (rs_peers s0)"
  shows "spec tot s0 (routes env s0 og msg) (\<lambda>sent. sent) (send_to_peer_router env peer m)"
  unfolding send_to_peer_router_def
  by (rule spec_andthen [OF spec_lock [OF assms(1)]], simp add: assms(4))
    (rule spec_seq, rule spec_emit, use assms(2-4) in \<open>auto intro!: forwardedI spec_ret\<close>)

text \<open>Forwarding to a third router: a connected one gets the frame, or the report that its TTL is spent;
  towards one that is not connected nothing is sent to anybody.\<close>

lemma spec_peer_to_router [spec_rules]:
  assumes lock: "tot \<longrightarrow> \<not> rs_peers_locked s0" and c: "carries (og_name og) msg m"
  shows "spec tot s0 (peer_routes env s0 og msg) (allowed_deliveries s0 og m) (peer_to_router env m next_router)"
proof (cases "next_router \<in> set (rs_peers s0)")
  case True
  let ?early = "\<lambda>b. b \<or> rt_ttl (msg_routing m) \<noteq> 0"
  let ?l = "s0 \<lparr> rs_peers_locked := True \<rparr>"
  have "spec tot ?l (peer_routes env s0 og msg) (\<lambda>_. True) (send_ttl_exceeded_to env (ToPeer next_router) m)"
    unfolding send_ttl_exceeded_to_def using c True
    by (auto intro!: spec_rules simp: peer_routes_def strayed_def)
  then have "spec tot ?l (peer_routes env s0 og msg) ?early
      (if rt_ttl (msg_routing m) \<le> 1
       then andthen (send_ttl_exceeded_to env (ToPeer next_router) m) (\<lambda>_. ret True) else ret False)"
    by (auto intro!: spec_rules)
  with lock True have "spec tot s0 (peer_routes env s0 og msg) ?early
      (if_peer next_router
        (if rt_ttl (msg_routing m) \<le> 1
         then andthen (send_ttl_exceeded_to env (ToPeer next_router) m) (\<lambda>_. ret True) else ret False) False)"
    by (intro spec_if_peer) simp_all
  moreover have "spec tot s0 (peer_routes env s0 og msg) (allowed_deliveries s0 og m)
      (andthen (send_to_peer_router env next_router m)
        (\<lambda>sent. if sent then ret None else peer_refuse env next_router m ''PEER_UNAVAILABLE''))"
    if "rt_ttl (msg_routing m) \<noteq> 0"
    by (rule spec_andthen [OF spec_peer_routes [OF spec_sent [OF lock c that True]]]) (simp add: spec_ret)
  ultimately show ?thesis
    unfolding peer_to_router_def by (elim spec_andthen) (auto intro: spec_ret)
next
  case False
  have "spec tot s0 (peer_routes env s0 og msg) (allowed_deliveries s0 og m)
      (peer_refuse env next_router m ''PEER_UNAVAILABLE'')"
    unfolding peer_refuse_def
    by (rule spec_seq, rule spec_if_peer) (use lock False in \<open>auto intro: spec_ret\<close>)
  then have "spec tot s0 (peer_routes env s0 og msg) (allowed_deliveries s0 og m)
      (andthen (send_to_peer_router env next_router m)
        (\<lambda>sent. if sent then ret None else peer_refuse env next_router m ''PEER_UNAVAILABLE''))"
    by (intro spec_andthen [OF spec_to_absent [OF lock False]]) simp
  moreover have "spec tot s0 (peer_routes env s0 og msg) (\<lambda>b. \<not> b) (if_peer next_router body False)" for body
    by (rule spec_if_peer) (use lock False in auto)
  ultimately show ?thesis
    unfolding peer_to_router_def by (intro spec_andthen [of tot s0 _ "\<lambda>b. \<not> b"]) simp_all
qed

lemma spec_peer_to_local [spec_rules]:
  "(tot \<longrightarrow> \<not> rs_peers_locked s0) \<Longrightarrow> carries (og_name og) msg m \<Longrightarrow> og_reply og = ToPeer peer \<Longrightarrow>
   map_of (lc_nodes (rs_lsa s0)) u = Some h \<Longrightarrow> rt_dst (msg_routing m) \<noteq> Broadcast \<Longrightarrow>
   spec tot s0 (peer_routes env s0 og msg) (allowed_deliveries s0 og m) (peer_to_local env og peer m u h)"
  unfolding peer_to_local_def by (auto intro!: spec_rules allowed_local)

lemma spec_peer_to_uuid [spec_rules]:
  "(tot \<longrightarrow> \<not> rs_peers_locked s0 \<and> og_gateway og) \<Longrightarrow> carries (og_name og) msg m \<Longrightarrow>
   og_reply og = ToPeer peer \<Longrightarrow> rt_dst (msg_routing m) \<noteq> Broadcast \<Longrightarrow>
   spec tot s0 (peer_routes env s0 og msg) (allowed_deliveries s0 og m) (peer_to_uuid env og peer m u)"
  unfolding peer_to_uuid_def by (auto intro!: spec_rules split: option.splits)

lemma spec_peer_to_name [spec_rules]:
  "(tot \<longrightarrow> \<not> rs_peers_locked s0 \<and> og_gateway og) \<Longrightarrow> carries (og_name og) msg m \<Longrightarrow>
   og_reply og = ToPeer peer \<Longrightarrow> rt_dst (msg_routing m) \<noteq> Broadcast \<Longrightarrow>
   spec tot s0 (peer_routes env s0 og msg) (allowed_deliveries s0 og m) (peer_to_name env og peer m target)"
  unfolding peer_to_name_def by (auto intro!: spec_rules split: option.splits resolved_route.splits)

lemma spec_broadcast_from_peer [spec_rules]:
  assumes "tot \<longrightarrow> \<not> rs_peers_locked s0 \<and> og_gateway og" "carries (og_name og) msg m"
    "og_reply og = ToPeer peer" "rt_dst (msg_routing m) = Broadcast"
  shows "spec tot s0 (peer_routes env s0 og msg) (allowed_deliveries s0 og m) (broadcast_from_peer env og peer m)"
proof -
  have "spec tot s0 (peer_routes env s0 og msg) (\<lambda>_. True)
      (if_peer peer (forward_broadcast_to_wan env (og_gateway og) (ToPeer peer) m) ())"
    by (rule spec_to_asker) (use assms in \<open>auto intro!: spec_rules\<close>)
  with assms(4) show ?thesis
    unfolding broadcast_from_peer_def by (auto intro!: spec_rules allowed_broadcast)
qed

lemma spec_dispatch_from_peer:
  assumes "tot \<longrightarrow> \<not> rs_peers_locked s0 \<and> og_gateway og" "carries (og_name og) msg m"
    "og_reply og = ToPeer peer"
  shows "spec tot s0 (peer_routes env s0 og msg) (allowed_deliveries s0 og m) (dispatch_from_peer env og peer m)"
proof -
  have "spec tot s0 (peer_routes env s0 og msg) (\<lambda>_. True)
      (if_peer peer (send_unreachable_to env (ToPeer peer) m reason) ())" for reason
    by (rule spec_to_asker) (use assms in \<open>auto intro!: spec_rules\<close>)
  then have gave_up: "spec tot s0 (peer_routes env s0 og msg) (allowed_deliveries s0 og m)
      (andthen (if_peer peer (send_unreachable_to env (ToPeer peer) m reason) ()) (\<lambda>_. ret None))" for reason
    by (auto intro!: spec_rules)
  show ?thesis
    unfolding dispatch_from_peer_def Let_def using assms
    by (auto intro!: gave_up spec_peer_to_uuid spec_peer_to_name spec_broadcast_from_peer
        split: destination.splits option.splits)
qed


section \<open>The handlers\<close>

lemma spec_weaken:
  assumes "spec tot s0 P Q m" "\<And>f. P f \<Longrightarrow> P' f"
  shows "spec tot s0 P' (\<lambda>_. True) m"
  using assms by (rule spec_mono) simp_all

lemma spec_route_from_node:
  assumes "tot \<longrightarrow> \<not> rs_peers_locked s0" "carries (og_name og) msg m"
  shows "spec tot s0 (sound_frame env s0 og False msg) (\<lambda>_. True) (route_from_node env og m)"
proof -
  have "spec tot s0 (sound_frame env s0 og False msg) (\<lambda>_. True)
      (case d of (m, deliveries) \<Rightarrow>
         case deliveries of
           None \<Rightarrow> ret ()
         | Some ds \<Rightarrow> andthen (delivering env ds m False) (\<lambda>_. tapped env og m))"
    if d: "allowed_dispatch s0 og msg d" for d
    using that assms(1)
    by (auto intro!: spec_ret spec_seq spec_delivering_sound spec_tapped simp: allowed_dispatch_def
        split: option.splits)
  from spec_andthen [OF spec_routes_sound [OF spec_dispatch_from_node [OF assms]] this]
  show ?thesis
    unfolding route_from_node_def using assms(2) by (auto intro: spec_routes_sound [OF spec_ttl_exceeded])
qed

lemma spec_route_from_wan:
  assumes "tot \<longrightarrow> \<not> rs_peers_locked s0" "carries (og_name og) msg m"
  shows "spec tot s0 (sound_frame env s0 og via_hub msg) (\<lambda>_. True) (route_from_wan env og via_hub m)"
proof -
  have "spec tot s0 (sound_frame env s0 og via_hub msg) (\<lambda>_. True)
      (case d of None \<Rightarrow> ret () | Some ds \<Rightarrow> delivering env ds m via_hub)"
    if "allowed_deliveries s0 og m d" for d
    using that assms(2) by (auto intro!: spec_ret spec_delivering_sound split: option.splits)
  from spec_andthen [OF spec_routes_sound [OF spec_dispatch_from_wan [OF assms]] this]
  show ?thesis
    unfolding route_from_wan_def using assms(2) by (auto intro: spec_routes_sound [OF spec_ttl_exceeded])
qed

definition peer_sound_frame ::
  "router_env \<Rightarrow> router_state \<Rightarrow> origin \<Rightarrow> message \<Rightarrow> channel \<times> bytes \<Rightarrow> bool" where
  "peer_sound_frame env s og msg f \<longleftrightarrow> sound_frame env s og False msg f \<or> strayed env s og msg f"

lemma spec_route_from_peer:
  assumes "tot \<longrightarrow> \<not> rs_peers_locked s0 \<and> og_gateway og" "carries (og_name og) msg m"
    "og_reply og = ToPeer peer"
  shows "spec tot s0 (peer_sound_frame env s0 og msg) (\<lambda>_. True) (route_from_peer env og peer m)"
proof -
  have routes: "peer_routes env s0 og msg f \<Longrightarrow> peer_sound_frame env s0 og msg f" for f
    by (auto simp: peer_routes_def peer_sound_frame_def routes_sound)
  have "spec tot s0 (peer_sound_frame env s0 og msg) (\<lambda>_. True)
      (case d of None \<Rightarrow> ret () | Some ds \<Rightarrow> delivering env ds m False)"
    if "allowed_deliveries s0 og m d" for d
    using that assms(2)
    by (auto intro!: spec_ret spec_weaken [OF spec_delivering_sound] simp: peer_sound_frame_def
        split: option.splits)
  moreover have "spec tot s0 (peer_sound_frame env s0 og msg) (allowed_deliveries s0 og m)
      (dispatch_from_peer env og peer m)"
    by (rule spec_mono [OF spec_dispatch_from_peer [OF assms]]) (auto intro: routes)
  ultimately have "spec tot s0 (peer_sound_frame env s0 og msg) (\<lambda>_. True)
      (andthen (dispatch_from_peer env og peer m)
        (\<lambda>d. case d of None \<Rightarrow> ret () | Some ds \<Rightarrow> delivering env ds m False))"
    using spec_andthen by blast
  moreover have "spec tot s0 (peer_sound_frame env s0 og msg) (\<lambda>_. True)
      (if_peer peer (send_ttl_exceeded_to env (ToPeer peer) m) ())"
    by (rule spec_weaken [OF spec_to_asker routes]) (use assms in \<open>auto intro!: spec_rules\<close>)
  ultimately show ?thesis unfolding route_from_peer_def by auto
qed

lemma spec_handle_message:
  assumes "tot \<longrightarrow> \<not> rs_peers_locked s0"
  shows "spec tot s0
    (\<lambda>f. \<exists>u h. parse_uuid env (rt_src (msg_routing msg)) = Some u \<and> map_of (lc_nodes (rs_lsa s0)) u = Some h \<and>
       sound_frame env s0 (node_origin s0 u h) False msg f) (\<lambda>_. True) (handle_message env msg)"
    (is "spec _ _ ?P _ _")
proof -
  have "spec tot s0 ?P (\<lambda>_. True) (route_from_node env (node_origin s u h) (with_src_l2_name (nh_name h) msg))"
    if "rs_is_gateway s = rs_is_gateway s0" "parse_uuid env (rt_src (msg_routing msg)) = Some u"
      "map_of (lc_nodes (rs_lsa s0)) u = Some h" for s u h
  proof (rule spec_weaken [of _ _ "sound_frame env s0 (node_origin s u h) False msg" "\<lambda>_. True"])
    show "spec tot s0 (sound_frame env s0 (node_origin s u h) False msg) (\<lambda>_. True)
        (route_from_node env (node_origin s u h) (with_src_l2_name (nh_name h) msg))"
      using spec_route_from_node [OF assms] carries_stamped by (simp add: node_origin_def)
  qed (use that in \<open>simp add: node_origin_def\<close>)
  then show ?thesis
    unfolding handle_message_def by (auto intro!: spec_reading spec_ret split: option.splits)
qed

text \<open>A report of an error from another router, handed to the local node it is addressed to as it
  came.\<close>

definition handed_over :: "router_env \<Rightarrow> router_state \<Rightarrow> message \<Rightarrow> channel \<times> bytes \<Rightarrow> bool" where
  "handed_over env s msg f \<longleftrightarrow>
     is_error_report msg \<and> de_to_vec (rv_delivery env) msg = Some (snd f) \<and>
     (\<exists>dst u. rt_dst (msg_routing msg) = Unicast dst \<and> parse_uuid env dst = Some u \<and> fst f = ToNode u \<and>
        u \<in> fst ` set (lc_nodes (rs_lsa s)))"

lemma spec_hand_error_report:
  assumes "is_error_report msg"
  shows "spec tot s0 (handed_over env s0 msg) (\<lambda>_. True) (hand_error_report env msg)"
  unfolding hand_error_report_def using assms
  by (auto intro!: spec_rules simp: handed_over_def split: destination.splits option.splits) force+

lemma spec_run:
  assumes "spec tot s P Q m" "m s = (r, s')"
  shows "agrees s s' \<and> (tot \<longrightarrow> r \<noteq> Stuck) \<and> (\<exists>new. rs_sent s' = rs_sent s @ new \<and> (\<forall>f\<in>set new. P f))"
  using specD [OF assms(1), of s] assms(2) by (simp add: ends_well_def)

lemma on_lsa_run: "on_lsa g s = (Value (), s \<lparr> rs_lsa := g (rs_lsa s) \<rparr>)"
  by (simp add: on_lsa_def)

lemma route_wan_message_run:
  assumes "\<not> rs_peers_locked s" "route_wan_message env ws msg s = (r, s')"
  shows "r \<noteq> Stuck \<and> (\<exists>new. rs_sent s' = rs_sent s @ new \<and> (\<forall>f\<in>set new. \<exists>u info.
    parse_uuid env (rt_src (msg_routing msg)) = Some u \<and>
    wan_frame_source (lc_lsa_snapshot (rs_lsa s)) (lc_reachability (rs_lsa s)) u (ws_hive ws) = Some info \<and>
    sound_frame env s (wan_origin u info) (ri_via_hub info) msg f))"
proof (cases "parse_uuid env (rt_src (msg_routing msg))")
  case (Some u)
  let ?source = "wan_frame_source (lc_lsa_snapshot (rs_lsa s)) (lc_reachability (rs_lsa s)) u (ws_hive ws)"
  show ?thesis
  proof (cases ?source)
    case None
    with Some assms(2) show ?thesis by (auto simp: route_wan_message_def reading_def on_lsa_def)
  next
    case info: (Some info)
    let ?og = "wan_origin u info"
    have "spec True s (sound_frame env s ?og (ri_via_hub info) msg) (\<lambda>_. True)
        (route_from_wan env ?og (ri_via_hub info) (with_src_l2_name (og_name ?og) msg))"
      by (rule spec_route_from_wan) (use assms(1) carries_stamped in auto)
    moreover have "route_from_wan env ?og (ri_via_hub info) (with_src_l2_name (og_name ?og) msg) s = (r, s')"
      using assms(2) Some info by (simp add: route_wan_message_def reading_def Let_def)
    ultimately have "r \<noteq> Stuck \<and>
        (\<exists>new. rs_sent s' = rs_sent s @ new \<and> (\<forall>f\<in>set new. sound_frame env s ?og (ri_via_hub info) msg f))"
      using spec_run by blast
    with Some info show ?thesis by auto
  qed
qed (use assms(2) in \<open>auto simp: route_wan_message_def reading_def ret_def\<close>)

lemma refresh_twice [simp]: "refresh_lsa b (refresh_lsa b c) = refresh_lsa b c"
  by (simp add: refresh_lsa_def rebuild_context_fib_def)

definition refreshed :: "router_env \<Rightarrow> router_state \<Rightarrow> router_state" where
  "refreshed env s = s \<lparr> rs_lsa := refresh_lsa (rv_readable env) (rs_lsa s) \<rparr>"

lemma peer_source_run:
  obtains found t where "peer_source env peer u s = (Value found, t)" "t = s \<or> t = refreshed env s"
    "\<And>node. found = Some node \<Longrightarrow>
       map_of (lc_peer_nodes (rs_lsa s)) u = Some node \<or> remote_source_from_gateway t peer u = Some node"
proof (cases "map_of (lc_peer_nodes (rs_lsa s)) u")
  case None
  show ?thesis
  proof (cases "remote_source_from_gateway s peer u = None \<and> from_gateway s peer")
    case True
    with None have "peer_source env peer u s =
        (Value (remote_source_from_gateway (refreshed env s) peer u), refreshed env s)"
      by (simp add: peer_source_def reading_def andthen_def refreshing_def on_lsa_def ret_def refreshed_def)
    then show ?thesis by (rule that) simp_all
  next
    case False
    with None have "peer_source env peer u s = (Value (remote_source_from_gateway s peer u), s)"
      by (auto simp: peer_source_def reading_def ret_def Let_def)
    then show ?thesis by (rule that) simp_all
  qed
next
  case (Some node)
  then have "peer_source env peer u s = (Value (Some node), s)"
    by (simp add: peer_source_def reading_def ret_def)
  then show ?thesis by (rule that) (use Some in auto)
qed

lemma agrees_source:
  "agrees s t \<Longrightarrow> remote_source_from_gateway t peer u = remote_source_from_gateway s peer u"
  by (auto simp: remote_source_from_gateway_def from_gateway_def dest: agreesD)

lemma peer_route_run:
  assumes "\<not> rs_peers_locked s"
    and "route_from_peer env (peer_origin s u peer node) peer (with_src_l2_name (pn_name node) msg) s = (r, s')"
  shows "agrees s s' \<and> (rs_is_gateway s \<longrightarrow> r \<noteq> Stuck) \<and>
    (\<exists>new. rs_sent s' = rs_sent s @ new \<and> (\<forall>f\<in>set new. peer_sound_frame env s (peer_origin s u peer node) msg f))"
proof (rule spec_run)
  let ?og = "peer_origin s u peer node"
  have "carries (og_name ?og) msg (with_src_l2_name (pn_name node) msg)" "og_reply ?og = ToPeer peer"
    "og_gateway ?og = rs_is_gateway s"
    using carries_stamped by (simp_all add: peer_origin_def)
  then show "spec (rs_is_gateway s) s (peer_sound_frame env s ?og msg) (\<lambda>_. True)
      (route_from_peer env ?og peer (with_src_l2_name (pn_name node) msg))"
    using assms(1) spec_route_from_peer by simp
qed (use assms(2) in simp)

lemma peer_route_final:
  assumes "\<not> rs_peers_locked s"
    and "route_from_peer env (peer_origin s u peer node) peer (with_src_l2_name (pn_name node) msg) s = (r, s')"
  shows "(rs_is_gateway s \<longrightarrow> r \<noteq> Stuck) \<and> (\<exists>new. rs_sent s' = rs_sent s @ new \<and>
    (\<forall>f\<in>set new. peer_sound_frame env s' (peer_origin s' u peer node) msg f))"
proof -
  note routed = peer_route_run [OF assms]
  then have agrees: "agrees s s'" by blast
  have "peer_sound_frame env s' (peer_origin s' u peer node) msg
      = peer_sound_frame env s (peer_origin s u peer node) msg"
    using agrees_frames [OF agrees] agreesD [OF agrees]
    by (simp add: fun_eq_iff peer_sound_frame_def sound_frame_def strayed_def peer_origin_def)
  with routed show ?thesis by simp
qed

lemma unknown_source_run:
  assumes "(if is_error_report msg then hand_error_report env msg else ret ()) s = (r, s')"
  shows "r \<noteq> Stuck \<and> (\<exists>new. rs_sent s' = rs_sent s @ new \<and> (\<forall>f\<in>set new. handed_over env s' msg f))"
proof (cases "is_error_report msg")
  case True
  with assms spec_run [OF spec_hand_error_report [OF True, of True s env]]
  have "r \<noteq> Stuck" "agrees s s'" "\<exists>new. rs_sent s' = rs_sent s @ new \<and> (\<forall>f\<in>set new. handed_over env s msg f)"
    by auto
  moreover from this(2) have "handed_over env s' msg = handed_over env s msg"
    using agreesD by (simp add: fun_eq_iff handed_over_def)
  ultimately show ?thesis by simp
qed (use assms in \<open>auto simp: ret_def\<close>)

end
