(* ===== verification/Router_Properties.thy ===== *)
theory Router_Properties
  imports Router_Safety
begin

text \<open>
  The properties of the frame handlers of theory \<^verbatim>\<open>Router\<close>: what each of them sends, that it does not
  wait for itself, where it does, and how broadcasts are suppressed.
\<close>

section \<open>An example network\<close>

definition demo_renv :: router_env where
  "demo_renv =
     \<lparr> rv_codec = (demo_codec demo_payload) \<lparr> ce_parse_uuid := (\<lambda>s. if length s \<le> 2 then Some s else None) \<rparr>,
       rv_delivery = demo_env, rv_resolve = (\<lambda>_. Some None), rv_opa_reload = (\<lambda>_. True),
       rv_readable = True, rv_fresh = (\<lambda>_. ''f''), rv_clock = [] \<rparr>"

definition demo_handle_of :: "str \<Rightarrow> node_handle" where
  "demo_handle_of name = \<lparr> nh_name = name, nh_vpn_id = 0, nh_connected_at = 0 \<rparr>"

definition demo_router :: "bool \<Rightarrow> router_state" where
  "demo_router gateway =
     \<lparr> rs_lsa = demo_context \<lparr> lc_nodes := [(''a'', demo_handle_of ''AI.a@m''), (''b'', demo_handle_of ''IO.b@m'')],
                               lc_peer_nodes := [(''c'', \<lparr> pn_uuid = ''c'', pn_name = ''AI.c@m'', pn_vpn_id = 0,
                                                          pn_router_uuid = ''p'' \<rparr>)],
                               lc_lsa_snapshot := Some demo_snapshot \<rparr>,
       rs_is_gateway = gateway, rs_peers = [''p''], rs_peer_routers = [(''p'', \<not> gateway)],
       rs_broadcast_cache = broadcast_cache_new, rs_stream = demo_handle, rs_taps = None, rs_sent = [],
       rs_peers_locked = False \<rparr>"

definition demo_frame :: "uuid \<Rightarrow> destination \<Rightarrow> nat \<Rightarrow> message" where
  "demo_frame src dst ttl =
     \<lparr> msg_routing = \<lparr> rt_src = src, rt_src_l2_name = Some ''SY.admin@motherbee'', rt_dst = dst, rt_ttl = ttl,
                       rt_trace_id = ''t'' \<rparr>,
       msg_meta = meta_default \<lparr> mt_msg_type := ''user'' \<rparr>, msg_payload = JNull \<rparr>"

definition demo_session :: wan_session where
  "demo_session = \<lparr> ws_hive = ''w1'', ws_router_uuid = ''r1'', ws_router_name = [], ws_epoch = 1 \<rparr>"

lemma trim_nil [simp]: "trim [] = []" by code_simp

lemma no_protected_action [simp]: "protected_system_action [] = None"
  by (simp add: protected_system_action_def PROTECTED_SYSTEM_ACTIONS_def eq_ignore_ascii_case_def
      to_ascii_lowercase_def edge_service_actions_def node_control_actions_def)

lemmas demo_router_eval = demo_renv_def demo_codec_def demo_router_def demo_context_def demo_handle_of_def
  demo_frame_def parse_uuid_def reading_def andthen_def ret_def with_src_l2_name_def meta_default_def
  node_origin_def wan_origin_def Let_def

lemma demo_gate:
  "vpn_allows_between (meta_default \<lparr> mt_msg_type := ''user'' \<rparr>) ''AI.a@m'' 0 ''IO.b@m'' 0"
  "vpn_allows_between (meta_default \<lparr> mt_msg_type := ''user'' \<rparr>) ''AI.a@w1'' 0 ''IO.b@m'' 0"
  "vpn_allows_between (meta_default \<lparr> mt_msg_type := ''user'' \<rparr>) ''AI.c@m'' 0 ''IO.b@m'' 0"
  by code_simp+

lemma demo_not_agent: "\<not> is_agent_node ''IO.b@m''" by code_simp

lemma demo_data: "\<not> is_agent_node node \<Longrightarrow> delivery_data demo_env (with_package None m) node = Some []"
  by (simp add: delivery_data_def package_of_delivery_def demo_env_def demo_to_vec_def)

lemma demo_delivered:
  "deliver_locally demo_env [(ToNode ''b'', ''IO.b@m'')] (with_src_l2_name name (demo_frame u dst ttl)) via_hub
     demo_handle = (True, [(ToNode ''b'', [])], demo_handle)"
  by (simp add: deliver_locally_def prepare_local_delivery_def demo_data demo_not_agent Let_def)
    (simp add: demo_frame_def with_src_l2_name_def meta_default_def)

lemma demo_node_frame:
  "rs_sent (snd (handle_message demo_renv (demo_frame ''a'' (Unicast ''b'') 5) (demo_router True)))
     = [(ToNode ''b'', [])]"
  using demo_gate(1) demo_delivered
  by (simp add: handle_message_def route_from_node_def dispatch_from_node_def to_uuid_def to_local_def
      og_allows_def delivering_def tapped_def demo_router_eval)

lemma demo_source:
  "wan_frame_source (Some demo_snapshot) [] ''u1'' ''w1'' = Some \<lparr> ri_name = ''AI.a@w1'', ri_vpn_id = 0,
     ri_hive_id = ''w1'', ri_next_hop_hive = ''w1'', ri_via_hub = False \<rparr>"
  by (simp add: wan_frame_source_def find_node_of_hive_def demo_eval hive_name_def node_name_def
      bytes_to_string_def from_utf8_or_empty_def utf8_valid_def)

lemma demo_canonical: "canonical_wan_src_name ''AI.a@w1'' ''w1'' = ''AI.a@w1''" by code_simp

lemma demo_not_system: "\<not> is_system_kind ''user''" by code_simp

lemma demo_wan_frame:
  "rs_sent (snd (handle_wan_message demo_renv demo_session (demo_frame ''u1'' (Unicast ''b'') 5) (demo_router True)))
     = [(ToNode ''b'', [])]"
  using demo_gate(2) demo_delivered demo_source demo_canonical demo_not_system
  by (simp add: handle_wan_message_def names_def is_error_report_def route_wan_message_def route_from_wan_def
      dispatch_from_wan_def to_uuid_def to_local_def og_allows_def delivering_def demo_session_def demo_router_eval)

lemma demo_peer_frame:
  "rs_sent (snd (handle_peer_message demo_renv ''p'' (demo_frame ''c'' (Unicast ''b'') 5) (demo_router True)))
     = [(ToNode ''b'', [])]"
  using demo_gate(3) demo_delivered demo_not_system
  by (simp add: handle_peer_message_def names_def peer_source_def refreshing_def on_lsa_def refresh_lsa_def
      rebuild_context_fib_def route_from_peer_def dispatch_from_peer_def peer_origin_def peer_to_uuid_def
      peer_to_local_def og_allows_def delivering_def demo_router_eval)


lemma wan_message_run:
  assumes "\<not> rs_peers_locked s" "handle_wan_message env ws msg s = (r, s')"
  shows "r \<noteq> Stuck \<and> (\<exists>new. rs_sent s' = rs_sent s @ new \<and> (\<forall>f\<in>set new.
    handed_over env s msg f \<or>
    (\<exists>u info. parse_uuid env (rt_src (msg_routing msg)) = Some u \<and>
       wan_frame_source (lc_lsa_snapshot (rs_lsa s)) (lc_reachability (rs_lsa s)) u (ws_hive ws) = Some info \<and>
       ri_next_hop_hive info = ws_hive ws \<and> (\<not> ri_via_hub info \<longrightarrow> ri_hive_id info = ws_hive ws) \<and>
       sound_frame env s (wan_origin u info) (ri_via_hub info) msg f)))"
proof -
  have "(\<exists>g. handle_wan_message env ws msg = on_lsa g) \<or>
      is_error_report msg \<and> handle_wan_message env ws msg = hand_error_report env msg \<or>
      handle_wan_message env ws msg = route_wan_message env ws msg"
    by (cases "names msg ''LSA''"; cases "names msg ''WAN_REACHABILITY''"; cases "is_error_report msg")
      (auto simp: handle_wan_message_def Let_def)
  then consider (lsa) g where "handle_wan_message env ws msg = on_lsa g"
    | (report) "is_error_report msg" "handle_wan_message env ws msg = hand_error_report env msg"
    | (route) "handle_wan_message env ws msg = route_wan_message env ws msg"
    by blast
  then show ?thesis
  proof cases
    case lsa
    with assms(2) show ?thesis by (auto simp: on_lsa_run)
  next
    case report
    with assms(2) spec_run [OF spec_hand_error_report [OF report(1), of True s env]] show ?thesis by auto
  next
    case route
    with assms route_wan_message_run have "r \<noteq> Stuck \<and> (\<exists>new. rs_sent s' = rs_sent s @ new \<and> (\<forall>f\<in>set new. \<exists>u info.
        parse_uuid env (rt_src (msg_routing msg)) = Some u \<and>
        wan_frame_source (lc_lsa_snapshot (rs_lsa s)) (lc_reachability (rs_lsa s)) u (ws_hive ws) = Some info \<and>
        sound_frame env s (wan_origin u info) (ri_via_hub info) msg f))"
      by simp
    then show ?thesis using wan_frame_source_bound by meson
  qed
qed


section \<open>Properties\<close>

text \<open>C1: what a router does with a frame of one of its nodes.  It answers without waiting for itself,
  leaves its tables as they are, and every frame it sends for a message is one of three: a report of
  an error on the connection the frame came from; a copy with a smaller TTL to a router it is
  connected to; or a delivery to one of its own nodes that the reachability gate admits and, for a
  protected action, the policy authorises.  Forwarded, delivered, or copied for a tap, the message
  keeps its sender, verb and payload and bears the name the router registered for that sender,
  whatever name the frame claimed.  A frame whose source is not a node of this router sends nothing.\<close>

theorem handle_message_sound:
  assumes "\<not> rs_peers_locked s" "handle_message env msg s = (r, s')"
  shows "r \<noteq> Stuck \<and> rs_lsa s' = rs_lsa s \<and>
    (\<exists>new. rs_sent s' = rs_sent s @ new \<and> (\<forall>f\<in>set new. \<exists>u h.
       parse_uuid env (rt_src (msg_routing msg)) = Some u \<and> map_of (lc_nodes (rs_lsa s)) u = Some h \<and>
       sound_frame env s (node_origin s u h) False msg f))"
proof -
  note run = spec_run [OF spec_handle_message [of True s env msg] assms(2)]
  have "agrees s s'" using run assms(1) by blast
  with run assms(1) show ?thesis using agreesD [of s s'] by blast
qed

theorem handle_message_sound_witness:
  "rs_sent (snd (handle_message demo_renv (demo_frame ''a'' (Unicast ''b'') 5) (demo_router True)))
     = [(ToNode ''b'', [])] \<and>
   sound_frame demo_renv (demo_router True) (node_origin (demo_router True) ''a'' (demo_handle_of ''AI.a@m'')) False
     (demo_frame ''a'' (Unicast ''b'') 5) (ToNode ''b'', [])"
proof -
  let ?msg = "demo_frame ''a'' (Unicast ''b'') 5"
  obtain r s' where run: "handle_message demo_renv ?msg (demo_router True) = (r, s')" by force
  have "\<not> rs_peers_locked (demo_router True)" by (simp add: demo_router_def)
  note sound = handle_message_sound [OF this run]
  have "rs_sent s' = [(ToNode ''b'', [])]" "rs_sent (demo_router True) = []"
    using demo_node_frame run by (simp_all add: demo_router_def)
  with sound have "\<exists>u h. parse_uuid demo_renv (rt_src (msg_routing ?msg)) = Some u \<and>
      map_of (lc_nodes (rs_lsa (demo_router True))) u = Some h \<and>
      sound_frame demo_renv (demo_router True) (node_origin (demo_router True) u h) False ?msg (ToNode ''b'', [])"
    by auto
  moreover have "parse_uuid demo_renv (rt_src (msg_routing ?msg)) = Some ''a''"
    "map_of (lc_nodes (rs_lsa (demo_router True))) ''a'' = Some (demo_handle_of ''AI.a@m'')"
    by (simp_all add: demo_router_eval)
  ultimately show ?thesis using demo_node_frame by auto
qed

text \<open>C5: what a router does with a frame from another hive.  It answers without waiting for itself.
  An advertisement or a list of vouched nodes sends nothing.  A report of an error goes, as it came,
  to the local node it is addressed to.  Any other frame is routed only if its source is a node of the
  hive the session is authenticated for, or one that hive vouches for as the hub; then each frame sent
  is an error report on the session, a copy with a smaller TTL to a connected router, or a gated
  delivery, under the name the router derives for that source.\<close>

theorem handle_wan_message_sound:
  assumes "\<not> rs_peers_locked s" "handle_wan_message env ws msg s = (r, s')"
  shows "r \<noteq> Stuck \<and> (\<exists>new. rs_sent s' = rs_sent s @ new \<and> (\<forall>f\<in>set new.
    handed_over env s msg f \<or>
    (\<exists>u info. parse_uuid env (rt_src (msg_routing msg)) = Some u \<and>
       wan_frame_source (lc_lsa_snapshot (rs_lsa s)) (lc_reachability (rs_lsa s)) u (ws_hive ws) = Some info \<and>
       ri_next_hop_hive info = ws_hive ws \<and> (\<not> ri_via_hub info \<longrightarrow> ri_hive_id info = ws_hive ws) \<and>
       sound_frame env s (wan_origin u info) (ri_via_hub info) msg f)))"
  using assms by (rule wan_message_run)

theorem handle_wan_message_sound_witness:
  "rs_sent (snd (handle_wan_message demo_renv demo_session (demo_frame ''u1'' (Unicast ''b'') 5) (demo_router True)))
     = [(ToNode ''b'', [])] \<and>
   (\<exists>info. ri_hive_id info = ''w1'' \<and>
      sound_frame demo_renv (demo_router True) (wan_origin ''u1'' info) False
        (demo_frame ''u1'' (Unicast ''b'') 5) (ToNode ''b'', []))"
proof -
  let ?msg = "demo_frame ''u1'' (Unicast ''b'') 5"
  let ?c = "rs_lsa (demo_router True)"
  obtain r s' where run: "handle_wan_message demo_renv demo_session ?msg (demo_router True) = (r, s')" by force
  have "\<not> rs_peers_locked (demo_router True)" by (simp add: demo_router_def)
  note sound = handle_wan_message_sound [OF this run]
  have "rs_sent s' = [(ToNode ''b'', [])]" "rs_sent (demo_router True) = []" "\<not> is_error_report ?msg"
    using demo_wan_frame run demo_not_system
    by (simp_all add: demo_router_def is_error_report_def names_def demo_frame_def)
  with sound obtain u info where 1: "parse_uuid demo_renv (rt_src (msg_routing ?msg)) = Some u"
    "wan_frame_source (lc_lsa_snapshot ?c) (lc_reachability ?c) u (ws_hive demo_session) = Some info"
    "sound_frame demo_renv (demo_router True) (wan_origin u info) (ri_via_hub info) ?msg (ToNode ''b'', [])"
    by (auto simp: handed_over_def)
  have "parse_uuid demo_renv (rt_src (msg_routing ?msg)) = Some ''u1''" "lc_lsa_snapshot ?c = Some demo_snapshot"
    "lc_reachability ?c = []" "ws_hive demo_session = ''w1''"
    by (simp_all add: demo_router_eval demo_session_def)
  with 1(1,2) demo_source have "u = ''u1''" "ri_hive_id info = ''w1''" "\<not> ri_via_hub info" by auto
  with 1(3) demo_wan_frame show ?thesis by auto
qed

text \<open>C6: what a router does with a frame from a sibling router of its hive.  On the gateway it answers
  without waiting for itself.  On every router, each frame it sends is a report of an error handed to
  its addressee as it came, or belongs to a message of a node that is registered with a sibling or,
  from the gateway, that the region lists for another hive; and then it is an error report to the
  sibling, a report of a spent TTL to the next router, a copy with a smaller TTL to a connected router,
  or a gated delivery under the name the router knows.\<close>

theorem handle_peer_message_sound:
  assumes "\<not> rs_peers_locked s" "handle_peer_message env peer msg s = (r, s')"
  shows "(rs_is_gateway s \<longrightarrow> r \<noteq> Stuck) \<and> (\<exists>new. rs_sent s' = rs_sent s @ new \<and> (\<forall>f\<in>set new.
    handed_over env s' msg f \<or>
    (\<exists>u node. parse_uuid env (rt_src (msg_routing msg)) = Some u \<and>
       (map_of (lc_peer_nodes (rs_lsa s)) u = Some node \<or>
        remote_source_from_gateway s peer u = Some node \<or> remote_source_from_gateway s' peer u = Some node) \<and>
       peer_sound_frame env s' (peer_origin s' u peer node) msg f)))"
proof (cases "parse_uuid env (rt_src (msg_routing msg))")
  case (Some u)
  show ?thesis
  proof (cases "names msg ''OPA_RELOAD''")
    case True
    with Some assms(2) show ?thesis
      by (auto simp: handle_peer_message_def ret_def split: if_splits)
  next
    case False
    obtain found t where t: "peer_source env peer u s = (Value found, t)" "t = s \<or> t = refreshed env s"
      and found: "\<And>node. found = Some node \<Longrightarrow>
        map_of (lc_peer_nodes (rs_lsa s)) u = Some node \<or> remote_source_from_gateway t peer u = Some node"
      by (rule peer_source_run [of env peer u s]) (rule that)
    show ?thesis
    proof (cases found)
      case None
      with Some False t assms(2) have "(if is_error_report msg then hand_error_report env msg else ret ()) t = (r, s')"
        by (simp add: handle_peer_message_def andthen_def)
      with t(2) show ?thesis by (auto dest!: unknown_source_run simp: refreshed_def)
    next
      case node: (Some node)
      have "refreshing env t = (Value (), refreshed env s)"
        using t(2) by (auto simp: refreshing_def on_lsa_def refreshed_def)
      with Some False t(1) assms(2) node
      have run: "route_from_peer env (peer_origin (refreshed env s) u peer node) peer
          (with_src_l2_name (pn_name node) msg) (refreshed env s) = (r, s')"
        by (simp add: handle_peer_message_def andthen_def reading_def Let_def peer_origin_def)
      then have source: "remote_source_from_gateway (refreshed env s) peer u = remote_source_from_gateway s' peer u"
        using peer_route_run [of "refreshed env s"] assms(1) agrees_source by (fastforce simp: refreshed_def)
      from run peer_route_final [of "refreshed env s"] assms(1)
      have "(rs_is_gateway s \<longrightarrow> r \<noteq> Stuck) \<and> (\<exists>new. rs_sent s' = rs_sent s @ new \<and>
          (\<forall>f\<in>set new. peer_sound_frame env s' (peer_origin s' u peer node) msg f))"
        by (simp add: refreshed_def)
      moreover have "map_of (lc_peer_nodes (rs_lsa s)) u = Some node \<or>
          remote_source_from_gateway s peer u = Some node \<or> remote_source_from_gateway s' peer u = Some node"
        using found [OF node] t(2) source by metis
      ultimately show ?thesis using Some by blast
    qed
  qed
qed (use assms(2) in \<open>auto simp: handle_peer_message_def ret_def\<close>)

theorem handle_peer_message_sound_witness:
  "rs_sent (snd (handle_peer_message demo_renv ''p'' (demo_frame ''c'' (Unicast ''b'') 5) (demo_router True)))
     = [(ToNode ''b'', [])] \<and>
   fst (handle_peer_message demo_renv ''p'' (demo_frame ''c'' (Unicast ''b'') 5) (demo_router True)) \<noteq> Stuck"
proof -
  let ?msg = "demo_frame ''c'' (Unicast ''b'') 5"
  obtain r s' where run: "handle_peer_message demo_renv ''p'' ?msg (demo_router True) = (r, s')" by force
  have "\<not> rs_peers_locked (demo_router True)" "rs_is_gateway (demo_router True)" by (simp_all add: demo_router_def)
  with handle_peer_message_sound [OF _ run] run demo_peer_frame show ?thesis by simp
qed

text \<open>C36: a broadcast from a sibling stops a router that is not the gateway.  The handler looks the
  sibling up and holds the lock of the table of siblings while it forwards the broadcast towards the
  WAN; without being the gateway, forwarding asks for that same lock.  So a broadcast with a TTL of at
  least three, from a node of any connected sibling, while the gateway is known, leaves the handler
  waiting for itself: no local node gets the broadcast, and the lock is never released.\<close>

theorem sibling_broadcast_deadlocks:
  assumes "\<not> rs_peers_locked s" "\<not> rs_is_gateway s" "peer \<in> set (rs_peers s)" "gateway_uuid s = Some gateway"
    and "parse_uuid env (rt_src (msg_routing msg)) = Some u" "map_of (lc_peer_nodes (rs_lsa s)) u = Some node"
    and "rt_dst (msg_routing msg) = Broadcast" "3 \<le> rt_ttl (msg_routing msg)" "\<not> names msg ''OPA_RELOAD''"
  shows "fst (handle_peer_message env peer msg s) = Stuck \<and>
    rs_sent (snd (handle_peer_message env peer msg s)) = rs_sent s \<and>
    rs_peers_locked (snd (handle_peer_message env peer msg s))"
proof -
  let ?m = "with_src_l2_name (pn_name node) msg"
  have m: "rt_dst (msg_routing ?m) = Broadcast" "\<not> rt_ttl (msg_routing ?m) \<le> 2" "3 \<le> rt_ttl (msg_routing ?m)"
    "rt_ttl (msg_routing ?m) \<noteq> 0"
    using assms(7,8) by (simp_all add: with_src_l2_name_def)
  have g: "gateway_uuid (s \<lparr> rs_lsa := c, rs_peers_locked := l \<rparr>) = Some gateway" for c l
    using assms(4) by (simp add: gateway_uuid_def)
  show ?thesis
    using assms(1-3,5,6,9) m g
    by (simp add: handle_peer_message_def peer_source_def reading_def andthen_def ret_def refreshing_def
        on_lsa_def route_from_peer_def peer_origin_def dispatch_from_peer_def broadcast_from_peer_def
        if_peer_def forward_broadcast_to_wan_def send_to_peer_router_def lock_peers_def Let_def)
qed

theorem sibling_broadcast_deadlocks_witness:
  "fst (handle_peer_message demo_renv ''p'' (demo_frame ''c'' Broadcast 15) (demo_router False)) = Stuck"
proof -
  have "parse_uuid demo_renv (rt_src (msg_routing (demo_frame ''c'' Broadcast 15))) = Some ''c''"
    "map_of (lc_peer_nodes (rs_lsa (demo_router False))) ''c'' = Some \<lparr> pn_uuid = ''c'', pn_name = ''AI.c@m'',
       pn_vpn_id = 0, pn_router_uuid = ''p'' \<rparr>"
    "gateway_uuid (demo_router False) = Some ''p''" "\<not> names (demo_frame ''c'' Broadcast 15) ''OPA_RELOAD''"
    using demo_not_system by (simp_all add: demo_router_eval gateway_uuid_def names_def)
  from sibling_broadcast_deadlocks [OF _ _ _ this(3,1,2) _ _ this(4)]
  show ?thesis by (simp add: demo_router_def demo_frame_def)
qed

section \<open>Authority across hives\<close>

lemma find_cong_set: "(\<And>x. x \<in> set xs \<Longrightarrow> P x = Q x) \<Longrightarrow> find P xs = find Q xs"
  by (induction xs) auto

lemma strip_prefixes_stops:
  assumes "\<forall>p \<in> set ps. c \<notin> set p"
  shows "strip_prefixes ps (x @ c # y) = strip_prefixes ps x @ c # y"
  using assms
proof (induction ps x rule: strip_prefixes.induct)
  case (1 ps x)
  have "prefix p (x @ c # y) = prefix p x" if "p \<in> set ps" for p
    using 1(2) that by (auto simp: prefix_append prefix_Cons)
  then have find: "find (\<lambda>p. p \<noteq> [] \<and> prefix p (x @ c # y)) ps = find (\<lambda>p. p \<noteq> [] \<and> prefix p x) ps"
    by (auto intro: find_cong_set)
  show ?case
  proof (cases "find (\<lambda>p. p \<noteq> [] \<and> prefix p x) ps")
    case None
    with find show ?thesis by (simp add: strip_prefixes.simps [of ps x] strip_prefixes.simps [of ps "x @ c # y"])
  next
    case (Some p)
    then have "length p \<le> length x" by (auto simp: find_Some_iff prefix_length_le)
    with find Some 1 show ?thesis
      by (simp add: strip_prefixes.simps [of ps x] strip_prefixes.simps [of ps "x @ c # y"])
  qed
qed

text \<open>A name \<^verbatim>\<open>role@hive\<close> is parsed with that hive, its trailing whitespace aside.\<close>

lemma parsed_on_hive:
  assumes "parsed (Some (role @ at_sign # hive)) = Some (r, h)" "at_sign \<notin> set role"
  shows "h = strip_suffixes whitespace hive"
proof -
  have ws: "\<forall>p \<in> set whitespace. at_sign \<notin> set p" by (simp add: whitespace_def)
  let ?x = "strip_prefixes whitespace role"
  have "trim (role @ at_sign # hive) = strip_suffixes whitespace (?x @ at_sign # hive)"
    using strip_prefixes_stops [OF ws] by (simp add: trim_def)
  also have "\<dots> = ?x @ at_sign # strip_suffixes whitespace hive"
    using strip_prefixes_stops [of "map rev whitespace" at_sign "rev hive" "rev ?x"] ws
    by (simp add: strip_suffixes_def)
  finally have "trim (role @ at_sign # hive) = ?x @ at_sign # strip_suffixes whitespace hive" .
  moreover have "at_sign \<notin> set ?x" using assms(2) set_strip_prefixes by blast
  ultimately have "split_once at_sign (trim (role @ at_sign # hive)) = Some (?x, strip_suffixes whitespace hive)"
    by (simp add: split_once_Some_iff)
  with assms(1) show ?thesis by (auto simp: parsed_def split: if_splits)
qed

lemma canonical_shape: "\<exists>role. canonical_wan_src_name name hive = role @ at_sign # hive \<and> at_sign \<notin> set role"
proof -
  have "at_sign \<notin> set (case split_once at_sign name of Some (r, _) \<Rightarrow> r | None \<Rightarrow> name)"
    by (auto simp: split_once_Some_iff split_once_None_iff split: option.splits)
  then show ?thesis using set_trim by (auto simp: canonical_wan_src_name_def Let_def)
qed

lemma error_reports_unprotected:
  "is_error_report msg \<Longrightarrow> mt_msg (msg_meta msg) = Some named \<Longrightarrow> protected_system_action named = None"
proof -
  have "trim ''UNREACHABLE'' = ''UNREACHABLE''" "trim ''TTL_EXCEEDED'' = ''TTL_EXCEEDED''" by code_simp+
  then have "protected_system_action ''UNREACHABLE'' = None" "protected_system_action ''TTL_EXCEEDED'' = None"
    by (simp_all add: protected_system_action_def PROTECTED_SYSTEM_ACTIONS_def eq_ignore_ascii_case_def
        to_ascii_lowercase_def to_ascii_lower_def)
  then show "is_error_report msg \<Longrightarrow> mt_msg (msg_meta msg) = Some named \<Longrightarrow> protected_system_action named = None"
    by (auto simp: is_error_report_def names_def)
qed

lemma delivered_authorized:
  assumes "policy_faithful (de_eval (rv_delivery env))" "delivered env s og via_hub msg f"
    and "mt_msg (msg_meta msg) = Some named" "protected_system_action named = Some action"
  shows "\<not> via_hub \<and> rego_allow action (Some (og_name og)) (de_hive_id (rv_delivery env))"
  using assms authorize_system_rego unfolding delivered_def carries_def authority_ok_def by auto

text \<open>C7: a hive has no authority over another.  A peer that is authenticated for a hive other than
  the hub's and other than this one cannot have a protected action delivered to any node of this
  router, whatever source, name, type and destination its frames carry: neither for its own nodes nor
  for those it might vouch for.\<close>

theorem spoke_cannot_command:
  assumes "policy_faithful (de_eval (rv_delivery env))" "\<not> rs_peers_locked s"
    and "strip_suffixes whitespace (ws_hive ws) \<notin> {''motherbee'', de_hive_id (rv_delivery env)}"
    and "mt_msg (msg_meta msg) = Some named" "protected_system_action named = Some action"
    and "handle_wan_message env ws msg s = (r, s')"
  shows "\<exists>new. rs_sent s' = rs_sent s @ new \<and> (\<forall>u data. (ToNode u, data) \<notin> set new)"
proof -
  obtain new where new: "rs_sent s' = rs_sent s @ new" and sound: "\<forall>f\<in>set new. handed_over env s msg f \<or>
      (\<exists>u info. (\<not> ri_via_hub info \<longrightarrow> ri_hive_id info = ws_hive ws) \<and>
         sound_frame env s (wan_origin u info) (ri_via_hub info) msg f)"
    using wan_message_run [OF assms(2,6)] by blast
  have "\<not> handed_over env s msg f" for f
    using error_reports_unprotected assms(4,5) by (auto simp: handed_over_def)
  moreover have "\<not> sound_frame env s (wan_origin u info) (ri_via_hub info) msg (ToNode v, data)"
    if "\<not> ri_via_hub info \<longrightarrow> ri_hive_id info = ws_hive ws" for u info v data
  proof
    assume "sound_frame env s (wan_origin u info) (ri_via_hub info) msg (ToNode v, data)"
    then have "delivered env s (wan_origin u info) (ri_via_hub info) msg (ToNode v, data)"
      by (auto simp: sound_frame_def replied_def forwarded_def wan_origin_def)
    from delivered_authorized [OF assms(1) this assms(4,5)] that
    have allow: "rego_allow action (Some (canonical_wan_src_name (ri_name info) (ws_hive ws))) (de_hive_id (rv_delivery env))"
      by (auto simp: wan_origin_def)
    then obtain role hive where p: "parsed (Some (canonical_wan_src_name (ri_name info) (ws_hive ws))) = Some (role, hive)"
      using rego_allow_named by blast
    then have "hive = strip_suffixes whitespace (ws_hive ws)"
      using parsed_on_hive canonical_shape by metis
    with rego_allow_roles [OF allow p] assms(3) show False by auto
  qed
  ultimately show ?thesis using new sound by blast
qed

theorem spoke_cannot_command_witness:
  "\<exists>msg r s' new. mt_msg (msg_meta msg) = Some ''SYSTEM_UPDATE'' \<and>
     handle_wan_message demo_renv demo_session msg (demo_router True) = (r, s') \<and>
     rs_sent s' = new \<and> (\<forall>data. (ToNode ''b'', data) \<notin> set new)"
proof -
  let ?msg = "demo_frame ''u1'' (Unicast ''b'') 5 \<lparr> msg_meta := meta_default \<lparr> mt_msg := Some ''SYSTEM_UPDATE'' \<rparr> \<rparr>"
  obtain r s' where run: "handle_wan_message demo_renv demo_session ?msg (demo_router True) = (r, s')" by force
  have "policy_faithful (de_eval (rv_delivery demo_renv))" "\<not> rs_peers_locked (demo_router True)"
    "mt_msg (msg_meta ?msg) = Some ''SYSTEM_UPDATE''" "rs_sent (demo_router True) = []"
    "ws_hive demo_session = ''w1''" "de_hive_id (rv_delivery demo_renv) = ''w''"
    by (simp_all add: demo_renv_def demo_env_def demo_router_def demo_session_def)
  moreover have "protected_system_action ''SYSTEM_UPDATE'' = Some ''SYSTEM_UPDATE''"
    "strip_suffixes whitespace ''w1'' = ''w1''" by code_simp+
  ultimately have "\<exists>new. rs_sent s' = [] @ new \<and> (\<forall>u data. (ToNode u, data) \<notin> set new)"
    using spoke_cannot_command [OF _ _ _ _ _ run, of "''SYSTEM_UPDATE''" "''SYSTEM_UPDATE''"] by simp
  with run show ?thesis
    by (intro exI [of _ ?msg] exI [of _ r] exI [of _ s'] exI [of _ "rs_sent s'"]) auto
qed


section \<open>Broadcasts\<close>

text \<open>The calls of \<^verbatim>\<open>check_and_add\<close> on one cache, each with its time.\<close>

fun checks :: "broadcast_cache \<Rightarrow> (nat \<times> uuid) list \<Rightarrow> bool list" where
  "checks cache [] = []"
| "checks cache ((now, trace_id) # calls) =
     (let (fresh, cache) = check_and_add now trace_id cache in fresh # checks cache calls)"

lemma update_absent: "u \<notin> fst ` set xs \<Longrightarrow> AList.update u v xs = xs @ [(u, v)]"
  by (induction xs) auto

lemma check_and_add_run:
  assumes "check_and_add now u cache = (fresh, cache')"
  shows "fresh \<longleftrightarrow> (\<forall>t. (u, t) \<in> set (bc_seen cache) \<longrightarrow> now - t > bc_ttl_ms cache)"
    "set (bc_seen cache') =
       {(v, t) \<in> set (bc_seen cache). now - t \<le> bc_ttl_ms cache} \<union> (if fresh then {(u, now)} else {})"
    "bc_ttl_ms cache' = bc_ttl_ms cache"
proof -
  let ?seen = "filter (\<lambda>(_, ts). now - ts \<le> bc_ttl_ms cache) (bc_seen cache)"
  have set: "set ?seen = {(v, t) \<in> set (bc_seen cache). now - t \<le> bc_ttl_ms cache}" by auto
  have "u \<in> fst ` set ?seen \<longleftrightarrow> (\<exists>t. (u, t) \<in> set (bc_seen cache) \<and> now - t \<le> bc_ttl_ms cache)" by force
  then show fresh: "fresh \<longleftrightarrow> (\<forall>t. (u, t) \<in> set (bc_seen cache) \<longrightarrow> now - t > bc_ttl_ms cache)"
    using assms by (auto simp: check_and_add_def Let_def not_le split: if_splits)
  show "set (bc_seen cache') =
      {(v, t) \<in> set (bc_seen cache). now - t \<le> bc_ttl_ms cache} \<union> (if fresh then {(u, now)} else {})"
    using assms unfolding set [symmetric]
    by (auto simp: check_and_add_def Let_def update_absent split: if_splits)
  show "bc_ttl_ms cache' = bc_ttl_ms cache"
    using assms by (auto simp: check_and_add_def Let_def split: if_splits)
qed

lemma checks_iff:
  assumes "sorted (map fst calls)" "j < length calls"
  shows "checks cache calls ! j \<longleftrightarrow>
    (\<forall>t. (snd (calls ! j), t) \<in> set (bc_seen cache) \<longrightarrow> fst (calls ! j) - t > bc_ttl_ms cache) \<and>
    (\<forall>i < j. checks cache calls ! i \<and> snd (calls ! i) = snd (calls ! j) \<longrightarrow>
       fst (calls ! j) - fst (calls ! i) > bc_ttl_ms cache)"
  using assms
proof (induction calls arbitrary: cache j)
  case (Cons call calls)
  obtain now u where call: "call = (now, u)" by force
  obtain fresh cache' where c: "check_and_add now u cache = (fresh, cache')" by force
  note run = check_and_add_run [OF c]
  show ?case
  proof (cases j)
    case 0
    with run(1) c call show ?thesis by simp
  next
    case (Suc k)
    then have k: "k < length calls" using Cons.prems by simp
    have later: "now \<le> fst (calls ! k)" using Cons.prems(1) k call by simp
    have "checks cache' calls ! k \<longleftrightarrow>
        (\<forall>t. (snd (calls ! k), t) \<in> set (bc_seen cache') \<longrightarrow> fst (calls ! k) - t > bc_ttl_ms cache) \<and>
        (\<forall>i < k. checks cache' calls ! i \<and> snd (calls ! i) = snd (calls ! k) \<longrightarrow>
           fst (calls ! k) - fst (calls ! i) > bc_ttl_ms cache)"
      using Cons.IH [OF _ k, of cache'] Cons.prems(1) run(3) by simp
    moreover have "(\<forall>t. (snd (calls ! k), t) \<in> set (bc_seen cache') \<longrightarrow> fst (calls ! k) - t > bc_ttl_ms cache) \<longleftrightarrow>
        (\<forall>t. (snd (calls ! k), t) \<in> set (bc_seen cache) \<longrightarrow> fst (calls ! k) - t > bc_ttl_ms cache) \<and>
        (fresh \<and> u = snd (calls ! k) \<longrightarrow> fst (calls ! k) - now > bc_ttl_ms cache)"
      unfolding run(2) using later by (force simp: not_le)
    ultimately show ?thesis
      using c call Suc by (auto simp: All_less_Suc2)
  qed
qed simp

text \<open>A broadcast is taken once.  However the calls follow one another, a call is refused exactly when
  an earlier one was accepted for the same trace within the last thirty seconds.\<close>

theorem broadcast_taken_once:
  assumes "sorted (map fst calls)" "j < length calls"
  shows "checks broadcast_cache_new calls ! j \<longleftrightarrow>
    (\<forall>i < j. checks broadcast_cache_new calls ! i \<and> snd (calls ! i) = snd (calls ! j) \<longrightarrow>
       fst (calls ! j) - fst (calls ! i) > 30000)"
  using checks_iff [OF assms, of broadcast_cache_new] by (simp add: broadcast_cache_new_def)

theorem broadcast_taken_once_witness:
  "checks broadcast_cache_new [(0, ''t''), (30000, ''t''), (30001, ''t'')] = [True, False, True] \<and>
   (checks broadcast_cache_new [(0, ''t''), (30000, ''t''), (30001, ''t'')] ! 1 \<longleftrightarrow> False)"
proof -
  let ?calls = "[(0, ''t''), (30000, ''t''), (30001, ''t'')] :: (nat \<times> uuid) list"
  have run: "checks broadcast_cache_new ?calls = [True, False, True]"
    by (auto simp: broadcast_cache_new_def check_and_add_def)
  have "sorted (map fst ?calls)" "1 < length ?calls" by simp_all
  from broadcast_taken_once [OF this] run show ?thesis by simp
qed

lemma delivering_run:
  "\<exists>ok sent h. delivering env ds m via_hub s = (ok, s \<lparr> rs_sent := rs_sent s @ sent, rs_stream := h \<rparr>) \<and>
     fst ` set sent \<subseteq> fst ` set ds"
proof -
  obtain ok sent h where d: "deliver_locally (rv_delivery env) ds m via_hub (rs_stream s) = (ok, sent, h)"
    by (metis prod_cases3)
  then have "fst ` set sent \<subseteq> fst ` set ds"
    using deliver_locally_sent [of _ _ "rv_delivery env" ds m via_hub "rs_stream s"] by force
  with d show ?thesis by (auto simp: delivering_def)
qed

lemma broadcast_targets_nodes: "fst ` set (broadcast_targets og m nodes) \<subseteq> range ToNode"
  by (auto elim!: broadcast_targetsE)

lemma broadcast_from_node_run:
  assumes "\<not> rs_peers_locked s" "\<not> og_gateway og" "gateway_uuid s = Some gateway" "gateway \<in> set (rs_peers s)"
    and "parse_uuid env (rt_trace_id (msg_routing m)) = Some trace_id"
    and "fst (check_and_add (de_now (rv_delivery env)) trace_id (rs_broadcast_cache s))"
    and "3 \<le> rt_ttl (msg_routing m)" "de_to_vec (rv_delivery env) (one_hop m) = Some data"
  shows "broadcast_from_node env og m s =
    (Value (Some (broadcast_targets og m (lc_nodes (rs_lsa s)))),
     s \<lparr> rs_broadcast_cache := snd (check_and_add (de_now (rv_delivery env)) trace_id (rs_broadcast_cache s)),
         rs_sent := rs_sent s @ map (\<lambda>p. (ToPeer p, data)) (rs_peers s) @ [(ToPeer gateway, data)] \<rparr>)"
proof -
  have "gateway_uuid (s \<lparr> rs_broadcast_cache := c, rs_sent := l \<rparr>) = Some gateway" for c l
    using assms(3) by (simp add: gateway_uuid_def)
  moreover have "\<not> rt_ttl (msg_routing m) \<le> 2" "2 \<le> rt_ttl (msg_routing m)" "rs_peers s \<noteq> []"
    using assms(4,7) by auto
  ultimately show ?thesis
    using assms
    by (cases "check_and_add (de_now (rv_delivery env)) trace_id (rs_broadcast_cache s)")
      (simp add: broadcast_from_node_def first_seen_def reading_def andthen_def ret_def broadcast_to_peers_def
        lock_peers_def emit_all_def forward_broadcast_to_wan_def send_to_peer_router_def comp_def)
qed

text \<open>C37: a broadcast of a node reaches the gateway twice.  On a router that is not the gateway, a
  broadcast with a TTL of at least three that is taken for the first time is sent to every sibling,
  the gateway included, and once more to the gateway to be carried over the WAN.  The gateway takes
  every frame of a sibling without asking the cache, so its nodes get both copies.\<close>

theorem broadcast_reaches_gateway_twice:
  assumes "\<not> rs_peers_locked s" "\<not> rs_is_gateway s" "gateway_uuid s = Some gateway" "gateway \<in> set (rs_peers s)"
    "distinct (rs_peers s)"
    and "parse_uuid env (rt_src (msg_routing msg)) = Some u" "map_of (lc_nodes (rs_lsa s)) u = Some h"
    and "rt_dst (msg_routing msg) = Broadcast" "3 \<le> rt_ttl (msg_routing msg)"
    and "parse_uuid env (rt_trace_id (msg_routing msg)) = Some trace_id"
    and "fst (check_and_add (de_now (rv_delivery env)) trace_id (rs_broadcast_cache s))"
    and "de_to_vec (rv_delivery env) (one_hop (with_src_l2_name (nh_name h) msg)) = Some data"
  shows "count_list (rs_sent (snd (handle_message env msg s))) (ToPeer gateway, data) =
    count_list (rs_sent s) (ToPeer gateway, data) + 2"
proof -
  let ?m = "with_src_l2_name (nh_name h) msg" and ?og = "node_origin s u h"
  have m: "rt_dst (msg_routing ?m) = Broadcast" "3 \<le> rt_ttl (msg_routing ?m)"
    "parse_uuid env (rt_trace_id (msg_routing ?m)) = Some trace_id" "rt_ttl (msg_routing ?m) \<noteq> 0"
    using assms(8-10) by (auto simp: with_src_l2_name_def)
  have og: "\<not> og_gateway ?og" using assms(2) by (simp add: node_origin_def)
  note run = broadcast_from_node_run [OF assms(1) og assms(3,4) m(3) assms(11) m(2) assms(12)]
  obtain ds t where b: "broadcast_from_node env ?og ?m s = (Value (Some ds), t)"
    and ds: "fst ` set ds \<subseteq> range ToNode"
    and sent: "rs_sent t = rs_sent s @ map (\<lambda>p. (ToPeer p, data)) (rs_peers s) @ [(ToPeer gateway, data)]"
    by (rule that [OF run]) (simp_all add: broadcast_targets_nodes)
  obtain ok sent' h' where d: "delivering env ds ?m False t = (ok, t \<lparr> rs_sent := rs_sent t @ sent', rs_stream := h' \<rparr>)"
    "fst ` set sent' \<subseteq> fst ` set ds"
    using delivering_run by blast
  have "rs_sent (snd (handle_message env msg s)) = rs_sent t @ sent'"
    using assms(6,7) m b d(1)
    by (cases ok) (auto simp: handle_message_def reading_def route_from_node_def dispatch_from_node_def andthen_def
        ret_def tapped_def split: option.splits)
  moreover have "(ToPeer gateway, data) \<notin> set sent'" using d(2) ds by force
  moreover have "count_list (map (\<lambda>p. (ToPeer p, data)) ps) (ToPeer gateway, data) = count_list ps gateway" for ps
    by (induction ps) auto
  moreover have "distinct ps \<Longrightarrow> g \<in> set ps \<Longrightarrow> count_list ps g = 1" for ps and g :: uuid
    by (induction ps) (auto simp: count_list_0_iff)
  then have "count_list (rs_peers s) gateway = 1" using assms(4,5) by blast
  ultimately show ?thesis using sent by (simp add: count_list_append)
qed

theorem broadcast_reaches_gateway_twice_witness:
  "count_list (rs_sent (snd (handle_message demo_renv (demo_frame ''a'' Broadcast 16) (demo_router False)))) (ToPeer ''p'', []) = 2"
proof -
  let ?msg = "demo_frame ''a'' Broadcast 16" and ?s = "demo_router False"
  have "fst (check_and_add (de_now (rv_delivery demo_renv)) ''t'' (rs_broadcast_cache ?s))"
    by (simp add: demo_router_def broadcast_cache_new_def check_and_add_def)
  moreover have "de_to_vec (rv_delivery demo_renv) (one_hop (with_src_l2_name (nh_name (demo_handle_of ''AI.a@m'')) ?msg)) = Some []"
    by (simp add: demo_router_eval demo_env_def demo_to_vec_def one_hop_def)
  moreover have "gateway_uuid ?s = Some ''p''" "\<not> rs_peers_locked ?s" "\<not> rs_is_gateway ?s" "rs_peers ?s = [''p'']"
    "rs_sent ?s = []" "parse_uuid demo_renv (rt_src (msg_routing ?msg)) = Some ''a''"
    "map_of (lc_nodes (rs_lsa ?s)) ''a'' = Some (demo_handle_of ''AI.a@m'')"
    "rt_dst (msg_routing ?msg) = Broadcast" "3 \<le> rt_ttl (msg_routing ?msg)"
    "parse_uuid demo_renv (rt_trace_id (msg_routing ?msg)) = Some ''t''"
    by (simp_all add: demo_router_eval gateway_uuid_def)
  ultimately show ?thesis
    using broadcast_reaches_gateway_twice [of ?s "''p''" demo_renv ?msg "''a''" "demo_handle_of ''AI.a@m''" "''t''" "[]"]
    by simp
qed

end
