(* ===== verification/Seqlock.thy ===== *)
theory Seqlock
  imports Prelude "HOL-Library.Word"
begin

text \<open>
  The sequence lock over a shared region (\<^verbatim>\<open>src/src/shm/mod.rs\<close>).  A writer makes the sequence number odd,
  stores, and makes it even again; a reader loads the number, copies the region cell by cell, loads it again
  and takes the copy when both loads agree and are even.  Writer and reader interleave at single loads and
  stores, each seen by the other in the order of its program; the writer may stop at any point and a new one
  open the region.
\<close>

section \<open>State and steps\<close>

text \<open>\<^verbatim>\<open>lk_bumps\<close> is history: how often the number was incremented, which the 64 bits of the number forget.\<close>

datatype 'c reader =
    Looking
  | Copying "64 word" nat "nat \<rightharpoonup> 'c"
  | Got "nat \<rightharpoonup> 'c"
  | TimedOut

record 'c region_lock =
  lk_seq :: "64 word"
  lk_bumps :: nat
  lk_cells :: "'c list"
  lk_writing :: bool
  lk_reader :: "'c reader"

definition seqlock_begin_write :: "'c region_lock \<Rightarrow> 'c region_lock" where
  "seqlock_begin_write s = s\<lparr>lk_seq := lk_seq s + 1, lk_bumps := lk_bumps s + 1, lk_writing := True\<rparr>"

definition seqlock_end_write :: "'c region_lock \<Rightarrow> 'c region_lock" where
  "seqlock_end_write s = s\<lparr>lk_seq := lk_seq s + 1, lk_bumps := lk_bumps s + 1, lk_writing := False\<rparr>"

text \<open>A writer that opens the region: an odd number, left by one that stopped while writing, is made even.\<close>

definition normalize_seq_header :: "'c region_lock \<Rightarrow> 'c region_lock" where
  "normalize_seq_header s =
     (if odd (lk_seq s)
      then s\<lparr>lk_seq := (if lk_seq s = - 1 then - 1 else lk_seq s + 1), lk_bumps := lk_bumps s + 1, lk_writing := False\<rparr>
      else s\<lparr>lk_writing := False\<rparr>)"

definition store :: "nat \<Rightarrow> 'c \<Rightarrow> 'c region_lock \<Rightarrow> 'c region_lock" where
  "store i c s = s\<lparr>lk_cells := (lk_cells s)[i := c]\<rparr>"

text \<open>The reader's loop: its first load, the copy of one cell, its second load, and the deadline.\<close>

definition first_load :: "'c region_lock \<Rightarrow> 'c region_lock" where
  "first_load s =
     (if odd (lk_seq s) then s\<lparr>lk_reader := Looking\<rparr>
      else s\<lparr>lk_reader := Copying (lk_seq s) (lk_bumps s) Map.empty\<rparr>)"

definition copy_cell :: "nat \<Rightarrow> 'c region_lock \<Rightarrow> 'c region_lock" where
  "copy_cell i s =
     (case lk_reader s of
        Copying s1 n got \<Rightarrow> s\<lparr>lk_reader := Copying s1 n (got(i \<mapsto> lk_cells s ! i))\<rparr>
      | _ \<Rightarrow> s)"

definition second_load :: "'c region_lock \<Rightarrow> 'c region_lock" where
  "second_load s =
     (case lk_reader s of
        Copying s1 n got \<Rightarrow> s\<lparr>lk_reader := (if lk_seq s = s1 then Got got else Looking)\<rparr>
      | _ \<Rightarrow> s)"

inductive lock_step :: "'c region_lock \<Rightarrow> 'c region_lock \<Rightarrow> bool" where
  begin_write: "\<not> lk_writing s \<Longrightarrow> lock_step s (seqlock_begin_write s)"
| stores: "lk_writing s \<Longrightarrow> i < length (lk_cells s) \<Longrightarrow> lock_step s (store i c s)"
| end_write: "lk_writing s \<Longrightarrow> lock_step s (seqlock_end_write s)"
| reopen: "lk_seq s \<noteq> - 1 \<Longrightarrow> lock_step s (normalize_seq_header s)"
| look: "lk_reader s = Looking \<Longrightarrow> lock_step s (first_load s)"
| copies: "i < length (lk_cells s) \<Longrightarrow> lock_step s (copy_cell i s)"
| check: "lk_reader s = Copying s1 n got \<Longrightarrow> dom got = {..<length (lk_cells s)} \<Longrightarrow> lock_step s (second_load s)"
| deadline: "lk_reader s = Looking \<Longrightarrow> lock_step s (s\<lparr>lk_reader := TimedOut\<rparr>)"
| restart: "lk_reader s = Got got \<or> lk_reader s = TimedOut \<Longrightarrow> lock_step s (s\<lparr>lk_reader := Looking\<rparr>)"

inductive_cases lock_stepE: "lock_step s s'"

definition lock_init :: "'c region_lock \<Rightarrow> bool" where
  "lock_init s \<longleftrightarrow> lk_seq s = 0 \<and> lk_bumps s = 0 \<and> \<not> lk_writing s \<and> lk_reader s = Looking"


section \<open>Invariant\<close>

lemmas lock_defs = seqlock_begin_write_def seqlock_end_write_def normalize_seq_header_def store_def
  first_load_def copy_cell_def second_load_def

text \<open>The number is the number of increments, it is odd exactly while a write is under way, and what a reader
  copied is what the region holds unless the number moved since its first load.\<close>

definition lock_inv :: "'c region_lock \<Rightarrow> bool" where
  "lock_inv s \<longleftrightarrow> lk_seq s = word_of_nat (lk_bumps s) \<and> lk_writing s = odd (lk_bumps s) \<and>
     (case lk_reader s of
        Copying s1 n got \<Rightarrow> s1 = word_of_nat n \<and> even n \<and> n \<le> lk_bumps s \<and>
          (lk_bumps s = n \<longrightarrow> (\<forall>i c. got i = Some c \<longrightarrow> i < length (lk_cells s) \<and> lk_cells s ! i = c))
      | _ \<Rightarrow> True)"

lemma odd_word_of_nat [simp]: "odd (word_of_nat n :: 64 word) \<longleftrightarrow> odd n"
  by (transfer fixing: n) (simp add: even_take_bit_eq)

lemma lock_inv_step:
  assumes "lock_inv s" "lock_step s s'"
  shows "lock_inv s'"
  using assms(2)
proof cases
  case begin_write
  with assms(1) show ?thesis by (auto simp: lock_inv_def lock_defs split: reader.splits)
next
  case (stores i c)
  with assms(1) show ?thesis by (auto simp: lock_inv_def lock_defs split: reader.splits)
next
  case end_write
  with assms(1) show ?thesis by (auto simp: lock_inv_def lock_defs split: reader.splits)
next
  case reopen
  with assms(1) show ?thesis by (auto simp: lock_inv_def lock_defs split: reader.splits)
next
  case (copies i)
  with assms(1) show ?thesis by (auto simp: lock_inv_def lock_defs split: reader.splits)
qed (use assms(1) in \<open>auto simp: lock_inv_def lock_defs split: reader.splits if_splits\<close>)

interpretation lock: step_invariant lock_init lock_step lock_inv
proof
  show "lock_inv s" if "lock_init s" for s :: "'a region_lock" using that by (simp add: lock_init_def lock_inv_def)
qed (rule lock_inv_step)

lemma word_of_nat_inj:
  assumes "(word_of_nat n :: 64 word) = word_of_nat m" "n \<le> m" "m - n < 2 ^ 64"
  shows "n = m"
proof -
  have "n mod 2 ^ 64 = m mod 2 ^ 64" using assms(1) by (simp add: word_of_nat_eq_iff take_bit_eq_mod)
  then have "2 ^ 64 dvd m - n" using mod_eq_dvd_iff_nat [OF assms(2), of "2 ^ 64"] by metis
  then show ?thesis using assms(2,3) by (metis dvd_imp_le not_le zero_less_diff le_antisym nat_less_le)
qed


section \<open>Properties\<close>


text \<open>A region of one cell: a write finishes, then a reader copies it.\<close>

definition demo_lock :: "nat region_lock" where
  "demo_lock = \<lparr> lk_seq = 0, lk_bumps = 0, lk_cells = [0], lk_writing = False, lk_reader = Looking \<rparr>"

definition demo_read :: "nat region_lock" where
  "demo_read = copy_cell 0 (first_load (seqlock_end_write (store 0 7 (seqlock_begin_write demo_lock))))"

lemma demo_read_reached: "reach lock_init lock_step demo_read"
proof -
  let ?s1 = "seqlock_begin_write demo_lock" let ?s2 = "store 0 7 ?s1" let ?s3 = "seqlock_end_write ?s2"
  note go = reach.move [where init = lock_init and step = lock_step]
  have "reach lock_init lock_step demo_lock" by (rule reach.start) (simp add: demo_lock_def lock_init_def)
  from go [OF this] have "reach lock_init lock_step ?s1" by (simp add: lock_step.begin_write demo_lock_def)
  from go [OF this] have "reach lock_init lock_step ?s2"
    using lock_step.stores [of ?s1 0 7] by (simp add: demo_lock_def seqlock_begin_write_def)
  from go [OF this] have "reach lock_init lock_step ?s3"
    using lock_step.end_write [of ?s2] by (simp add: lock_defs)
  from go [OF this] have "reach lock_init lock_step (first_load ?s3)"
    using lock_step.look [of ?s3] by (simp add: demo_lock_def seqlock_begin_write_def store_def seqlock_end_write_def)
  from go [OF this] show ?thesis
    unfolding demo_read_def using lock_step.copies [of 0 "first_load ?s3"] by (simp add: demo_lock_def lock_defs)
qed


end
