(* ===== verification/Ich_Table.thy ===== *)
theory Ich_Table
  imports Lsa_Region
begin

text \<open>
  The table of the identity region that finds the channel and the person behind an address
  (\<^verbatim>\<open>src/src/shm/mod.rs\<close>): a hash table with linear probing and tombstones over fixed-width entries,
  as a finite map from a channel type, an address and a tenant.
\<close>

unbundle bit_operations_syntax

section \<open>Entries and hashing\<close>

definition ICH_MAP_FLAG_OCCUPIED :: flags where "ICH_MAP_FLAG_OCCUPIED = 0x0001"
definition ICH_MAP_FLAG_TOMBSTONE :: flags where "ICH_MAP_FLAG_TOMBSTONE = 0x0002"
definition ICH_CHANNEL_TYPE_MAX_LEN :: nat where "ICH_CHANNEL_TYPE_MAX_LEN = 32"
definition ICH_ADDRESS_MAX_LEN :: nat where "ICH_ADDRESS_MAX_LEN = 256"

definition nul :: char where "nul = CHR 0x00"

record ich_mapping_entry =
  im_hash :: "64 word"
  im_channel_type :: bytes
  im_address :: bytes
  im_ich_id :: bytes
  im_ilk_id :: bytes
  im_tenant_id :: bytes
  im_flags :: flags

definition zero_id :: bytes where
  "zero_id = replicate 16 nul"

definition empty_ich_mapping_entry :: ich_mapping_entry where
  "empty_ich_mapping_entry =
     \<lparr> im_hash = 0, im_channel_type = replicate ICH_CHANNEL_TYPE_MAX_LEN nul,
       im_address = replicate ICH_ADDRESS_MAX_LEN nul, im_ich_id = zero_id, im_ilk_id = zero_id,
       im_tenant_id = zero_id, im_flags = 0 \<rparr>"

text \<open>\<^verbatim>\<open>copy_bytes_with_len\<close> over a zeroed field, and the two readers of such a field.\<close>

definition copied_into :: "bytes \<Rightarrow> str \<Rightarrow> bytes" where
  "copied_into field s = take (length field) s @ drop (length s) field"

definition fixed_used :: "bytes \<Rightarrow> bytes" where
  "fixed_used field = takeWhile (\<lambda>b. b \<noteq> nul) field"

definition fixed_str_matches :: "bytes \<Rightarrow> str \<Rightarrow> bool" where
  "fixed_str_matches field s = (fixed_used field = s)"

text \<open>FNV-1a, with its two delimiters.\<close>

definition FNV_OFFSET_BASIS :: "64 word" where "FNV_OFFSET_BASIS = 0xcbf29ce484222325"
definition FNV_PRIME :: "64 word" where "FNV_PRIME = 0x100000001b3"

definition fnv_byte :: "64 word \<Rightarrow> nat \<Rightarrow> 64 word" where
  "fnv_byte hash b = (hash XOR word_of_nat b) * FNV_PRIME"

definition fnv_bytes :: "64 word \<Rightarrow> bytes \<Rightarrow> 64 word" where
  "fnv_bytes hash bs = foldl (\<lambda>h b. fnv_byte h (of_char b)) hash bs"

definition compute_ich_hash :: "str \<Rightarrow> str \<Rightarrow> bytes \<Rightarrow> 64 word" where
  "compute_ich_hash channel_type address tenant_id =
     (let hash = fnv_bytes FNV_OFFSET_BASIS channel_type;
          hash = fnv_byte hash 0xff;
          hash = fnv_bytes hash address;
          hash = fnv_byte hash 0xfe
      in fnv_bytes hash tenant_id)"


section \<open>Operations\<close>

type_synonym ich_table = "ich_mapping_entry list"

definition write_ich_mapping_entry ::
  "64 word \<Rightarrow> str \<Rightarrow> str \<Rightarrow> bytes \<Rightarrow> bytes \<Rightarrow> bytes \<Rightarrow> ich_mapping_entry" where
  "write_ich_mapping_entry hash channel_type address ich_id ilk_id tenant_id =
     empty_ich_mapping_entry
       \<lparr> im_hash := hash,
         im_channel_type := copied_into (im_channel_type empty_ich_mapping_entry) channel_type,
         im_address := copied_into (im_address empty_ich_mapping_entry) address,
         im_ich_id := ich_id, im_ilk_id := ilk_id, im_tenant_id := tenant_id,
         im_flags := ICH_MAP_FLAG_OCCUPIED \<rparr>"

definition probes :: "nat \<Rightarrow> 64 word \<Rightarrow> nat list" where
  "probes table_len hash =
     (let start = unat hash mod table_len in map (\<lambda>probe. (start + probe) mod table_len) [0..<table_len])"

definition tombstone :: "ich_mapping_entry \<Rightarrow> bool" where
  "tombstone e = (im_flags e AND ICH_MAP_FLAG_TOMBSTONE \<noteq> 0)"

definition ich_matches :: "64 word \<Rightarrow> str \<Rightarrow> str \<Rightarrow> bytes \<Rightarrow> ich_mapping_entry \<Rightarrow> bool" where
  "ich_matches hash channel_type address tenant_id e =
     (im_flags e AND ICH_MAP_FLAG_OCCUPIED \<noteq> 0 \<and> im_hash e = hash \<and>
      fixed_str_matches (im_channel_type e) channel_type \<and> fixed_str_matches (im_address e) address \<and>
      im_tenant_id e = tenant_id)"

text \<open>The loop of \<^verbatim>\<open>upsert_ich_mapping_entry\<close>: the slot to write and whether it is a new one.\<close>

fun upsert_slot :: "(ich_mapping_entry \<Rightarrow> bool) \<Rightarrow> ich_table \<Rightarrow> nat option \<Rightarrow> nat list \<Rightarrow> (nat \<times> bool) option" where
  "upsert_slot matches mappings first_tombstone [] = map_option (\<lambda>target. (target, True)) first_tombstone"
| "upsert_slot matches mappings first_tombstone (idx # rest) =
     (let e = mappings ! idx
      in if im_flags e = 0 then Some (unwrap_or idx first_tombstone, True)
         else if tombstone e
         then upsert_slot matches mappings
                (if first_tombstone = None then Some idx else first_tombstone) rest
         else if matches e then Some (idx, False)
         else upsert_slot matches mappings first_tombstone rest)"

datatype shm_error = ShmIo | ShmNix | ShmJson | InvalidHeader | SeqLockTimeout | NameTooLong | ValueTooLong nat nat
  | SlotFull | Untrusted nat nat

definition upsert_ich_mapping_entry ::
  "ich_table \<Rightarrow> 64 word \<Rightarrow> str \<Rightarrow> str \<Rightarrow> bytes \<Rightarrow> bytes \<Rightarrow> bytes \<Rightarrow> shm_error + (bool \<times> ich_table)" where
  "upsert_ich_mapping_entry mappings hash channel_type address ich_id ilk_id tenant_id =
     (if mappings = [] then Inl SlotFull
      else case upsert_slot (ich_matches hash channel_type address tenant_id) mappings None
                  (probes (length mappings) hash) of
        None \<Rightarrow> Inl SlotFull
      | Some (target, inserted) \<Rightarrow>
          Inr (inserted, mappings[target :=
            write_ich_mapping_entry hash channel_type address ich_id ilk_id tenant_id]))"

text \<open>The loop that removal and lookup share.\<close>

fun find_slot :: "(ich_mapping_entry \<Rightarrow> bool) \<Rightarrow> ich_table \<Rightarrow> nat list \<Rightarrow> nat option" where
  "find_slot matches mappings [] = None"
| "find_slot matches mappings (idx # rest) =
     (let e = mappings ! idx
      in if im_flags e = 0 then None
         else if tombstone e then find_slot matches mappings rest
         else if matches e then Some idx
         else find_slot matches mappings rest)"

definition remove_ich_mapping_entry ::
  "ich_table \<Rightarrow> 64 word \<Rightarrow> str \<Rightarrow> str \<Rightarrow> bytes \<Rightarrow> bool \<times> ich_table" where
  "remove_ich_mapping_entry mappings hash channel_type address tenant_id =
     (if mappings = [] then (False, mappings)
      else case find_slot (ich_matches hash channel_type address tenant_id) mappings
                  (probes (length mappings) hash) of
        None \<Rightarrow> (False, mappings)
      | Some idx \<Rightarrow>
          (True, mappings[idx := empty_ich_mapping_entry
             \<lparr> im_hash := hash, im_flags := ICH_MAP_FLAG_TOMBSTONE \<rparr>]))"

definition resolve_ich_mapping_from_entries ::
  "ich_table \<Rightarrow> str \<Rightarrow> str \<Rightarrow> bytes \<Rightarrow> (bytes \<times> bytes) option" where
  "resolve_ich_mapping_from_entries mappings channel_type address tenant_id =
     (if mappings = [] then None
      else let hash = compute_ich_hash channel_type address tenant_id
           in map_option (\<lambda>idx. (im_ich_id (mappings ! idx), im_ilk_id (mappings ! idx)))
                (find_slot (ich_matches hash channel_type address tenant_id) mappings
                  (probes (length mappings) hash)))"

text \<open>The loop of \<^verbatim>\<open>clear_ich_mappings_for_ilk\<close>, with the number of entries it clears.\<close>

definition cleared_for :: "bytes \<Rightarrow> ich_mapping_entry \<Rightarrow> bool" where
  "cleared_for ilk_id e = (im_flags e AND ICH_MAP_FLAG_OCCUPIED \<noteq> 0 \<and> im_ilk_id e = ilk_id)"

definition clear_mappings_of :: "bytes \<Rightarrow> ich_table \<Rightarrow> nat \<times> ich_table" where
  "clear_mappings_of ilk_id mappings =
     (length (filter (cleared_for ilk_id) mappings),
      map (\<lambda>e. if cleared_for ilk_id e then empty_ich_mapping_entry else e) mappings)"


section \<open>The map behind the table\<close>

type_synonym ich_key = "str \<times> str \<times> bytes"

definition key_hash :: "ich_key \<Rightarrow> 64 word" where
  "key_hash = (\<lambda>(channel_type, address, tenant_id). compute_ich_hash channel_type address tenant_id)"

definition entry_key :: "ich_mapping_entry \<Rightarrow> ich_key" where
  "entry_key e = (fixed_used (im_channel_type e), fixed_used (im_address e), im_tenant_id e)"

definition occupied :: "ich_mapping_entry \<Rightarrow> bool" where
  "occupied e = (im_flags e = ICH_MAP_FLAG_OCCUPIED)"

definition entry_of_key :: "ich_table \<Rightarrow> ich_key \<Rightarrow> ich_mapping_entry option" where
  "entry_of_key t k = find (\<lambda>e. occupied e \<and> entry_key e = k) t"

definition ich_map :: "ich_table \<Rightarrow> ich_key \<rightharpoonup> bytes \<times> bytes" where
  "ich_map t = (\<lambda>k. map_option (\<lambda>e. (im_ich_id e, im_ilk_id e)) (entry_of_key t k))"

text \<open>A channel type and an address that fit their fields and hold no zero byte.\<close>

definition key_fits :: "ich_key \<Rightarrow> bool" where
  "key_fits = (\<lambda>(channel_type, address, _).
     length channel_type \<le> ICH_CHANNEL_TYPE_MAX_LEN \<and> length address \<le> ICH_ADDRESS_MAX_LEN \<and>
     nul \<notin> set channel_type \<and> nul \<notin> set address)"

text \<open>Every slot is free, occupied or a tombstone; no key is there twice; an occupied slot has the hash
  of its key, and no slot before it on its probe path is free.\<close>

definition table_ok :: "ich_table \<Rightarrow> bool" where
  "table_ok t \<longleftrightarrow>
     (\<forall>e \<in> set t. im_flags e \<in> {0, ICH_MAP_FLAG_OCCUPIED, ICH_MAP_FLAG_TOMBSTONE}) \<and>
     (\<forall>i < length t. occupied (t ! i) \<longrightarrow>
        im_hash (t ! i) = key_hash (entry_key (t ! i)) \<and>
        (\<forall>j \<in> set (takeWhile (\<lambda>j. j \<noteq> i) (probes (length t) (im_hash (t ! i)))). im_flags (t ! j) \<noteq> 0) \<and>
        (\<forall>j < length t. occupied (t ! j) \<and> entry_key (t ! j) = entry_key (t ! i) \<longrightarrow> j = i))"



section \<open>Probing\<close>

lemma set_probes [simp]:
  assumes "0 < n"
  shows "set (probes n h) = {..<n}"
proof -
  let ?start = "unat h mod n"
  have "i \<in> (\<lambda>p. (?start + p) mod n) ` {..<n}" if i: "i < n" for i
  proof
    have "?start < n" using assms by simp
    then have "(?start + (i + n - ?start) mod n) mod n = (?start + (i + n - ?start)) mod n"
      by (simp add: mod_add_right_eq)
    also have "?start + (i + n - ?start) = i + n" using \<open>?start < n\<close> by linarith
    finally have "(?start + (i + n - ?start) mod n) mod n = i" using i by simp
    then show "i = (?start + (i + n - ?start) mod n) mod n" by simp
  qed (use assms in simp)
  moreover have "(\<lambda>p. (?start + p) mod n) ` {..<n} \<subseteq> {..<n}" using assms by auto
  ultimately show ?thesis by (auto simp: probes_def Let_def atLeast0LessThan)
qed

lemma flag_facts [simp]:
  "ICH_MAP_FLAG_OCCUPIED \<noteq> 0" "ICH_MAP_FLAG_TOMBSTONE \<noteq> 0" "ICH_MAP_FLAG_OCCUPIED \<noteq> ICH_MAP_FLAG_TOMBSTONE"
  "ICH_MAP_FLAG_OCCUPIED AND ICH_MAP_FLAG_TOMBSTONE = 0" "ICH_MAP_FLAG_TOMBSTONE AND ICH_MAP_FLAG_OCCUPIED = 0"
  by (simp_all add: ICH_MAP_FLAG_OCCUPIED_def ICH_MAP_FLAG_TOMBSTONE_def)

lemma flag_cases:
  assumes "im_flags e \<in> {0, ICH_MAP_FLAG_OCCUPIED, ICH_MAP_FLAG_TOMBSTONE}"
  shows "tombstone e \<longleftrightarrow> im_flags e = ICH_MAP_FLAG_TOMBSTONE"
    "im_flags e AND ICH_MAP_FLAG_OCCUPIED \<noteq> 0 \<longleftrightarrow> occupied e"
  using assms by (auto simp: tombstone_def occupied_def)

lemma table_ok_slot:
  assumes "table_ok t" "i < length t"
  shows "im_flags (t ! i) \<in> {0, ICH_MAP_FLAG_OCCUPIED, ICH_MAP_FLAG_TOMBSTONE}"
    "occupied (t ! i) \<Longrightarrow> im_hash (t ! i) = key_hash (entry_key (t ! i))"
    "occupied (t ! i) \<Longrightarrow> \<forall>j \<in> set (takeWhile (\<lambda>j. j \<noteq> i) (probes (length t) (im_hash (t ! i)))). im_flags (t ! j) \<noteq> 0"
    "occupied (t ! i) \<Longrightarrow> j < length t \<Longrightarrow> occupied (t ! j) \<Longrightarrow> entry_key (t ! j) = entry_key (t ! i) \<Longrightarrow> j = i"
  using assms unfolding table_ok_def by (auto simp: all_set_conv_all_nth)

lemma occupied_flags [simp]: "occupied e \<Longrightarrow> im_flags e \<noteq> 0 \<and> \<not> tombstone e"
  by (simp add: occupied_def tombstone_def)

definition matches_key :: "ich_key \<Rightarrow> ich_mapping_entry \<Rightarrow> bool" where
  "matches_key = (\<lambda>(channel_type, address, tenant_id).
     ich_matches (compute_ich_hash channel_type address tenant_id) channel_type address tenant_id)"

lemma matches_iff:
  assumes "table_ok t" "i < length t"
  shows "matches_key k (t ! i) \<longleftrightarrow> occupied (t ! i) \<and> entry_key (t ! i) = k"
  using table_ok_slot(2) [OF assms] flag_cases(2) [OF table_ok_slot(1) [OF assms]]
  by (cases k) (auto simp: matches_key_def ich_matches_def fixed_str_matches_def entry_key_def key_hash_def)

lemma find_slot_found:
  "find_slot m t idxs = Some i \<Longrightarrow> i \<in> set idxs \<and> im_flags (t ! i) \<noteq> 0 \<and> \<not> tombstone (t ! i) \<and> m (t ! i)"
  by (induction idxs) (auto simp: Let_def split: if_splits)

lemma find_slot_reaches:
  assumes "i \<in> set idxs" "\<forall>j \<in> set (takeWhile (\<lambda>j. j \<noteq> i) idxs). im_flags (t ! j) \<noteq> 0"
    and "im_flags (t ! i) \<noteq> 0" "\<not> tombstone (t ! i)" "m (t ! i)"
  shows "find_slot m t idxs \<noteq> None"
  using assms by (induction idxs) (auto simp: Let_def split: if_splits)

lemma find_slot_key:
  assumes "table_ok t" "t \<noteq> []"
  shows "find_slot (matches_key k) t (probes (length t) (key_hash k)) = Some i \<longleftrightarrow>
    i < length t \<and> occupied (t ! i) \<and> entry_key (t ! i) = k"
proof
  assume "find_slot (matches_key k) t (probes (length t) (key_hash k)) = Some i"
  from find_slot_found [OF this] show "i < length t \<and> occupied (t ! i) \<and> entry_key (t ! i) = k"
    using assms matches_iff [OF assms(1), of i k] by auto
next
  assume i: "i < length t \<and> occupied (t ! i) \<and> entry_key (t ! i) = k"
  then have "find_slot (matches_key k) t (probes (length t) (key_hash k)) \<noteq> None"
    using assms table_ok_slot(2,3) [OF assms(1), of i] matches_iff [OF assms(1), of i k]
    by (intro find_slot_reaches [of i]) auto
  then obtain j where j: "find_slot (matches_key k) t (probes (length t) (key_hash k)) = Some j" by blast
  from find_slot_found [OF this] have "j < length t" "occupied (t ! j)" "entry_key (t ! j) = k"
    using assms matches_iff [OF assms(1), of j k] by auto
  then have "j = i" using i table_ok_slot(4) [OF assms(1), of i j] by auto
  with j show "find_slot (matches_key k) t (probes (length t) (key_hash k)) = Some i" by simp
qed

lemma ich_map_iff:
  assumes "table_ok t"
  shows "ich_map t k = Some v \<longleftrightarrow>
    (\<exists>i < length t. occupied (t ! i) \<and> entry_key (t ! i) = k \<and> v = (im_ich_id (t ! i), im_ilk_id (t ! i)))"
    (is "?l \<longleftrightarrow> ?r")
proof
  assume ?l
  then show ?r by (auto simp: ich_map_def entry_of_key_def find_Some_iff)
next
  assume ?r
  then obtain i where i: "i < length t" "occupied (t ! i)" "entry_key (t ! i) = k"
    "v = (im_ich_id (t ! i), im_ilk_id (t ! i))" by blast
  then have "entry_of_key t k \<noteq> None" by (auto simp: entry_of_key_def find_None_iff)
  then obtain e where e: "entry_of_key t k = Some e" by blast
  then obtain j where "j < length t" "t ! j = e" "occupied e" "entry_key e = k"
    by (auto simp: entry_of_key_def find_Some_iff)
  then have "j = i" using table_ok_slot(4) [OF assms i(1,2)] i(3) by auto
  with e i(4) \<open>t ! j = e\<close> show ?l by (simp add: ich_map_def)
qed

lemma ich_map_None:
  assumes "table_ok t"
  shows "ich_map t k = None \<longleftrightarrow> (\<forall>i < length t. occupied (t ! i) \<longrightarrow> entry_key (t ! i) \<noteq> k)"
  using ich_map_iff [OF assms, of k] by (metis not_Some_eq prod.exhaust)

lemma ich_map_eqI:
  assumes "table_ok t" "\<And>k v. m k = Some v \<longleftrightarrow>
    (\<exists>i < length t. occupied (t ! i) \<and> entry_key (t ! i) = k \<and> v = (im_ich_id (t ! i), im_ilk_id (t ! i)))"
  shows "ich_map t = m"
  using ich_map_iff [OF assms(1)] assms(2) by (intro ext) (metis option.exhaust)



section \<open>Operations on the map\<close>

lemma upsert_slot_spec:
  "case upsert_slot m t tomb idxs of
     None \<Rightarrow> tomb = None \<and> (\<forall>i \<in> set idxs. im_flags (t ! i) \<noteq> 0 \<and> \<not> tombstone (t ! i)) \<and> find_slot m t idxs = None
   | Some (i, inserted) \<Rightarrow>
       if inserted
       then find_slot m t idxs = None \<and>
         (tomb = Some i \<or>
          tomb = None \<and> i \<in> set idxs \<and> (im_flags (t ! i) = 0 \<or> tombstone (t ! i)) \<and>
          (\<forall>j \<in> set (takeWhile (\<lambda>j. j \<noteq> i) idxs). im_flags (t ! j) \<noteq> 0))
       else find_slot m t idxs = Some i"
proof (induction idxs arbitrary: tomb)
  case (Cons idx rest)
  consider (free) "im_flags (t ! idx) = 0" | (buried) "im_flags (t ! idx) \<noteq> 0" "tombstone (t ! idx)"
    | (found) "im_flags (t ! idx) \<noteq> 0" "\<not> tombstone (t ! idx)" "m (t ! idx)"
    | (other) "im_flags (t ! idx) \<noteq> 0" "\<not> tombstone (t ! idx)" "\<not> m (t ! idx)"
    by blast
  then show ?case
  proof cases
    case free
    then show ?thesis by (cases tomb) (auto simp: unwrap_or_def)
  next
    case buried
    then show ?thesis
      using Cons.IH [of tomb] Cons.IH [of "Some idx"] by (cases tomb) (auto split: option.splits if_splits)
  next
    case other
    then show ?thesis using Cons.IH [of tomb] by (auto split: option.splits if_splits)
  qed auto
qed (auto split: option.splits)

lemma takeWhile_other: "j \<in> set (takeWhile (\<lambda>j. j \<noteq> i) xs) \<Longrightarrow> j \<noteq> i"
  by (auto dest: set_takeWhileD)

text \<open>Writing an occupied entry in a slot whose key, if it is occupied, is the new one.\<close>

lemma table_ok_write:
  assumes ok: "table_ok t" and i: "i < length t"
    and e: "occupied e" "im_hash e = key_hash (entry_key e)"
    and path: "\<forall>j \<in> set (takeWhile (\<lambda>j. j \<noteq> i) (probes (length t) (im_hash e))). im_flags (t ! j) \<noteq> 0"
    and only: "\<And>j. j < length t \<Longrightarrow> j \<noteq> i \<Longrightarrow> occupied (t ! j) \<Longrightarrow> entry_key (t ! j) \<noteq> entry_key e"
  shows "table_ok (t[i := e])"
  unfolding table_ok_def
proof (intro conjI ballI allI impI)
  fix x assume "x \<in> set (t[i := e])"
  then have "x = e \<or> x \<in> set t" by (meson insertE set_update_subset_insert subsetD)
  then show "im_flags x \<in> {0, ICH_MAP_FLAG_OCCUPIED, ICH_MAP_FLAG_TOMBSTONE}"
    using ok e(1) unfolding table_ok_def occupied_def by auto
next
  fix x assume x: "x < length (t[i := e])" "occupied (t[i := e] ! x)"
  note slot = table_ok_slot [OF ok]
  show "im_hash (t[i := e] ! x) = key_hash (entry_key (t[i := e] ! x))"
    using x slot(2) e i by (cases "x = i") auto
  fix j
  show "im_flags (t[i := e] ! j) \<noteq> 0"
    if "j \<in> set (takeWhile (\<lambda>j. j \<noteq> x) (probes (length (t[i := e])) (im_hash (t[i := e] ! x))))"
  proof (cases "j = i")
    case True
    then show ?thesis using e(1) i by simp
  next
    case False
    with that x slot(3) [of x] path i show ?thesis by (cases "x = i") simp_all
  qed
  show "j = x" if "j < length (t[i := e])" "occupied (t[i := e] ! j) \<and> entry_key (t[i := e] ! j) = entry_key (t[i := e] ! x)"
  proof (cases "x = i")
    case True
    with that only [of j] i show ?thesis by (cases "j = i") simp_all
  next
    case False
    with that x only [of x] slot(4) [of x j] i show ?thesis by (cases "j = i") simp_all
  qed
qed

lemma ich_map_write:
  assumes "table_ok t" "table_ok (t[i := e])" "i < length t" "occupied e"
    and "occupied (t ! i) \<Longrightarrow> entry_key (t ! i) = entry_key e"
  shows "ich_map (t[i := e]) = (ich_map t)(entry_key e \<mapsto> (im_ich_id e, im_ilk_id e))"
proof (rule ich_map_eqI [OF assms(2)])
  fix k v
  show "((ich_map t)(entry_key e \<mapsto> (im_ich_id e, im_ilk_id e))) k = Some v \<longleftrightarrow>
      (\<exists>j < length (t[i := e]). occupied (t[i := e] ! j) \<and> entry_key (t[i := e] ! j) = k \<and>
         v = (im_ich_id (t[i := e] ! j), im_ilk_id (t[i := e] ! j)))"
  proof (cases "k = entry_key e")
    case True
    have "j = i" if "j < length t" "occupied (t[i := e] ! j)" "entry_key (t[i := e] ! j) = k" for j
      using table_ok_slot(4) [OF assms(2), of i j] that assms(3,4) True by simp
    with True assms(3,4) show ?thesis by (metis fun_upd_same length_list_update nth_list_update_eq option.inject)
  next
    case False
    have "(\<exists>j < length t. occupied (t ! j) \<and> entry_key (t ! j) = k \<and> v = (im_ich_id (t ! j), im_ilk_id (t ! j))) \<longleftrightarrow>
        (\<exists>j < length t. j \<noteq> i \<and> occupied (t ! j) \<and> entry_key (t ! j) = k \<and> v = (im_ich_id (t ! j), im_ilk_id (t ! j)))"
      using assms(5) False by blast
    also have "\<dots> \<longleftrightarrow> (\<exists>j < length (t[i := e]). occupied (t[i := e] ! j) \<and> entry_key (t[i := e] ! j) = k \<and>
         v = (im_ich_id (t[i := e] ! j), im_ilk_id (t[i := e] ! j)))"
      using False assms(3) by (metis length_list_update nth_list_update_eq nth_list_update_neq)
    finally show ?thesis using ich_map_iff [OF assms(1)] False by simp
  qed
qed

lemma table_ok_bury:
  assumes ok: "table_ok t" and i: "i < length t" and e: "im_flags e = ICH_MAP_FLAG_TOMBSTONE"
  shows "table_ok (t[i := e])"
  unfolding table_ok_def
proof (intro conjI ballI allI impI)
  fix x assume "x \<in> set (t[i := e])"
  then have "x = e \<or> x \<in> set t" by (meson insertE set_update_subset_insert subsetD)
  then show "im_flags x \<in> {0, ICH_MAP_FLAG_OCCUPIED, ICH_MAP_FLAG_TOMBSTONE}"
    using ok e unfolding table_ok_def by auto
next
  have buried: "\<not> occupied e" using e flag_facts(3) by (metis occupied_def)
  fix x assume x: "x < length (t[i := e])" "occupied (t[i := e] ! x)"
  then have xi: "x \<noteq> i" "x < length t" "occupied (t ! x)" using buried i by (auto simp: nth_list_update split: if_splits)
  note slot = table_ok_slot(2-4) [OF ok xi(2,3)]
  show "im_hash (t[i := e] ! x) = key_hash (entry_key (t[i := e] ! x))" using xi slot(1) by simp
  fix j
  show "im_flags (t[i := e] ! j) \<noteq> 0"
    if "j \<in> set (takeWhile (\<lambda>j. j \<noteq> x) (probes (length (t[i := e])) (im_hash (t[i := e] ! x))))"
    using that xi slot(2) e i by (cases "j = i") auto
  show "j = x" if "j < length (t[i := e])" "occupied (t[i := e] ! j) \<and> entry_key (t[i := e] ! j) = entry_key (t[i := e] ! x)"
    using that xi slot(3) [of j] buried i by (cases "j = i") auto
qed

lemma ich_map_bury:
  assumes "table_ok t" "i < length t" "im_flags e = ICH_MAP_FLAG_TOMBSTONE" "occupied (t ! i)"
  shows "ich_map (t[i := e]) = (ich_map t)(entry_key (t ! i) := None)"
proof (rule ich_map_eqI [OF table_ok_bury [OF assms(1-3)]])
  have buried: "\<not> occupied e" using assms(3) flag_facts(3) by (metis occupied_def)
  fix k v
  have "(\<exists>j < length (t[i := e]). occupied (t[i := e] ! j) \<and> entry_key (t[i := e] ! j) = k \<and>
         v = (im_ich_id (t[i := e] ! j), im_ilk_id (t[i := e] ! j))) \<longleftrightarrow>
      (\<exists>j < length t. j \<noteq> i \<and> occupied (t ! j) \<and> entry_key (t ! j) = k \<and> v = (im_ich_id (t ! j), im_ilk_id (t ! j)))"
    using buried assms(2) by (metis length_list_update nth_list_update_eq nth_list_update_neq)
  also have "\<dots> \<longleftrightarrow> k \<noteq> entry_key (t ! i) \<and>
      (\<exists>j < length t. occupied (t ! j) \<and> entry_key (t ! j) = k \<and> v = (im_ich_id (t ! j), im_ilk_id (t ! j)))"
    using table_ok_slot(4) [OF assms(1,2,4)] by blast
  finally show "((ich_map t)(entry_key (t ! i) := None)) k = Some v \<longleftrightarrow>
      (\<exists>j < length (t[i := e]). occupied (t[i := e] ! j) \<and> entry_key (t[i := e] ! j) = k \<and>
         v = (im_ich_id (t[i := e] ! j), im_ilk_id (t[i := e] ! j)))"
    using ich_map_iff [OF assms(1)] by simp
qed

lemma copied_used:
  assumes "length s \<le> n" "nul \<notin> set s"
  shows "fixed_used (copied_into (replicate n nul) s) = s"
proof -
  have "copied_into (replicate n nul) s = s @ replicate (n - length s) nul"
    using assms(1) by (simp add: copied_into_def)
  moreover have "takeWhile (\<lambda>b. b \<noteq> nul) (s @ replicate m nul) = s" for m
    using assms(2) by (induction s) (auto simp: takeWhile_replicate)
  ultimately show ?thesis by (simp add: fixed_used_def)
qed

lemma written_entry:
  assumes "key_fits (c, a, ten)"
  shows "entry_key (write_ich_mapping_entry h c a ich ilk ten) = (c, a, ten)"
    "occupied (write_ich_mapping_entry h c a ich ilk ten)"
  using assms by (simp_all add: entry_key_def write_ich_mapping_entry_def empty_ich_mapping_entry_def
      key_fits_def copied_used occupied_def)

text \<open>The slot an insertion chooses: no free slot is before it, it holds nothing or the key, and no other
  slot holds the key.\<close>

lemma upsert_target:
  assumes ok: "table_ok t" and "t \<noteq> []"
    and r: "upsert_slot (matches_key k) t None (probes (length t) (key_hash k)) = Some (i, inserted)"
  shows "i < length t"
    "\<forall>j \<in> set (takeWhile (\<lambda>j. j \<noteq> i) (probes (length t) (key_hash k))). im_flags (t ! j) \<noteq> 0"
    "occupied (t ! i) \<longrightarrow> entry_key (t ! i) = k"
    "inserted = (ich_map t k = None)"
    "\<forall>j < length t. j \<noteq> i \<longrightarrow> occupied (t ! j) \<longrightarrow> entry_key (t ! j) \<noteq> k"
proof -
  let ?ps = "probes (length t) (key_hash k)"
  note slot = upsert_slot_spec [where m = "matches_key k" and t = t and tomb = None and idxs = ?ps]
  note key = find_slot_key [OF assms(1,2), of k] and absent = ich_map_None [OF ok, of k]
  have "i < length t \<and> (\<forall>j \<in> set (takeWhile (\<lambda>j. j \<noteq> i) ?ps). im_flags (t ! j) \<noteq> 0) \<and>
      (occupied (t ! i) \<longrightarrow> entry_key (t ! i) = k) \<and> inserted = (ich_map t k = None) \<and>
      (\<forall>j < length t. j \<noteq> i \<longrightarrow> occupied (t ! j) \<longrightarrow> entry_key (t ! j) \<noteq> k)"
  proof (cases inserted)
    case True
    with r slot have f: "find_slot (matches_key k) t ?ps = None"
      and i: "i \<in> set ?ps" "im_flags (t ! i) = 0 \<or> tombstone (t ! i)"
        "\<forall>j \<in> set (takeWhile (\<lambda>j. j \<noteq> i) ?ps). im_flags (t ! j) \<noteq> 0"
      by auto
    from f key have "\<forall>j < length t. occupied (t ! j) \<longrightarrow> entry_key (t ! j) \<noteq> k" by auto
    then show ?thesis using i absent True assms(2) by (auto dest: occupied_flags)
  next
    case False
    with r slot key have i: "i < length t" "occupied (t ! i)" "entry_key (t ! i) = k" by auto
    then have "ich_map t k \<noteq> None" using absent by blast
    moreover have "\<forall>j < length t. j \<noteq> i \<longrightarrow> occupied (t ! j) \<longrightarrow> entry_key (t ! j) \<noteq> k"
      using table_ok_slot(4) [OF ok i(1,2)] i(3) by metis
    moreover have "\<forall>j \<in> set (takeWhile (\<lambda>j. j \<noteq> i) ?ps). im_flags (t ! j) \<noteq> 0"
      using table_ok_slot(2,3) [OF ok i(1,2)] i(2,3) by metis
    ultimately show ?thesis using i False by blast
  qed
  then show "i < length t" "\<forall>j \<in> set (takeWhile (\<lambda>j. j \<noteq> i) ?ps). im_flags (t ! j) \<noteq> 0"
    "occupied (t ! i) \<longrightarrow> entry_key (t ! i) = k" "inserted = (ich_map t k = None)"
    "\<forall>j < length t. j \<noteq> i \<longrightarrow> occupied (t ! j) \<longrightarrow> entry_key (t ! j) \<noteq> k"
    by blast+
qed

lemma no_upsert_target:
  assumes ok: "table_ok t" and "t \<noteq> []"
    and r: "upsert_slot (matches_key k) t None (probes (length t) (key_hash k)) = None"
  shows "ich_map t k = None" "\<forall>e \<in> set t. occupied e"
proof -
  note slot = upsert_slot_spec [where m = "matches_key k" and t = t and tomb = None
      and idxs = "probes (length t) (key_hash k)"]
  show "ich_map t k = None"
    using slot r find_slot_key [OF assms(1,2), of k] ich_map_None [OF ok, of k] by auto
  have "occupied (t ! i)" if "i < length t" for i
    using slot r that assms(2) table_ok_slot(1) [OF ok that] by (auto simp: occupied_def flag_cases(1) dest!: bspec [of _ _ i])
  then show "\<forall>e \<in> set t. occupied e" by (auto simp: in_set_conv_nth)
qed

lemma keyed:
  "compute_ich_hash c a ten = key_hash (c, a, ten)"
  "ich_matches (key_hash (c, a, ten)) c a ten = matches_key (c, a, ten)"
  by (simp_all add: key_hash_def matches_key_def)

lemma upsert_refines:
  assumes ok: "table_ok t" and fits: "key_fits (c, a, ten)"
  shows "case upsert_ich_mapping_entry t (compute_ich_hash c a ten) c a ich ilk ten of
      Inl err \<Rightarrow> err = SlotFull \<and> ich_map t (c, a, ten) = None \<and> (\<forall>e \<in> set t. occupied e)
    | Inr (inserted, t') \<Rightarrow> table_ok t' \<and> length t' = length t \<and> inserted = (ich_map t (c, a, ten) = None) \<and>
        ich_map t' = (ich_map t)((c, a, ten) \<mapsto> (ich, ilk))"
proof (cases "t = []")
  case True
  then show ?thesis by (simp add: upsert_ich_mapping_entry_def ich_map_def entry_of_key_def)
next
  case False
  let ?k = "(c, a, ten)" and ?h = "compute_ich_hash c a ten"
  let ?w = "write_ich_mapping_entry ?h c a ich ilk ten"
  note w = written_entry [OF fits, of ?h ich ilk]
  have hw: "im_hash ?w = key_hash ?k" and wsel: "im_ich_id ?w = ich" "im_ilk_id ?w = ilk"
    by (simp_all add: write_ich_mapping_entry_def keyed)
  show ?thesis
  proof (cases "upsert_slot (matches_key ?k) t None (probes (length t) (key_hash ?k))")
    case None
    from no_upsert_target [OF ok False this] None False show ?thesis
      by (simp add: upsert_ich_mapping_entry_def keyed)
  next
    case (Some r)
    then obtain i inserted where
      r: "upsert_slot (matches_key ?k) t None (probes (length t) (key_hash ?k)) = Some (i, inserted)"
      by (cases r) simp
    note target = upsert_target [OF ok False r]
    have ok': "table_ok (t[i := ?w])"
    proof (rule table_ok_write [OF ok target(1) w(2)])
      show "im_hash ?w = key_hash (entry_key ?w)" unfolding w(1) hw ..
      show "\<forall>j \<in> set (takeWhile (\<lambda>j. j \<noteq> i) (probes (length t) (im_hash ?w))). im_flags (t ! j) \<noteq> 0"
        unfolding hw by (rule target(2))
      show "entry_key (t ! j) \<noteq> entry_key ?w" if "j < length t" "j \<noteq> i" "occupied (t ! j)" for j
        unfolding w(1) using target(5) that by blast
    qed
    have "ich_map (t[i := ?w]) = (ich_map t)(?k \<mapsto> (ich, ilk))"
      using ich_map_write [OF ok ok' target(1) w(2)] target(3) w(1) wsel by simp
    with r False ok' target(4) show ?thesis by (simp add: upsert_ich_mapping_entry_def keyed)
  qed
qed

lemma remove_refines:
  assumes "table_ok t"
  shows "case remove_ich_mapping_entry t (compute_ich_hash c a ten) c a ten of
    (removed, t') \<Rightarrow> table_ok t' \<and> length t' = length t \<and> removed = (ich_map t (c, a, ten) \<noteq> None) \<and>
      ich_map t' = (ich_map t)((c, a, ten) := None)"
proof (cases "t = []")
  case True
  then show ?thesis using assms by (auto simp: remove_ich_mapping_entry_def ich_map_def entry_of_key_def)
next
  case False
  let ?k = "(c, a, ten)"
  note key = find_slot_key [OF assms False, of ?k] and absent = ich_map_None [OF assms, of ?k]
  show ?thesis
  proof (cases "find_slot (matches_key ?k) t (probes (length t) (key_hash ?k))")
    case None
    with key absent have "ich_map t ?k = None" by auto
    with None False assms show ?thesis by (simp add: remove_ich_mapping_entry_def keyed fun_upd_idem)
  next
    case (Some i)
    with key have i: "i < length t" "occupied (t ! i)" "entry_key (t ! i) = ?k" by auto
    let ?e = "empty_ich_mapping_entry \<lparr> im_hash := key_hash ?k, im_flags := ICH_MAP_FLAG_TOMBSTONE \<rparr>"
    have "ich_map t ?k \<noteq> None" using absent i by blast
    with Some False table_ok_bury [OF assms i(1), of ?e] ich_map_bury [OF assms i(1) _ i(2), of ?e] i(3)
    show ?thesis by (simp add: remove_ich_mapping_entry_def keyed)
  qed
qed

lemma resolve_refines:
  assumes "table_ok t"
  shows "resolve_ich_mapping_from_entries t c a ten = ich_map t (c, a, ten)"
proof (cases "t = []")
  case True
  then show ?thesis by (simp add: resolve_ich_mapping_from_entries_def ich_map_def entry_of_key_def)
next
  case False
  let ?k = "(c, a, ten)"
  note key = find_slot_key [OF assms False, of ?k]
  show ?thesis
  proof (cases "find_slot (matches_key ?k) t (probes (length t) (key_hash ?k))")
    case None
    with key ich_map_None [OF assms, of ?k] have "ich_map t ?k = None" by auto
    with None False show ?thesis by (simp add: resolve_ich_mapping_from_entries_def keyed)
  next
    case (Some i)
    with key have "ich_map t ?k = Some (im_ich_id (t ! i), im_ilk_id (t ! i))"
      using ich_map_iff [OF assms, of ?k] by auto
    with Some False show ?thesis by (simp add: resolve_ich_mapping_from_entries_def keyed)
  qed
qed

lemma empty_slot [simp]: "im_flags empty_ich_mapping_entry = 0" "\<not> occupied empty_ich_mapping_entry"
  by (simp_all add: empty_ich_mapping_entry_def occupied_def)

lemma empty_table:
  "table_ok (replicate n empty_ich_mapping_entry)"
  "ich_map (replicate n empty_ich_mapping_entry) = Map.empty"
proof -
  show ok: "table_ok (replicate n empty_ich_mapping_entry)" by (simp add: table_ok_def)
  show "ich_map (replicate n empty_ich_mapping_entry) = Map.empty"
    using ich_map_None [OF ok] by (intro ext) simp
qed


section \<open>A map of bounded size\<close>

text \<open>The interface: a table that holds a finite map, whose insertion may be refused for want of room.\<close>

datatype ('k, 'v) map_op = Put 'k 'v | Del 'k

primrec op_key :: "('k, 'v) map_op \<Rightarrow> 'k" where
  "op_key (Put k v) = k"
| "op_key (Del k) = k"

primrec op_effect :: "('k, 'v) map_op \<Rightarrow> ('k \<rightharpoonup> 'v) \<Rightarrow> 'k \<rightharpoonup> 'v" where
  "op_effect (Put k v) m = m(k \<mapsto> v)"
| "op_effect (Del k) m = m(k := None)"

text \<open>The operations that were carried out, and the table after them; a refused insertion leaves the table.\<close>

fun run_ops ::
  "('t \<Rightarrow> 'k \<Rightarrow> 'v \<Rightarrow> 't option) \<Rightarrow> ('t \<Rightarrow> 'k \<Rightarrow> 't) \<Rightarrow> ('k, 'v) map_op list \<Rightarrow> 't \<Rightarrow> ('k, 'v) map_op list \<times> 't" where
  "run_ops put del [] t = ([], t)"
| "run_ops put del (Del k # ops) t = apfst (Cons (Del k)) (run_ops put del ops (del t k))"
| "run_ops put del (Put k v # ops) t =
     (case put t k v of
        Some t' \<Rightarrow> apfst (Cons (Put k v)) (run_ops put del ops t')
      | None \<Rightarrow> run_ops put del ops t)"

locale bounded_map =
  fixes inv :: "'t \<Rightarrow> bool" and abs :: "'t \<Rightarrow> 'k \<rightharpoonup> 'v" and fits :: "'k \<Rightarrow> bool" and room :: "'t \<Rightarrow> nat"
    and put :: "'t \<Rightarrow> 'k \<Rightarrow> 'v \<Rightarrow> 't option" and del :: "'t \<Rightarrow> 'k \<Rightarrow> 't" and get :: "'t \<Rightarrow> 'k \<Rightarrow> 'v option"
  assumes put_Some: "inv t \<Longrightarrow> fits k \<Longrightarrow> put t k v = Some t' \<Longrightarrow>
      inv t' \<and> room t' = room t \<and> abs t' = (abs t)(k \<mapsto> v)"
    and put_None: "inv t \<Longrightarrow> fits k \<Longrightarrow> put t k v = None \<Longrightarrow> k \<notin> dom (abs t) \<and> room t \<le> card (dom (abs t))"
    and del: "inv t \<Longrightarrow> inv (del t k) \<and> room (del t k) = room t \<and> abs (del t k) = (abs t)(k := None)"
    and get: "inv t \<Longrightarrow> get t k = abs t k"
    and finite: "inv t \<Longrightarrow> finite (dom (abs t))"
begin

lemma run_sound:
  assumes "inv t" "\<forall>op \<in> set ops. fits (op_key op)"
  shows "inv (snd (run_ops put del ops t)) \<and>
    get (snd (run_ops put del ops t)) k = fold op_effect (fst (run_ops put del ops t)) (abs t) k"
  using assms
proof (induction ops arbitrary: t)
  case (Cons op ops)
  have fits: "\<forall>op \<in> set ops. fits (op_key op)" using Cons.prems(2) by simp
  show ?case
  proof (cases op)
    case (Put k' v)
    show ?thesis
    proof (cases "put t k' v")
      case None
      then show ?thesis using Put Cons.IH [OF Cons.prems(1) fits] by simp
    next
      case (Some t1)
      from put_Some [OF Cons.prems(1) _ this] Cons.prems(2) Put
      have "inv t1" "abs t1 = (abs t)(k' \<mapsto> v)" by simp_all
      then show ?thesis using Put Some Cons.IH [OF _ fits, of t1] by (simp del: fun_upd_apply)
    qed
  next
    case (Del k')
    then show ?thesis using Cons.IH [OF _ fits, of "del t k'"] del [OF Cons.prems(1), of k'] by (simp del: fun_upd_apply)
  qed
qed (simp add: get)

lemma run_complete:
  assumes "inv t" "\<forall>op \<in> set ops. fits (op_key op)" "card (dom (abs t) \<union> op_key ` set ops) \<le> room t"
  shows "fst (run_ops put del ops t) = ops"
  using assms
proof (induction ops arbitrary: t)
  case (Cons op ops)
  let ?keys = "dom (abs t) \<union> op_key ` set (op # ops)"
  have fin: "finite ?keys" using finite Cons.prems(1) by simp
  have smaller: "card (dom m \<union> op_key ` set ops) \<le> room t" if "dom m \<subseteq> insert (op_key op) (dom (abs t))" for m :: "'k \<rightharpoonup> 'v"
  proof -
    have "dom m \<union> op_key ` set ops \<subseteq> ?keys" using that by auto
    from card_mono [OF fin this] Cons.prems(3) show ?thesis by linarith
  qed
  show ?case
  proof (cases op)
    case (Put k v)
    have "put t k v \<noteq> None"
    proof
      assume "put t k v = None"
      with put_None Cons.prems(1,2) Put have "k \<notin> dom (abs t)" "room t \<le> card (dom (abs t))" by auto
      then have "dom (abs t) \<subset> ?keys" using Put by auto
      from psubset_card_mono [OF fin this] \<open>room t \<le> card (dom (abs t))\<close> Cons.prems(3) show False by simp
    qed
    then obtain t1 where t1: "put t k v = Some t1" by blast
    with put_Some Cons.prems(1,2) Put have "inv t1" "room t1 = room t" "dom (abs t1) = insert k (dom (abs t))" by auto
    then show ?thesis using Cons.IH [of t1] Cons.prems(2) smaller [of "abs t1"] Put t1 by simp
  next
    case (Del k)
    from del [OF Cons.prems(1), of k]
    have "inv (del t k)" "room (del t k) = room t" "dom (abs (del t k)) = dom (abs t) - {k}" by simp_all
    moreover from this have "card (dom (abs (del t k)) \<union> op_key ` set ops) \<le> room (del t k)"
      using smaller [of "abs (del t k)"] by auto
    ultimately show ?thesis using Cons.IH [of "del t k"] Cons.prems(2) Del by simp
  qed
qed simp

end

text \<open>The channel table provides it.\<close>

definition put_channel :: "ich_table \<Rightarrow> ich_key \<Rightarrow> bytes \<times> bytes \<Rightarrow> ich_table option" where
  "put_channel t = (\<lambda>(c, a, ten) (ich, ilk).
     case upsert_ich_mapping_entry t (compute_ich_hash c a ten) c a ich ilk ten of
       Inl _ \<Rightarrow> None
     | Inr (_, t') \<Rightarrow> Some t')"

definition del_channel :: "ich_table \<Rightarrow> ich_key \<Rightarrow> ich_table" where
  "del_channel t = (\<lambda>(c, a, ten). snd (remove_ich_mapping_entry t (compute_ich_hash c a ten) c a ten))"

definition get_channel :: "ich_table \<Rightarrow> ich_key \<Rightarrow> (bytes \<times> bytes) option" where
  "get_channel t = (\<lambda>(c, a, ten). resolve_ich_mapping_from_entries t c a ten)"

lemma dom_ich_map:
  assumes "table_ok t"
  shows "dom (ich_map t) = (\<lambda>i. entry_key (t ! i)) ` {i. i < length t \<and> occupied (t ! i)}"
proof -
  have "k \<in> dom (ich_map t) \<longleftrightarrow> (\<exists>i < length t. occupied (t ! i) \<and> entry_key (t ! i) = k)" for k
    using ich_map_None [OF assms, of k] by (simp add: domIff)
  then show ?thesis by (intro set_eqI) (simp only: image_iff, blast)
qed

lemma card_full:
  assumes "table_ok t" "\<forall>e \<in> set t. occupied e"
  shows "card (dom (ich_map t)) = length t"
proof -
  have "{i. i < length t \<and> occupied (t ! i)} = {..<length t}" using assms(2) by auto
  moreover have "inj_on (\<lambda>i. entry_key (t ! i)) {..<length t}"
    using table_ok_slot(4) [OF assms(1)] assms(2) by (intro inj_onI) (metis lessThan_iff nth_mem)
  ultimately show ?thesis by (simp add: dom_ich_map [OF assms(1)] card_image)
qed

interpretation channels: bounded_map table_ok ich_map key_fits length put_channel del_channel get_channel
proof
  fix t and k :: ich_key and v :: "bytes \<times> bytes"
  assume t: "table_ok t"
  obtain c a ten where k: "k = (c, a, ten)" by (cases k)
  obtain ich ilk where v: "v = (ich, ilk)" by (cases v)
  show "finite (dom (ich_map t))" by (simp add: dom_ich_map [OF t])
  show "get_channel t k = ich_map t k" by (simp add: k get_channel_def resolve_refines [OF t])
  show "table_ok (del_channel t k) \<and> length (del_channel t k) = length t \<and>
      ich_map (del_channel t k) = (ich_map t)(k := None)"
    using remove_refines [OF t, of c a ten] by (auto simp: k del_channel_def split: prod.splits)
  assume "key_fits k"
  note ins = upsert_refines [OF t, of c a ten ich ilk, folded k, OF this]
  show "table_ok t' \<and> length t' = length t \<and> ich_map t' = (ich_map t)(k \<mapsto> v)" if "put_channel t k v = Some t'" for t'
    using ins that by (auto simp: k v put_channel_def split: sum.splits prod.splits)
  show "k \<notin> dom (ich_map t) \<and> length t \<le> card (dom (ich_map t))" if "put_channel t k v = None"
    using ins that card_full [OF t] by (auto simp: k v put_channel_def split: sum.splits prod.splits)
qed


section \<open>Clearing the channels of a person\<close>

lemma find_slot_stops:
  assumes "i \<in> set (takeWhile (\<lambda>x. x \<noteq> j) idxs)" "im_flags (t ! i) = 0"
    and "\<forall>x \<in> set (takeWhile (\<lambda>x. x \<noteq> j) idxs). \<not> m (t ! x)"
  shows "find_slot m t idxs = None"
  using assms by (induction idxs) (auto simp: Let_def split: if_splits)

text \<open>A slot of the cleared table.\<close>

lemma cleared_slot:
  assumes "table_ok t" "i < length t" "t' = snd (clear_mappings_of ilk t)"
  shows "im_flags (t' ! i) = (if occupied (t ! i) \<and> im_ilk_id (t ! i) = ilk then 0 else im_flags (t ! i))"
    "matches_key k (t' ! i) \<longleftrightarrow> occupied (t ! i) \<and> entry_key (t ! i) = k \<and> im_ilk_id (t ! i) \<noteq> ilk"
    "\<not> (occupied (t ! i) \<and> im_ilk_id (t ! i) = ilk) \<Longrightarrow> t' ! i = t ! i"
proof -
  have c: "cleared_for ilk (t ! i) \<longleftrightarrow> occupied (t ! i) \<and> im_ilk_id (t ! i) = ilk"
    using flag_cases(2) [OF table_ok_slot(1) [OF assms(1,2)]] by (simp add: cleared_for_def)
  have slot: "t' ! i = (if cleared_for ilk (t ! i) then empty_ich_mapping_entry else t ! i)"
    using assms(2,3) by (simp add: clear_mappings_of_def)
  show "im_flags (t' ! i) = (if occupied (t ! i) \<and> im_ilk_id (t ! i) = ilk then 0 else im_flags (t ! i))"
    "\<not> (occupied (t ! i) \<and> im_ilk_id (t ! i) = ilk) \<Longrightarrow> t' ! i = t ! i"
    unfolding slot c by auto
  have "\<not> matches_key k empty_ich_mapping_entry"
    by (cases k) (simp add: matches_key_def ich_matches_def)
  then show "matches_key k (t' ! i) \<longleftrightarrow> occupied (t ! i) \<and> entry_key (t ! i) = k \<and> im_ilk_id (t ! i) \<noteq> ilk"
    using slot c matches_iff [OF assms(1,2), of k] by (cases "cleared_for ilk (t ! i)") auto
qed

text \<open>The channel in slot \<^term>\<open>j\<close> is cut off when a cleared slot is before it on its probe path.\<close>

definition cut_off :: "bytes \<Rightarrow> ich_table \<Rightarrow> nat \<Rightarrow> bool" where
  "cut_off ilk t j \<longleftrightarrow>
     (\<exists>i \<in> set (takeWhile (\<lambda>i. i \<noteq> j) (probes (length t) (im_hash (t ! j)))).
        occupied (t ! i) \<and> im_ilk_id (t ! i) = ilk)"

lemma find_slot_cleared:
  assumes ok: "table_ok t" and j: "j < length t" "occupied (t ! j)" "im_ilk_id (t ! j) \<noteq> ilk"
    and t': "t' = snd (clear_mappings_of ilk t)"
  shows "find_slot (matches_key (entry_key (t ! j))) t' (probes (length t) (im_hash (t ! j))) =
    (if cut_off ilk t j then None else Some j)"
proof -
  let ?k = "entry_key (t ! j)" and ?ps = "probes (length t) (im_hash (t ! j))"
  note slot = cleared_slot [OF ok _ t']
  have inside: "i < length t" if "i \<in> set ?ps" for i using that j(1) by (cases "length t") auto
  have only: "i = j" if "i < length t" "matches_key ?k (t' ! i)" for i
    using slot(2) [OF that(1), of ?k] that table_ok_slot(4) [OF ok j(1,2), of i] by blast
  have path: "i \<in> set ?ps \<and> i \<noteq> j" if "i \<in> set (takeWhile (\<lambda>i. i \<noteq> j) ?ps)" for i
    using that by (auto dest: set_takeWhileD)
  show ?thesis
  proof (cases "cut_off ilk t j")
    case True
    then obtain i where i: "i \<in> set (takeWhile (\<lambda>i. i \<noteq> j) ?ps)" "occupied (t ! i)" "im_ilk_id (t ! i) = ilk"
      by (auto simp: cut_off_def)
    have "im_flags (t' ! i) = 0" using slot(1) [of i] inside path [OF i(1)] i(2,3) by simp
    moreover have "\<forall>x \<in> set (takeWhile (\<lambda>x. x \<noteq> j) ?ps). \<not> matches_key ?k (t' ! x)"
      using only inside path by blast
    ultimately show ?thesis using find_slot_stops [OF i(1)] True by simp
  next
    case False
    have "im_flags (t' ! i) \<noteq> 0" if "i \<in> set (takeWhile (\<lambda>i. i \<noteq> j) ?ps)" for i
    proof -
      have "i < length t" using path [OF that] inside by blast
      moreover have "\<not> (occupied (t ! i) \<and> im_ilk_id (t ! i) = ilk)" using False that unfolding cut_off_def by blast
      ultimately show ?thesis using slot(3) [of i] table_ok_slot(3) [OF ok j(1,2)] that by simp
    qed
    moreover have "t' ! j = t ! j" using slot(3) [OF j(1)] j(3) by blast
    moreover have "matches_key ?k (t' ! j)" using slot(2) [OF j(1), of ?k] j by simp
    moreover have "j \<in> set ?ps" using j(1) by (cases "length t") auto
    ultimately have "find_slot (matches_key ?k) t' ?ps \<noteq> None"
      using j(2) by (intro find_slot_reaches [of j]) auto
    then obtain i where "find_slot (matches_key ?k) t' ?ps = Some i" by blast
    with find_slot_found [OF this] only inside False show ?thesis by auto
  qed
qed


section \<open>Properties\<close>

text \<open>C10: whatever channels are registered and removed, in any order, the table then resolves an address
  exactly as the map of the operations it carried out; and it carries them all out, refusing none with
  SlotFull, when the channels they name are at most its slots.\<close>

theorem channel_table_is_map:
  assumes "\<forall>op \<in> set ops. key_fits (op_key op)"
    and "run_ops put_channel del_channel ops (replicate slots empty_ich_mapping_entry) = (carried, t)"
  shows "resolve_ich_mapping_from_entries t c a ten = fold op_effect carried Map.empty (c, a, ten) \<and>
    (card (op_key ` set ops) \<le> slots \<longrightarrow> carried = ops)"
proof -
  note empty = empty_table [of slots]
  show ?thesis
    using channels.run_sound [OF empty(1) assms(1), of "(c, a, ten)"]
      channels.run_complete [OF empty(1) assms(1)] assms(2) empty(2)
    by (simp add: get_channel_def)
qed

theorem channel_table_is_map_witness:
  "resolve_ich_mapping_from_entries
     (snd (run_ops put_channel del_channel
        [Put (''mail'', ''a'', zero_id) (''c1'', ''p1''), Put (''mail'', ''b'', zero_id) (''c2'', ''p2''),
         Del (''mail'', ''a'', zero_id)] (replicate 2 empty_ich_mapping_entry)))
     ''mail'' ''b'' zero_id = Some (''c2'', ''p2'')"
  using channel_table_is_map [where slots = 2 and c = "''mail''" and a = "''b''" and ten = zero_id,
      OF _ surjective_pairing, of "[Put (''mail'', ''a'', zero_id) (''c1'', ''p1''),
        Put (''mail'', ''b'', zero_id) (''c2'', ''p2''), Del (''mail'', ''a'', zero_id)]"]
  by (simp add: key_fits_def ICH_CHANNEL_TYPE_MAX_LEN_def ICH_ADDRESS_MAX_LEN_def nul_def card_insert_if
      del: run_ops.simps)

text \<open>C38: clearing the channels of one person loses the channels of others.  A channel of another person
  that the table resolves is resolved afterwards exactly when no slot before its own on its probe path held a
  channel of the cleared person: the cleared slots become free, not tombstones, and a probe stops there.\<close>

theorem clear_cuts_off_others:
  assumes "table_ok t" "j < length t" "occupied (t ! j)" "im_ilk_id (t ! j) \<noteq> ilk"
    and "entry_key (t ! j) = (c, a, ten)"
  shows "resolve_ich_mapping_from_entries t c a ten = Some (im_ich_id (t ! j), im_ilk_id (t ! j)) \<and>
    resolve_ich_mapping_from_entries (snd (clear_mappings_of ilk t)) c a ten =
      (if cut_off ilk t j then None else Some (im_ich_id (t ! j), im_ilk_id (t ! j)))"
proof
  show "resolve_ich_mapping_from_entries t c a ten = Some (im_ich_id (t ! j), im_ilk_id (t ! j))"
    using resolve_refines [OF assms(1)] ich_map_iff [OF assms(1), of "(c, a, ten)"] assms(2,3,5) by auto
  let ?t' = "snd (clear_mappings_of ilk t)"
  have len: "length ?t' = length t" "?t' \<noteq> []" using assms(2) by (auto simp: clear_mappings_of_def)
  have hash: "im_hash (t ! j) = key_hash (c, a, ten)" using table_ok_slot(2) [OF assms(1-3)] assms(5) by simp
  have "?t' ! j = t ! j" using cleared_slot(3) [OF assms(1,2) refl] assms(4) by blast
  with find_slot_cleared [OF assms(1-4) refl] len hash
  show "resolve_ich_mapping_from_entries ?t' c a ten =
      (if cut_off ilk t j then None else Some (im_ich_id (t ! j), im_ilk_id (t ! j)))"
    by (simp add: resolve_ich_mapping_from_entries_def keyed assms(5))
qed

text \<open>Two channels on one probe path: the first is the cleared person's.\<close>

definition demo_channels :: ich_table where
  "demo_channels =
     [write_ich_mapping_entry (compute_ich_hash ''a'' ''z'' zero_id) ''a'' ''z'' ''c2'' ''p2'' zero_id,
      write_ich_mapping_entry (compute_ich_hash ''a'' ''x'' zero_id) ''a'' ''x'' ''c1'' ''p1'' zero_id]"

lemma zero_bytes: "zero_id = [nul, nul, nul, nul, nul, nul, nul, nul, nul, nul, nul, nul, nul, nul, nul, nul]"
  by (simp add: zero_id_def eval_nat_numeral)

lemma demo_hashes:
  "compute_ich_hash ''a'' ''z'' zero_id = 13730237530076736309"
  "compute_ich_hash ''a'' ''x'' zero_id = 4868372663515176455"
  by (simp_all add: compute_ich_hash_def zero_bytes fnv_bytes_def fnv_byte_def FNV_PRIME_def
      FNV_OFFSET_BASIS_def nul_def of_char_def Let_def)

lemma demo_slots:
  "entry_key (demo_channels ! 0) = (''a'', ''z'', zero_id)" "entry_key (demo_channels ! Suc 0) = (''a'', ''x'', zero_id)"
  "occupied (demo_channels ! 0)" "occupied (demo_channels ! Suc 0)"
  "im_hash (demo_channels ! 0) = 13730237530076736309" "im_hash (demo_channels ! Suc 0) = 4868372663515176455"
  "im_ilk_id (demo_channels ! 0) = ''p2''" "im_ilk_id (demo_channels ! Suc 0) = ''p1''"
  "im_ich_id (demo_channels ! 0) = ''c2''" "length demo_channels = 2"
proof -
  have fit: "key_fits (''a'', ''z'', zero_id)" "key_fits (''a'', ''x'', zero_id)"
    by (simp_all add: key_fits_def ICH_CHANNEL_TYPE_MAX_LEN_def ICH_ADDRESS_MAX_LEN_def nul_def)
  show "entry_key (demo_channels ! 0) = (''a'', ''z'', zero_id)" "entry_key (demo_channels ! Suc 0) = (''a'', ''x'', zero_id)"
    "occupied (demo_channels ! 0)" "occupied (demo_channels ! Suc 0)"
    using written_entry [OF fit(1)] written_entry [OF fit(2)] by (simp_all add: demo_channels_def)
qed (simp_all add: demo_channels_def write_ich_mapping_entry_def demo_hashes)

lemma demo_probes:
  "probes 2 13730237530076736309 = [1, 0]" "probes 2 4868372663515176455 = [1, 0]"
  by (simp_all add: probes_def upt_rec)

lemma demo_channels_ok: "table_ok demo_channels"
proof -
  have "i < length demo_channels \<longleftrightarrow> i = 0 \<or> i = Suc 0" for i using demo_slots(10) by auto
  moreover have "set demo_channels = {demo_channels ! 0, demo_channels ! Suc 0}" by (simp add: demo_channels_def)
  ultimately show ?thesis
    unfolding table_ok_def
    using demo_slots(3,4) by (auto simp: demo_slots demo_probes key_hash_def demo_hashes occupied_def)
qed

theorem clear_cuts_off_others_witness:
  "resolve_ich_mapping_from_entries demo_channels ''a'' ''z'' zero_id = Some (''c2'', ''p2'') \<and>
   resolve_ich_mapping_from_entries (snd (clear_mappings_of ''p1'' demo_channels)) ''a'' ''z'' zero_id = None"
proof -
  have "cut_off ''p1'' demo_channels 0" by (simp add: cut_off_def demo_slots demo_probes)
  then show ?thesis
    using clear_cuts_off_others [OF demo_channels_ok _ demo_slots(3) _ demo_slots(1), of "''p1''"]
    by (simp add: demo_slots)
qed

end
