(* ===== verification/Identity_Region.thy ===== *)
theory Identity_Region
  imports Ich_Table "HOL-Library.Multiset"
begin

text \<open>
  The identity region that SY.identity writes and every node reads (\<^verbatim>\<open>IdentityRegionWriter\<close> of
  \<^verbatim>\<open>src/src/shm/mod.rs\<close>): compact tables of tenants, of people and their channels, of aliases and
  of the vocabulary, each with its count in the header, beside the channel table.  Every operation is a
  function from the region to its result and the region it leaves; what is under the write guard of an
  operation is one step.
\<close>

section \<open>Entries\<close>

record tenant_entry =
  te_tenant_id :: bytes
  te_name :: bytes
  te_domain :: bytes
  te_status :: nat
  te_flags :: flags
  te_max_ilks :: nat
  te_sponsor_tenant_id :: bytes
  te_created_at :: nat
  te_updated_at :: nat

record ilk_entry =
  il_ilk_id :: bytes
  il_ilk_type :: nat
  il_registration_status :: nat
  il_flags :: flags
  il_tenant_id :: bytes
  il_display_name :: bytes
  il_handler_node :: bytes
  il_ich_offset :: nat
  il_ich_count :: nat
  il_role_hash :: bytes
  il_skill_hashes :: "bytes list"
  il_skill_count :: nat
  il_handbook_count :: nat
  il_handbook_hashes :: "bytes list"
  il_created_at :: nat
  il_updated_at :: nat
  il_personality_hash :: bytes

record ich_entry =
  ic_ich_id :: bytes
  ic_ilk_id :: bytes
  ic_tenant_id :: bytes
  ic_channel_type :: bytes
  ic_address :: bytes
  ic_flags :: flags
  ic_owner_l2_name :: bytes
  ic_is_primary :: nat
  ic_enabled :: nat
  ic_added_at :: nat

record ilk_alias_entry =
  ia_old_ilk_id :: bytes
  ia_canonical_ilk_id :: bytes
  ia_expires_at :: nat
  ia_flags :: flags

record vocabulary_entry =
  vo_tag :: bytes
  vo_tag_len :: nat
  vo_category :: nat
  vo_flags :: nat
  vo_description :: bytes
  vo_description_len :: nat
  vo_created_at :: nat
  vo_deprecated_at :: nat

definition IDENTITY_DEFINITION_MAX_SKILLS :: nat where "IDENTITY_DEFINITION_MAX_SKILLS = 16"
definition IDENTITY_DEFINITION_MAX_HANDBOOKS :: nat where "IDENTITY_DEFINITION_MAX_HANDBOOKS = 8"

definition zeros :: "nat \<Rightarrow> bytes" where
  "zeros n = replicate n nul"

definition empty_tenant_entry :: tenant_entry where
  "empty_tenant_entry =
     \<lparr> te_tenant_id = zero_id, te_name = zeros 128, te_domain = zeros 128, te_status = 0, te_flags = 0,
       te_max_ilks = 0, te_sponsor_tenant_id = zero_id, te_created_at = 0, te_updated_at = 0 \<rparr>"

definition empty_ilk_entry :: ilk_entry where
  "empty_ilk_entry =
     \<lparr> il_ilk_id = zero_id, il_ilk_type = 0, il_registration_status = 0, il_flags = 0, il_tenant_id = zero_id,
       il_display_name = zeros 128, il_handler_node = zeros 128, il_ich_offset = 0, il_ich_count = 0,
       il_role_hash = zeros 32, il_skill_hashes = replicate IDENTITY_DEFINITION_MAX_SKILLS (zeros 32),
       il_skill_count = 0, il_handbook_count = 0,
       il_handbook_hashes = replicate IDENTITY_DEFINITION_MAX_HANDBOOKS (zeros 32),
       il_created_at = 0, il_updated_at = 0, il_personality_hash = zeros 32 \<rparr>"

definition empty_ich_entry :: ich_entry where
  "empty_ich_entry =
     \<lparr> ic_ich_id = zero_id, ic_ilk_id = zero_id, ic_tenant_id = zero_id,
       ic_channel_type = zeros ICH_CHANNEL_TYPE_MAX_LEN, ic_address = zeros ICH_ADDRESS_MAX_LEN, ic_flags = 0,
       ic_owner_l2_name = zeros 128, ic_is_primary = 0, ic_enabled = 0, ic_added_at = 0 \<rparr>"

definition empty_ilk_alias_entry :: ilk_alias_entry where
  "empty_ilk_alias_entry =
     \<lparr> ia_old_ilk_id = zero_id, ia_canonical_ilk_id = zero_id, ia_expires_at = 0, ia_flags = 0 \<rparr>"

definition empty_vocabulary_entry :: vocabulary_entry where
  "empty_vocabulary_entry =
     \<lparr> vo_tag = zeros 64, vo_tag_len = 0, vo_category = 0, vo_flags = 0, vo_description = zeros 128,
       vo_description_len = 0, vo_created_at = 0, vo_deprecated_at = 0 \<rparr>"


section \<open>The region\<close>

record identity_limits =
  max_ilks :: nat
  max_tenants :: nat
  max_vocabulary :: nat
  max_ilk_aliases :: nat

definition max_ichs :: "identity_limits \<Rightarrow> nat" where
  "max_ichs l = saturating_mul 32 (max_ilks l) 4"

definition max_ich_mappings :: "identity_limits \<Rightarrow> nat" where
  "max_ich_mappings l = saturating_mul 32 (max_ichs l) 2"

text \<open>The header's counts and times, and the sections the layout cuts the mapping into.\<close>

record identity_region =
  ir_limits :: identity_limits
  ir_tenant_count :: nat
  ir_ilk_count :: nat
  ir_ich_count :: nat
  ir_ich_mapping_count :: nat
  ir_vocabulary_count :: nat
  ir_ilk_alias_count :: nat
  ir_updated_at :: nat
  ir_heartbeat :: nat
  ir_tenants :: "tenant_entry list"
  ir_ilks :: "ilk_entry list"
  ir_ichs :: "ich_entry list"
  ir_mappings :: ich_table
  ir_aliases :: "ilk_alias_entry list"
  ir_vocabulary :: "vocabulary_entry list"

text \<open>A region as \<^verbatim>\<open>initialize_identity_header\<close> leaves it, over zeroed memory.\<close>

definition initialize_identity_header :: "identity_limits \<Rightarrow> nat \<Rightarrow> identity_region" where
  "initialize_identity_header limits now =
     \<lparr> ir_limits = limits,
       ir_tenant_count = 0, ir_ilk_count = 0, ir_ich_count = 0, ir_ich_mapping_count = 0,
       ir_vocabulary_count = 0, ir_ilk_alias_count = 0, ir_updated_at = now, ir_heartbeat = now,
       ir_tenants = replicate (max_tenants limits) empty_tenant_entry,
       ir_ilks = replicate (max_ilks limits) empty_ilk_entry,
       ir_ichs = replicate (max_ichs limits) empty_ich_entry,
       ir_mappings = replicate (max_ich_mappings limits) empty_ich_mapping_entry,
       ir_aliases = replicate (max_ilk_aliases limits) empty_ilk_alias_entry,
       ir_vocabulary = replicate (max_vocabulary limits) empty_vocabulary_entry \<rparr>"

type_synonym 'a shm_op = "identity_region \<Rightarrow> (shm_error + 'a) \<times> identity_region"

text \<open>The two stamps that end every change.\<close>

definition stamped :: "nat \<Rightarrow> identity_region \<Rightarrow> identity_region" where
  "stamped now r = r\<lparr>ir_updated_at := now, ir_heartbeat := now\<rparr>"


section \<open>Operations\<close>

definition position :: "('a \<Rightarrow> bool) \<Rightarrow> 'a list \<Rightarrow> nat option" where
  "position p xs = find (\<lambda>i. p (xs ! i)) [0..<length xs]"

definition update_heartbeat :: "nat \<Rightarrow> identity_region \<Rightarrow> identity_region" where
  "update_heartbeat now r = r\<lparr>ir_heartbeat := now\<rparr>"

definition identity_clear :: "nat \<Rightarrow> unit shm_op" where
  "identity_clear now r =
     (Inr (), stamped now (r
        \<lparr> ir_tenants := map (\<lambda>_. empty_tenant_entry) (ir_tenants r),
          ir_ilks := map (\<lambda>_. empty_ilk_entry) (ir_ilks r),
          ir_ichs := map (\<lambda>_. empty_ich_entry) (ir_ichs r),
          ir_mappings := map (\<lambda>_. empty_ich_mapping_entry) (ir_mappings r),
          ir_aliases := map (\<lambda>_. empty_ilk_alias_entry) (ir_aliases r),
          ir_vocabulary := map (\<lambda>_. empty_vocabulary_entry) (ir_vocabulary r),
          ir_tenant_count := 0, ir_ilk_count := 0, ir_ich_count := 0, ir_ich_mapping_count := 0,
          ir_vocabulary_count := 0, ir_ilk_alias_count := 0 \<rparr>))"

text \<open>A section overwritten: emptied, then the new entries from its start.\<close>

definition filled :: "'a \<Rightarrow> 'a list \<Rightarrow> 'a list \<Rightarrow> 'a list" where
  "filled blank section src = src @ drop (length src) (map (\<lambda>_. blank) section)"

definition write_snapshot_entries ::
  "nat \<Rightarrow> tenant_entry list \<Rightarrow> ilk_entry list \<Rightarrow> ich_entry list \<Rightarrow> ilk_alias_entry list \<Rightarrow>
   vocabulary_entry list \<Rightarrow> unit shm_op" where
  "write_snapshot_entries now tenants_src ilks_src ichs_src aliases_src vocabulary_src r =
     (let l = ir_limits r
      in if length tenants_src > max_tenants l
         then (Inl (ValueTooLong (length tenants_src) (max_tenants l)), r)
         else if length ilks_src > max_ilks l then (Inl (ValueTooLong (length ilks_src) (max_ilks l)), r)
         else if length ichs_src > max_ichs l then (Inl (ValueTooLong (length ichs_src) (max_ichs l)), r)
         else if length aliases_src > max_ilk_aliases l
         then (Inl (ValueTooLong (length aliases_src) (max_ilk_aliases l)), r)
         else if length vocabulary_src > max_vocabulary l
         then (Inl (ValueTooLong (length vocabulary_src) (max_vocabulary l)), r)
         else (Inr (), stamped now (r
           \<lparr> ir_tenants := filled empty_tenant_entry (ir_tenants r) tenants_src,
             ir_ilks := filled empty_ilk_entry (ir_ilks r) ilks_src,
             ir_ichs := filled empty_ich_entry (ir_ichs r) ichs_src,
             ir_mappings := map (\<lambda>_. empty_ich_mapping_entry) (ir_mappings r),
             ir_aliases := filled empty_ilk_alias_entry (ir_aliases r) aliases_src,
             ir_vocabulary := filled empty_vocabulary_entry (ir_vocabulary r) vocabulary_src,
             ir_tenant_count := length tenants_src, ir_ilk_count := length ilks_src,
             ir_ich_count := length ichs_src, ir_ich_mapping_count := 0,
             ir_ilk_alias_count := length aliases_src, ir_vocabulary_count := length vocabulary_src \<rparr>)))"

definition upsert_ich_mapping :: "nat \<Rightarrow> str \<Rightarrow> str \<Rightarrow> bytes \<Rightarrow> bytes \<Rightarrow> bytes \<Rightarrow> unit shm_op" where
  "upsert_ich_mapping now channel_type address ich_id ilk_id tenant_id r =
     (if length channel_type > ICH_CHANNEL_TYPE_MAX_LEN
      then (Inl (ValueTooLong (length channel_type) ICH_CHANNEL_TYPE_MAX_LEN), r)
      else if length address > ICH_ADDRESS_MAX_LEN
      then (Inl (ValueTooLong (length address) ICH_ADDRESS_MAX_LEN), r)
      else case upsert_ich_mapping_entry (ir_mappings r) (compute_ich_hash channel_type address tenant_id)
                  channel_type address ich_id ilk_id tenant_id of
        Inl err \<Rightarrow> (Inl err, r)
      | Inr (inserted, mappings) \<Rightarrow>
          (Inr (), stamped now (r
             \<lparr> ir_mappings := mappings,
               ir_ich_mapping_count :=
                 (if inserted then saturating_add 32 (ir_ich_mapping_count r) 1 else ir_ich_mapping_count r) \<rparr>)))"

definition active_tenant :: "bytes \<Rightarrow> tenant_entry \<Rightarrow> bool" where
  "active_tenant tenant_id e = (te_flags e AND FLAG_ACTIVE \<noteq> 0 \<and> te_tenant_id e = tenant_id)"

definition active_ilk :: "bytes \<Rightarrow> ilk_entry \<Rightarrow> bool" where
  "active_ilk ilk_id e = (il_flags e AND FLAG_ACTIVE \<noteq> 0 \<and> il_ilk_id e = ilk_id)"

definition active_alias :: "bytes \<Rightarrow> ilk_alias_entry \<Rightarrow> bool" where
  "active_alias old_ilk_id e = (ia_flags e AND FLAG_ACTIVE \<noteq> 0 \<and> ia_old_ilk_id e = old_ilk_id)"

definition find_tenant_entry_index :: "tenant_entry list \<Rightarrow> bytes \<Rightarrow> nat option" where
  "find_tenant_entry_index entries tenant_id = position (active_tenant tenant_id) entries"

definition find_ilk_entry_index :: "ilk_entry list \<Rightarrow> bytes \<Rightarrow> nat option" where
  "find_ilk_entry_index entries ilk_id = position (active_ilk ilk_id) entries"

definition find_alias_entry_index :: "ilk_alias_entry list \<Rightarrow> bytes \<Rightarrow> nat option" where
  "find_alias_entry_index entries old_ilk_id = position (active_alias old_ilk_id) entries"

definition upsert_tenant_entry :: "nat \<Rightarrow> tenant_entry \<Rightarrow> unit shm_op" where
  "upsert_tenant_entry now entry r =
     (let used = ir_tenant_count r; cap = max_tenants (ir_limits r); tenants = ir_tenants r
      in if used > cap then (Inl InvalidHeader, r)
         else case find_tenant_entry_index (take used tenants) (te_tenant_id entry) of
           Some idx \<Rightarrow>
             (Inr (), stamped now (r\<lparr>ir_tenants :=
                tenants[idx := entry\<lparr>te_created_at := te_created_at (tenants ! idx)\<rparr>]\<rparr>))
         | None \<Rightarrow>
             if used < cap
             then (Inr (), stamped now (r
                \<lparr> ir_tenants := tenants[used := entry], ir_tenant_count := saturating_add 32 used 1 \<rparr>))
             else (Inl SlotFull, r))"

definition upsert_ilk_entry :: "nat \<Rightarrow> ilk_entry \<Rightarrow> unit shm_op" where
  "upsert_ilk_entry now entry r =
     (let used = ir_ilk_count r; cap = max_ilks (ir_limits r); ilks = ir_ilks r
      in if used > cap then (Inl InvalidHeader, r)
         else case find_ilk_entry_index (take used ilks) (il_ilk_id entry) of
           Some idx \<Rightarrow>
             (Inr (), stamped now (r\<lparr>ir_ilks :=
                ilks[idx := entry\<lparr>il_created_at := il_created_at (ilks ! idx)\<rparr>]\<rparr>))
         | None \<Rightarrow>
             if used < cap
             then (Inr (), stamped now (r
                \<lparr> ir_ilks := ilks[used := entry], ir_ilk_count := saturating_add 32 used 1 \<rparr>))
             else (Inl SlotFull, r))"

text \<open>Removal from a compact table: the last entry takes the place of the removed one.\<close>

definition swap_removed :: "'a \<Rightarrow> nat \<Rightarrow> nat \<Rightarrow> 'a list \<Rightarrow> 'a list" where
  "swap_removed blank used idx entries =
     (let last = used - 1;
          entries = (if idx \<noteq> last then entries[idx := entries ! last] else entries)
      in entries[last := blank])"

definition remove_compact_ilk_entry :: "bytes \<Rightarrow> identity_region \<Rightarrow> bool \<times> identity_region" where
  "remove_compact_ilk_entry ilk_id r =
     (let used = ir_ilk_count r
      in case find_ilk_entry_index (take used (ir_ilks r)) ilk_id of
           None \<Rightarrow> (False, r)
         | Some idx \<Rightarrow>
             (True, r\<lparr> ir_ilks := swap_removed empty_ilk_entry used idx (ir_ilks r), ir_ilk_count := used - 1 \<rparr>))"

definition remove_compact_alias_entry :: "bytes \<Rightarrow> identity_region \<Rightarrow> bool \<times> identity_region" where
  "remove_compact_alias_entry old_ilk_id r =
     (let used = ir_ilk_alias_count r
      in case find_alias_entry_index (take used (ir_aliases r)) old_ilk_id of
           None \<Rightarrow> (False, r)
         | Some idx \<Rightarrow>
             (True, r\<lparr> ir_aliases := swap_removed empty_ilk_alias_entry used idx (ir_aliases r),
                       ir_ilk_alias_count := used - 1 \<rparr>))"

definition remove_ilk_entry :: "nat \<Rightarrow> bytes \<Rightarrow> bool shm_op" where
  "remove_ilk_entry now ilk_id r =
     (if ir_ilk_count r > max_ilks (ir_limits r) then (Inl InvalidHeader, r)
      else let (removed, r') = remove_compact_ilk_entry ilk_id r
           in (Inr removed, if removed then stamped now r' else r'))"

definition upsert_ilk_alias_entry :: "nat \<Rightarrow> ilk_alias_entry \<Rightarrow> unit shm_op" where
  "upsert_ilk_alias_entry now entry r =
     (let used = ir_ilk_alias_count r; cap = max_ilk_aliases (ir_limits r); aliases = ir_aliases r
      in if used > cap then (Inl InvalidHeader, r)
         else case find_alias_entry_index (take used aliases) (ia_old_ilk_id entry) of
           Some idx \<Rightarrow> (Inr (), stamped now (r\<lparr>ir_aliases := aliases[idx := entry]\<rparr>))
         | None \<Rightarrow>
             if used < cap
             then (Inr (), stamped now (r
                \<lparr> ir_aliases := aliases[used := entry], ir_ilk_alias_count := saturating_add 32 used 1 \<rparr>))
             else (Inl SlotFull, r))"

definition remove_ilk_alias_entry :: "nat \<Rightarrow> bytes \<Rightarrow> bool shm_op" where
  "remove_ilk_alias_entry now old_ilk_id r =
     (if ir_ilk_alias_count r > max_ilk_aliases (ir_limits r) then (Inl InvalidHeader, r)
      else let (removed, r') = remove_compact_alias_entry old_ilk_id r
           in (Inr removed, if removed then stamped now r' else r'))"


subsection \<open>The channels of a person\<close>

definition active_ich :: "ich_entry \<Rightarrow> bool" where
  "active_ich e = (ic_flags e AND FLAG_ACTIVE \<noteq> 0)"

text \<open>The loop that drops a person's channels; the number of entries left is its first result.\<close>

function drop_channels :: "bytes \<Rightarrow> nat \<Rightarrow> nat \<Rightarrow> ich_entry list \<Rightarrow> nat \<times> ich_entry list" where
  "drop_channels ilk_id idx used ichs =
     (if idx < used then
        if active_ich (ichs ! idx) \<and> ic_ilk_id (ichs ! idx) = ilk_id
        then drop_channels ilk_id idx (used - 1) (swap_removed empty_ich_entry used idx ichs)
        else drop_channels ilk_id (idx + 1) used ichs
      else (used, ichs))"
  by pat_completeness auto
termination by (relation "measure (\<lambda>(_, idx, used, _). used - idx)") auto

declare drop_channels.simps [simp del]

definition ich_layout_of :: "ich_entry list \<Rightarrow> bytes \<rightharpoonup> nat \<times> nat" where
  "ich_layout_of ichs =
     fold (\<lambda>(idx, e) per_ilk.
        if active_ich e
        then per_ilk(ic_ilk_id e \<mapsto>
          (case per_ilk (ic_ilk_id e) of
             Some (offset, n) \<Rightarrow> (offset, saturating_add 16 n 1)
           | None \<Rightarrow> (idx, 1)))
        else per_ilk) (enumerate 0 ichs) Map.empty"

definition reindex_ilk_channel_layout :: "ilk_entry list \<Rightarrow> ich_entry list \<Rightarrow> ilk_entry list" where
  "reindex_ilk_channel_layout ilks ichs =
     (let per_ilk = ich_layout_of ichs
      in map (\<lambda>ilk. if il_flags ilk AND FLAG_ACTIVE = 0 then ilk
                     else let (offset, n) = unwrap_or (0, 0) (per_ilk (il_ilk_id ilk))
                          in ilk\<lparr>il_ich_offset := offset, il_ich_count := n\<rparr>) ilks)"

definition replace_ich_entries_for_ilk :: "nat \<Rightarrow> bytes \<Rightarrow> ich_entry list \<Rightarrow> unit shm_op" where
  "replace_ich_entries_for_ilk now ilk_id entries r =
     (let cap = max_ichs (ir_limits r)
      in if ir_ich_count r > cap then (Inl InvalidHeader, r)
         else let (used, ichs) = drop_channels ilk_id 0 (ir_ich_count r) (ir_ichs r)
              in if used + length entries > cap then (Inl SlotFull, r\<lparr>ir_ichs := ichs\<rparr>)
                 else let ichs = take used ichs @ entries @ drop (used + length entries) ichs;
                          used = used + length entries
                      in (Inr (), stamped now (r
                            \<lparr> ir_ichs := ichs, ir_ich_count := used,
                              ir_ilks := reindex_ilk_channel_layout (take (ir_ilk_count r) (ir_ilks r)) (take used ichs)
                                @ drop (ir_ilk_count r) (ir_ilks r) \<rparr>)))"

definition clear_ich_mappings_for_ilk :: "nat \<Rightarrow> bytes \<Rightarrow> nat shm_op" where
  "clear_ich_mappings_for_ilk now ilk_id r =
     (let (removed, mappings) = clear_mappings_of ilk_id (ir_mappings r);
          removed = min u32_max removed;
          r' = r\<lparr>ir_mappings := mappings\<rparr>
      in (Inr removed,
          if removed > 0
          then stamped now (r'\<lparr>ir_ich_mapping_count := ir_ich_mapping_count r - removed\<rparr>)
          else r'))"

definition remove_ich_mapping :: "nat \<Rightarrow> str \<Rightarrow> str \<Rightarrow> bytes \<Rightarrow> bool shm_op" where
  "remove_ich_mapping now channel_type address tenant_id r =
     (let (removed, mappings) = remove_ich_mapping_entry (ir_mappings r)
            (compute_ich_hash channel_type address tenant_id) channel_type address tenant_id;
          r' = r\<lparr>ir_mappings := mappings\<rparr>
      in (Inr removed,
          if removed then stamped now (r'\<lparr>ir_ich_mapping_count := ir_ich_mapping_count r - 1\<rparr>) else r'))"

text \<open>\<^verbatim>\<open>String::from_utf8_lossy\<close>: each maximal prefix of a sequence that breaks off becomes one
  U+FFFD.  A leading byte, with the bytes that may follow it; how many of them do, and whether all are there.\<close>

definition utf8_first_ok :: "nat \<Rightarrow> nat \<Rightarrow> bool" where
  "utf8_first_ok a b \<longleftrightarrow> cont b \<and> (a = 0xE0 \<longrightarrow> 0xA0 \<le> b) \<and> (a = 0xED \<longrightarrow> b \<le> 0x9F) \<and>
     (a = 0xF0 \<longrightarrow> 0x90 \<le> b) \<and> (a = 0xF4 \<longrightarrow> b \<le> 0x8F)"

definition utf8_width :: "nat \<Rightarrow> nat" where
  "utf8_width a =
     (if 0xC2 \<le> a \<and> a \<le> 0xDF then 1 else if 0xE0 \<le> a \<and> a \<le> 0xEF then 2
      else if 0xF0 \<le> a \<and> a \<le> 0xF4 then 3 else 0)"

definition utf8_follows :: "nat \<Rightarrow> nat list \<Rightarrow> nat" where
  "utf8_follows a bs =
     (case take (utf8_width a) bs of
        [] \<Rightarrow> 0
      | b # r \<Rightarrow> if utf8_first_ok a b then Suc (length (takeWhile cont r)) else 0)"

function lossy_nats :: "nat list \<Rightarrow> nat list" where
  "lossy_nats [] = []"
| "lossy_nats (a # bs) =
     (if a \<le> 0x7F then a # lossy_nats bs
      else let n = utf8_follows a bs
           in (if 0 < n \<and> n = utf8_width a then a # take n bs else [0xEF, 0xBF, 0xBD]) @ lossy_nats (drop n bs))"
  by pat_completeness auto
termination by (relation "measure length") auto

definition from_utf8_lossy :: "bytes \<Rightarrow> str" where
  "from_utf8_lossy s = map char_of (lossy_nats (map of_char s))"

definition fixed_str :: "bytes \<Rightarrow> str" where
  "fixed_str field = trim (from_utf8_lossy (fixed_used field))"

fun map_channels :: "ich_entry list \<Rightarrow> ich_table \<Rightarrow> nat \<Rightarrow> (shm_error + unit) \<times> ich_table \<times> nat" where
  "map_channels [] mappings counted = (Inr (), mappings, counted)"
| "map_channels (entry # rest) mappings counted =
     (let channel_type = fixed_str (ic_channel_type entry); address = fixed_str (ic_address entry)
      in if channel_type = [] \<or> address = [] then map_channels rest mappings counted
         else case upsert_ich_mapping_entry mappings
                     (compute_ich_hash channel_type address (ic_tenant_id entry)) channel_type address
                     (ic_ich_id entry) (ic_ilk_id entry) (ic_tenant_id entry) of
           Inl err \<Rightarrow> (Inl err, mappings, counted)
         | Inr (inserted, mappings') \<Rightarrow>
             map_channels rest mappings' (if inserted then saturating_add 32 counted 1 else counted))"

definition provision_temporary_ilk :: "nat \<Rightarrow> ilk_entry \<Rightarrow> ich_entry list \<Rightarrow> unit shm_op" where
  "provision_temporary_ilk now ilk ich_entries r =
     (let used_ilks = ir_ilk_count r; used_ichs = ir_ich_count r;
          cap_ilks = max_ilks (ir_limits r); cap_ichs = max_ichs (ir_limits r)
      in if used_ilks > cap_ilks \<or> used_ichs > cap_ichs then (Inl InvalidHeader, r)
         else if used_ilks \<ge> cap_ilks \<or> used_ichs + length ich_entries > cap_ichs then (Inl SlotFull, r)
         else if find_ilk_entry_index (take used_ilks (ir_ilks r)) (il_ilk_id ilk) \<noteq> None
         then (Inl InvalidHeader, r)
         else let ichs = take used_ichs (ir_ichs r) @ ich_entries
                           @ drop (used_ichs + length ich_entries) (ir_ichs r);
                  ilk = ilk\<lparr> il_ich_offset := used_ichs, il_ich_count := min (length ich_entries) u16_max \<rparr>;
                  (mapping_result, mappings, counted) =
                    map_channels ich_entries (ir_mappings r) (ir_ich_mapping_count r)
              in (mapping_result, stamped now (r
                    \<lparr> ir_ichs := ichs, ir_ich_count := saturating_add 32 used_ichs (length ich_entries),
                      ir_ilks := (ir_ilks r)[used_ilks := ilk], ir_ilk_count := saturating_add 32 used_ilks 1,
                      ir_mappings := mappings, ir_ich_mapping_count := counted \<rparr>)))"


section \<open>Reading\<close>

text \<open>What a reader copies between its two loads of the sequence number.\<close>

record identity_snapshot =
  sn_tenants :: "tenant_entry list"
  sn_ilks :: "ilk_entry list"
  sn_ichs :: "ich_entry list"
  sn_ich_mappings :: ich_table
  sn_ilk_aliases :: "ilk_alias_entry list"
  sn_vocabulary :: "vocabulary_entry list"

definition read_identity_snapshot :: "identity_region \<Rightarrow> shm_error + identity_snapshot" where
  "read_identity_snapshot r =
     (let l = ir_limits r
      in if ir_tenant_count r > max_tenants l \<or> ir_ilk_count r > max_ilks l \<or> ir_ich_count r > max_ichs l
           \<or> ir_ich_mapping_count r > max_ich_mappings l \<or> ir_vocabulary_count r > max_vocabulary l
           \<or> ir_ilk_alias_count r > max_ilk_aliases l
         then Inl InvalidHeader
         else Inr \<lparr> sn_tenants = take (ir_tenant_count r) (ir_tenants r), sn_ilks = take (ir_ilk_count r) (ir_ilks r),
                     sn_ichs = take (ir_ich_count r) (ir_ichs r),
                     sn_ich_mappings = take (ir_ich_mapping_count r) (ir_mappings r),
                     sn_ilk_aliases = take (ir_ilk_alias_count r) (ir_aliases r),
                     sn_vocabulary = take (ir_vocabulary_count r) (ir_vocabulary r) \<rparr>)"

definition resolve_ich_mapping :: "identity_region \<Rightarrow> str \<Rightarrow> str \<Rightarrow> bytes \<Rightarrow> (bytes \<times> bytes) option" where
  "resolve_ich_mapping r channel_type address tenant_id =
     resolve_ich_mapping_from_entries (ir_mappings r) channel_type address tenant_id"

text \<open>The readers of the SDK, over the same memory: the status of a tenant, and whether a person is there.\<close>

definition read_tenant_status :: "identity_region \<Rightarrow> bytes \<Rightarrow> nat option" where
  "read_tenant_status r tenant_id =
     map_option te_status
       (find (active_tenant tenant_id) (take (min (ir_tenant_count r) (max_tenants (ir_limits r))) (ir_tenants r)))"

definition read_ilk_exists :: "identity_region \<Rightarrow> bytes \<Rightarrow> bool" where
  "read_ilk_exists r ilk_id =
     list_ex (active_ilk ilk_id) (take (min (ir_ilk_count r) (max_ilks (ir_limits r))) (ir_ilks r))"


section \<open>Compact tables\<close>

text \<open>A section of \<^term>\<open>cap\<close> slots whose first \<^term>\<open>used\<close> are in use.\<close>

definition compact :: "'e \<Rightarrow> nat \<Rightarrow> nat \<Rightarrow> 'e list \<Rightarrow> bool" where
  "compact blank cap used xs \<longleftrightarrow> length xs = cap \<and> used \<le> cap \<and> drop used xs = replicate (cap - used) blank"

lemma position_Some: "position p xs = Some i \<Longrightarrow> i < length xs \<and> p (xs ! i)"
  by (auto simp: position_def find_Some_iff)

lemma position_None: "position p xs = None \<longleftrightarrow> (\<forall>x \<in> set xs. \<not> p x)"
  by (auto simp: position_def find_None_iff all_set_conv_all_nth)

lemma compact_used: "compact blank cap used xs \<Longrightarrow> length xs = cap \<and> used \<le> cap \<and> min cap used = used"
  by (simp add: compact_def)

lemma compact_blank [simp]: "compact blank cap 0 (replicate cap blank)"
  by (simp add: compact_def)

lemma compact_map_blank [simp]: "compact blank cap used xs \<Longrightarrow> compact blank cap 0 (map (\<lambda>_. blank) xs)"
  by (simp add: compact_def map_replicate_const)

lemma compact_update: "compact blank cap used xs \<Longrightarrow> idx < used \<Longrightarrow> compact blank cap used (xs[idx := e])"
  by (simp add: compact_def drop_update_cancel)

lemma compact_append:
  "compact blank cap used xs \<Longrightarrow> used + length es \<le> cap \<Longrightarrow>
   compact blank cap (used + length es) (take used xs @ es @ drop (used + length es) xs)"
  using drop_drop [of "length es" used xs] by (auto simp: compact_def add.commute)

lemma compact_push:
  assumes "compact blank cap used xs" "used < cap"
  shows "compact blank cap (Suc used) (xs[used := e])" "take (Suc used) (xs[used := e]) = take used xs @ [e]"
proof -
  have xs: "xs[used := e] = take used xs @ [e] @ drop (Suc used) xs"
    using assms by (simp add: compact_def upd_conv_take_nth_drop)
  then show "compact blank cap (Suc used) (xs[used := e])"
    using compact_append [OF assms(1), of "[e]"] assms(2) by simp
  show "take (Suc used) (xs[used := e]) = take used xs @ [e]"
    unfolding xs using assms by (simp add: compact_def)
qed

lemma compact_filled: "compact blank cap used xs \<Longrightarrow> length src \<le> cap \<Longrightarrow> compact blank cap (length src) (filled blank xs src)"
  by (simp add: compact_def filled_def map_replicate_const)

text \<open>Removal by swapping keeps the table compact and removes exactly the entry.\<close>

lemma swap_removed:
  assumes "compact blank cap used xs" "idx < used"
  shows "compact blank cap (used - 1) (swap_removed blank used idx xs)"
    "mset (take (used - 1) (swap_removed blank used idx xs)) = mset (take used xs) - {#xs ! idx#}"
proof -
  obtain n where n: "used = Suc n" using assms(2) by (cases used) auto
  have len: "length xs = cap" "Suc n \<le> cap" "drop (Suc n) xs = replicate (cap - Suc n) blank"
    using assms(1) n by (simp_all add: compact_def)
  define ys where "ys = xs[idx := xs ! n]"
  have sr: "swap_removed blank used idx xs = ys[n := blank]"
    by (auto simp: swap_removed_def n ys_def Let_def)
  have "ys[n := blank] = take n ys @ blank # drop (Suc n) ys"
    using len by (simp add: ys_def upd_conv_take_nth_drop)
  moreover have "drop (Suc n) ys = drop (Suc n) xs" using assms(2) n by (simp add: ys_def drop_update_cancel)
  ultimately have split: "swap_removed blank used idx xs = take n ys @ replicate (cap - n) blank"
    using sr len by (simp add: Suc_diff_Suc flip: replicate_Suc)
  then show "compact blank cap (used - 1) (swap_removed blank used idx xs)"
    using len by (simp add: compact_def ys_def n)
  have whole: "take used xs = take n xs @ [xs ! n]" using len n by (simp add: take_Suc_conv_app_nth)
  have "mset (take n ys) = mset (take used xs) - {#xs ! idx#}"
  proof (cases "idx = n")
    case True
    then show ?thesis using whole by (simp add: ys_def)
  next
    case False
    then have "idx < n" using assms(2) n by simp
    moreover from this have "xs ! idx \<in># mset (take n xs)" using len by (metis length_take min.absorb4 nth_mem nth_take set_mset_mset Suc_le_lessD)
    ultimately show ?thesis using whole len by (simp add: ys_def take_update_swap mset_update)
  qed
  then show "mset (take (used - 1) (swap_removed blank used idx xs)) = mset (take used xs) - {#xs ! idx#}"
    using split len by (simp add: n ys_def)
qed

lemma swap_removed_length [simp]: "length (swap_removed blank used idx xs) = length xs"
  by (simp add: swap_removed_def Let_def)

lemma swap_removed_take: "idx < used \<Longrightarrow> take idx (swap_removed blank used idx xs) = take idx xs"
  by (auto simp: swap_removed_def Let_def take_update_swap list_update_beyond)

lemma drop_channels:
  assumes "compact empty_ich_entry cap used xs" "drop_channels ilk_id idx used xs = (used', xs')"
    and "\<forall>e \<in> set (take (min idx used) xs). \<not> (active_ich e \<and> ic_ilk_id e = ilk_id)"
  shows "compact empty_ich_entry cap used' xs' \<and> used' \<le> used \<and>
    mset (take used' xs') = filter_mset (\<lambda>e. \<not> (active_ich e \<and> ic_ilk_id e = ilk_id)) (mset (take used xs))"
  using assms
proof (induction ilk_id idx used xs rule: drop_channels.induct)
  case (1 ilk_id idx used xs)
  let ?mine = "\<lambda>e. active_ich e \<and> ic_ilk_id e = ilk_id"
  consider (stop) "\<not> idx < used" | (mine) "idx < used" "?mine (xs ! idx)" | (other) "idx < used" "\<not> ?mine (xs ! idx)"
    by blast
  then show ?case
  proof cases
    case stop
    then have "\<forall>e \<in># mset (take used xs). \<not> ?mine e" using "1.prems"(3) by (simp add: min_def)
    then have "filter_mset (\<lambda>e. \<not> ?mine e) (mset (take used xs)) = mset (take used xs)"
      by (simp only: filter_mset_eq_conv) auto
    with stop "1.prems" show ?thesis by (simp add: drop_channels.simps [of ilk_id idx])
  next
    case mine
    let ?ys = "swap_removed empty_ich_entry used idx xs"
    have "set (take (min idx (used - 1)) ?ys) \<subseteq> set (take (min idx used) xs)"
      using swap_removed_take [OF mine(1), of empty_ich_entry xs] mine(1) by (simp add: min_def split: if_splits)
    moreover have "drop_channels ilk_id idx (used - 1) ?ys = (used', xs')"
      using "1.prems"(2) mine by (simp add: drop_channels.simps [of ilk_id idx used])
    ultimately have "compact empty_ich_entry cap used' xs' \<and> used' \<le> used - 1 \<and>
        mset (take used' xs') = filter_mset (\<lambda>e. \<not> ?mine e) (mset (take (used - 1) ?ys))"
      using "1.IH"(1) [OF mine swap_removed(1) [OF "1.prems"(1) mine(1)]] "1.prems"(3) by blast
    moreover have "filter_mset (\<lambda>e. \<not> ?mine e) (mset (take (used - 1) ?ys)) =
        filter_mset (\<lambda>e. \<not> ?mine e) (mset (take used xs))"
      unfolding swap_removed(2) [OF "1.prems"(1) mine(1)] filter_diff_mset using mine(2) by simp
    ultimately show ?thesis by auto
  next
    case other
    have "take (Suc idx) xs = take idx xs @ [xs ! idx]"
      using other(1) compact_used [OF "1.prems"(1)] by (simp add: take_Suc_conv_app_nth)
    then have "\<forall>e \<in> set (take (min (idx + 1) used) xs). \<not> ?mine e"
      using "1.prems"(3) other by (auto simp: min_def)
    moreover have "drop_channels ilk_id (idx + 1) used xs = (used', xs')"
      using "1.prems"(2) other by (simp add: drop_channels.simps [of ilk_id idx used])
    ultimately show ?thesis using "1.IH"(2) [OF other "1.prems"(1)] by blast
  qed
qed


section \<open>The region's invariant\<close>

definition plain_flags :: "ich_table \<Rightarrow> bool" where
  "plain_flags t \<longleftrightarrow> (\<forall>e \<in> set t. im_flags e \<in> {0, ICH_MAP_FLAG_OCCUPIED, ICH_MAP_FLAG_TOMBSTONE})"

definition limits_ok :: "identity_limits \<Rightarrow> bool" where
  "limits_ok l \<longleftrightarrow> max_ilks l \<le> u32_max \<and> max_tenants l \<le> u32_max \<and> max_vocabulary l \<le> u32_max \<and>
     max_ilk_aliases l \<le> u32_max"

text \<open>Every section has its size, every count is in its section and every slot past it is empty; the
  channel table has as many occupied entries as the header says.\<close>

definition region_ok :: "identity_region \<Rightarrow> bool" where
  "region_ok r \<longleftrightarrow> limits_ok (ir_limits r) \<and>
     compact empty_tenant_entry (max_tenants (ir_limits r)) (ir_tenant_count r) (ir_tenants r) \<and>
     compact empty_ilk_entry (max_ilks (ir_limits r)) (ir_ilk_count r) (ir_ilks r) \<and>
     compact empty_ich_entry (max_ichs (ir_limits r)) (ir_ich_count r) (ir_ichs r) \<and>
     compact empty_ilk_alias_entry (max_ilk_aliases (ir_limits r)) (ir_ilk_alias_count r) (ir_aliases r) \<and>
     compact empty_vocabulary_entry (max_vocabulary (ir_limits r)) (ir_vocabulary_count r) (ir_vocabulary r) \<and>
     length (ir_mappings r) = max_ich_mappings (ir_limits r) \<and> plain_flags (ir_mappings r) \<and>
     ir_ich_mapping_count r = length (filter occupied (ir_mappings r))"

lemma caps_le [simp]: "max_ichs l \<le> u32_max" "max_ich_mappings l \<le> u32_max"
  by (simp_all add: max_ichs_def max_ich_mappings_def saturating_mul_def u32_max_def)

lemma saturating_within [simp]: "a + b \<le> cap \<Longrightarrow> cap \<le> u32_max \<Longrightarrow> saturating_add 32 a b = a + b"
  by (simp add: saturating_add_def u32_max_def)

lemma limits_okD [simp]:
  "limits_ok l \<Longrightarrow> max_ilks l \<le> u32_max" "limits_ok l \<Longrightarrow> max_tenants l \<le> u32_max"
  "limits_ok l \<Longrightarrow> max_vocabulary l \<le> u32_max" "limits_ok l \<Longrightarrow> max_ilk_aliases l \<le> u32_max"
  by (simp_all add: limits_ok_def)

lemma stamped_simps [simp]:
  "ir_limits (stamped now r) = ir_limits r" "ir_tenant_count (stamped now r) = ir_tenant_count r"
  "ir_ilk_count (stamped now r) = ir_ilk_count r" "ir_ich_count (stamped now r) = ir_ich_count r"
  "ir_ich_mapping_count (stamped now r) = ir_ich_mapping_count r"
  "ir_vocabulary_count (stamped now r) = ir_vocabulary_count r"
  "ir_ilk_alias_count (stamped now r) = ir_ilk_alias_count r" "ir_tenants (stamped now r) = ir_tenants r"
  "ir_ilks (stamped now r) = ir_ilks r" "ir_ichs (stamped now r) = ir_ichs r"
  "ir_mappings (stamped now r) = ir_mappings r" "ir_aliases (stamped now r) = ir_aliases r"
  "ir_vocabulary (stamped now r) = ir_vocabulary r"
  by (simp_all add: stamped_def)

lemma filter_update:
  assumes "i < length xs"
  shows "length (filter P (xs[i := e])) + (if P (xs ! i) then 1 else 0) = length (filter P xs) + (if P e then 1 else 0)"
proof -
  have "filter P xs = filter P (take i xs @ xs ! i # drop (Suc i) xs)" using assms by (simp add: id_take_nth_drop [symmetric])
  moreover have "xs[i := e] = take i xs @ e # drop (Suc i) xs" using assms by (simp add: upd_conv_take_nth_drop)
  ultimately show ?thesis by simp
qed

lemma plain_slot:
  assumes "plain_flags t" "i < length t"
  shows "tombstone (t ! i) \<longleftrightarrow> im_flags (t ! i) = ICH_MAP_FLAG_TOMBSTONE"
    "im_flags (t ! i) AND ICH_MAP_FLAG_OCCUPIED \<noteq> 0 \<longleftrightarrow> occupied (t ! i)"
proof -
  have "im_flags (t ! i) \<in> {0, ICH_MAP_FLAG_OCCUPIED, ICH_MAP_FLAG_TOMBSTONE}"
    using assms by (simp add: plain_flags_def all_set_conv_all_nth)
  from flag_cases [OF this] show "tombstone (t ! i) \<longleftrightarrow> im_flags (t ! i) = ICH_MAP_FLAG_TOMBSTONE"
    "im_flags (t ! i) AND ICH_MAP_FLAG_OCCUPIED \<noteq> 0 \<longleftrightarrow> occupied (t ! i)" .
qed

lemma plain_update:
  "plain_flags t \<Longrightarrow> im_flags e \<in> {0, ICH_MAP_FLAG_OCCUPIED, ICH_MAP_FLAG_TOMBSTONE} \<Longrightarrow> plain_flags (t[i := e])"
  by (auto simp: plain_flags_def dest!: subsetD [OF set_update_subset_insert])

text \<open>Insertion counts its new slot.\<close>

lemma upsert_counts:
  assumes "plain_flags t" "upsert_ich_mapping_entry t h c a ich ilk ten = Inr (inserted, t')"
  shows "plain_flags t' \<and> length t' = length t \<and>
    length (filter occupied t') = length (filter occupied t) + (if inserted then 1 else 0)"
proof -
  let ?m = "ich_matches h c a ten" and ?w = "write_ich_mapping_entry h c a ich ilk ten"
  from assms(2) have ne: "t \<noteq> []" by (auto simp: upsert_ich_mapping_entry_def)
  with assms(2) obtain i where i: "upsert_slot ?m t None (probes (length t) h) = Some (i, inserted)" "t' = t[i := ?w]"
    by (auto simp: upsert_ich_mapping_entry_def split: option.splits)
  have w: "im_flags ?w = ICH_MAP_FLAG_OCCUPIED" "occupied ?w"
    by (simp_all add: write_ich_mapping_entry_def occupied_def)
  note slot = upsert_slot_spec [where m = ?m and t = t and tomb = None and idxs = "probes (length t) h"]
  have "i < length t \<and> occupied (t ! i) = (\<not> inserted)"
  proof (cases inserted)
    case True
    with i slot ne have "i < length t" "im_flags (t ! i) = 0 \<or> tombstone (t ! i)" by auto
    with True show ?thesis by auto
  next
    case False
    with i slot have "find_slot ?m t (probes (length t) h) = Some i" by simp
    from find_slot_found [OF this] ne have "i < length t" "?m (t ! i)" by auto
    with False plain_slot(2) [OF assms(1)] show ?thesis by (auto simp: ich_matches_def)
  qed
  then show ?thesis
    using filter_update [of i t occupied ?w] w plain_update [OF assms(1), of ?w i] i(2) by (auto split: if_splits)
qed

lemma remove_counts:
  assumes "plain_flags t" "remove_ich_mapping_entry t h c a ten = (removed, t')"
  shows "plain_flags t' \<and> length t' = length t \<and>
    length (filter occupied t') = length (filter occupied t) - (if removed then 1 else 0)"
proof (cases removed)
  case False
  with assms show ?thesis by (auto simp: remove_ich_mapping_entry_def split: if_splits option.splits)
next
  case True
  let ?e = "empty_ich_mapping_entry \<lparr> im_hash := h, im_flags := ICH_MAP_FLAG_TOMBSTONE \<rparr>"
  from True assms(2) obtain i where i: "t \<noteq> []" "t' = t[i := ?e]"
    "find_slot (ich_matches h c a ten) t (probes (length t) h) = Some i"
    by (auto simp: remove_ich_mapping_entry_def split: if_splits option.splits)
  from find_slot_found [OF i(3)] i(1) have "i < length t" "occupied (t ! i)"
    using plain_slot(2) [OF assms(1)] by (auto simp: ich_matches_def)
  moreover have "\<not> occupied ?e" by (simp add: occupied_def flag_facts(3) [symmetric])
  ultimately show ?thesis
    using filter_update [of i t occupied ?e] plain_update [OF assms(1), of ?e i] i(2) True by auto
qed

lemma filter_split:
  "\<forall>x \<in> set xs. (P x \<longleftrightarrow> Q x \<or> R x) \<and> \<not> (Q x \<and> R x) \<Longrightarrow>
   length (filter Q xs) + length (filter R xs) = length (filter P xs)"
  by (induction xs) auto

lemma clear_counts:
  assumes "plain_flags t" "clear_mappings_of ilk_id t = (removed, t')"
  shows "plain_flags t' \<and> length t' = length t \<and> removed + length (filter occupied t') = length (filter occupied t)"
proof -
  let ?f = "\<lambda>e. if cleared_for ilk_id e then empty_ich_mapping_entry else e"
  have t': "t' = map ?f t" "removed = length (filter (cleared_for ilk_id) t)"
    using assms(2) by (simp_all add: clear_mappings_of_def)
  have "plain_flags t'" using assms(1) by (auto simp: t' plain_flags_def)
  moreover have "cleared_for ilk_id e \<Longrightarrow> occupied e" if "e \<in> set t" for e
    using flag_cases(2) assms(1) that by (auto simp: plain_flags_def cleared_for_def)
  then have "removed + length (filter (occupied \<circ> ?f) t) = length (filter occupied t)"
    unfolding t' by (intro filter_split) auto
  ultimately show ?thesis by (simp add: t' filter_map)
qed

lemma map_channels_counts:
  assumes "plain_flags t" "length t \<le> u32_max" "map_channels es t (length (filter occupied t)) = (res, t', n)"
  shows "plain_flags t' \<and> length t' = length t \<and> n = length (filter occupied t')"
  using assms
proof (induction es arbitrary: t)
  case (Cons e es)
  let ?c = "fixed_str (ic_channel_type e)" and ?a = "fixed_str (ic_address e)"
  let ?u = "upsert_ich_mapping_entry t (compute_ich_hash ?c ?a (ic_tenant_id e)) ?c ?a (ic_ich_id e) (ic_ilk_id e) (ic_tenant_id e)"
  show ?case
  proof (cases "?c = [] \<or> ?a = []")
    case True
    with Cons show ?thesis by (simp add: Let_def)
  next
    case False
    show ?thesis
    proof (cases ?u)
      case (Inl err)
      with False Cons.prems show ?thesis by (auto simp: Let_def)
    next
      case (Inr x)
      obtain inserted t1 where x: "?u = Inr (inserted, t1)" using Inr by (cases x) auto
      note t1 = upsert_counts [OF Cons.prems(1) x]
      have "length (filter occupied t1) \<le> u32_max" using t1 Cons.prems(2) length_filter_le [of occupied t1] by linarith
      with t1 have "(if inserted then saturating_add 32 (length (filter occupied t)) 1 else length (filter occupied t)) =
          length (filter occupied t1)"
        using saturating_within [of "length (filter occupied t)" 1 "length (filter occupied t1)"] by simp
      with Cons.prems(3) False x have "map_channels es t1 (length (filter occupied t1)) = (res, t', n)"
        by (simp add: Let_def)
      from Cons.IH [OF _ _ this] t1 Cons.prems(2) show ?thesis by simp
    qed
  qed
qed simp


section \<open>Every operation keeps the invariant\<close>

datatype identity_op =
    UpdateHeartbeat nat
  | ClearRegion nat
  | WriteSnapshot nat "tenant_entry list" "ilk_entry list" "ich_entry list" "ilk_alias_entry list" "vocabulary_entry list"
  | UpsertIchMapping nat str str bytes bytes bytes
  | UpsertTenant nat tenant_entry
  | UpsertIlk nat ilk_entry
  | RemoveIlk nat bytes
  | ReplaceIchs nat bytes "ich_entry list"
  | ProvisionIlk nat ilk_entry "ich_entry list"
  | ClearIchMappings nat bytes
  | UpsertAlias nat ilk_alias_entry
  | RemoveAlias nat bytes
  | RemoveIchMapping nat str str bytes

fun identity_step :: "identity_op \<Rightarrow> identity_region \<Rightarrow> identity_region" where
  "identity_step (UpdateHeartbeat now) r = update_heartbeat now r"
| "identity_step (ClearRegion now) r = snd (identity_clear now r)"
| "identity_step (WriteSnapshot now ts is cs as vs) r = snd (write_snapshot_entries now ts is cs as vs r)"
| "identity_step (UpsertIchMapping now c a ich ilk ten) r = snd (upsert_ich_mapping now c a ich ilk ten r)"
| "identity_step (UpsertTenant now e) r = snd (upsert_tenant_entry now e r)"
| "identity_step (UpsertIlk now e) r = snd (upsert_ilk_entry now e r)"
| "identity_step (RemoveIlk now ilk) r = snd (remove_ilk_entry now ilk r)"
| "identity_step (ReplaceIchs now ilk es) r = snd (replace_ich_entries_for_ilk now ilk es r)"
| "identity_step (ProvisionIlk now ilk es) r = snd (provision_temporary_ilk now ilk es r)"
| "identity_step (ClearIchMappings now ilk) r = snd (clear_ich_mappings_for_ilk now ilk r)"
| "identity_step (UpsertAlias now e) r = snd (upsert_ilk_alias_entry now e r)"
| "identity_step (RemoveAlias now old) r = snd (remove_ilk_alias_entry now old r)"
| "identity_step (RemoveIchMapping now c a ten) r = snd (remove_ich_mapping now c a ten r)"

text \<open>The invariant after a change of one section.\<close>

lemma region_okD:
  assumes "region_ok r"
  shows "limits_ok (ir_limits r)"
    "compact empty_tenant_entry (max_tenants (ir_limits r)) (ir_tenant_count r) (ir_tenants r)"
    "compact empty_ilk_entry (max_ilks (ir_limits r)) (ir_ilk_count r) (ir_ilks r)"
    "compact empty_ich_entry (max_ichs (ir_limits r)) (ir_ich_count r) (ir_ichs r)"
    "compact empty_ilk_alias_entry (max_ilk_aliases (ir_limits r)) (ir_ilk_alias_count r) (ir_aliases r)"
    "compact empty_vocabulary_entry (max_vocabulary (ir_limits r)) (ir_vocabulary_count r) (ir_vocabulary r)"
    "length (ir_mappings r) = max_ich_mappings (ir_limits r)" "plain_flags (ir_mappings r)"
    "ir_ich_mapping_count r = length (filter occupied (ir_mappings r))"
  using assms unfolding region_ok_def by blast+

lemma region_ok_stamped [simp]: "region_ok (stamped now r) = region_ok r"
  by (simp add: region_ok_def)

lemma region_ok_tenants:
  "region_ok r \<Longrightarrow> compact empty_tenant_entry (max_tenants (ir_limits r)) n xs \<Longrightarrow>
   region_ok (r\<lparr>ir_tenants := xs, ir_tenant_count := n\<rparr>)"
  by (simp add: region_ok_def)

lemma region_ok_ilks:
  "region_ok r \<Longrightarrow> compact empty_ilk_entry (max_ilks (ir_limits r)) n xs \<Longrightarrow>
   region_ok (r\<lparr>ir_ilks := xs, ir_ilk_count := n\<rparr>)"
  by (simp add: region_ok_def)

lemma region_ok_aliases:
  "region_ok r \<Longrightarrow> compact empty_ilk_alias_entry (max_ilk_aliases (ir_limits r)) n xs \<Longrightarrow>
   region_ok (r\<lparr>ir_aliases := xs, ir_ilk_alias_count := n\<rparr>)"
  by (simp add: region_ok_def)

lemma region_ok_ichs:
  "region_ok r \<Longrightarrow> compact empty_ich_entry (max_ichs (ir_limits r)) n xs \<Longrightarrow>
   region_ok (r\<lparr>ir_ichs := xs, ir_ich_count := n\<rparr>)"
  by (simp add: region_ok_def)

lemma region_ok_mappings:
  "region_ok r \<Longrightarrow> plain_flags t \<and> length t = length (ir_mappings r) \<and> n = length (filter occupied t) \<Longrightarrow>
   region_ok (r\<lparr>ir_mappings := t, ir_ich_mapping_count := n\<rparr>)"
  by (simp add: region_ok_def)

text \<open>What the three tables' operations do to their section.\<close>

lemma compact_upsert:
  assumes "compact blank cap used xs"
  shows "position p (take used xs) = Some idx \<Longrightarrow> compact blank cap used (xs[idx := e])"
    "used < cap \<Longrightarrow> cap \<le> u32_max \<Longrightarrow> compact blank cap (saturating_add 32 used (Suc 0)) (xs[used := e])"
    "position p (take used xs) = Some idx \<Longrightarrow> compact blank cap (used - Suc 0) (swap_removed blank used idx xs)"
proof -
  have idx: "idx < used" if "position p (take used xs) = Some idx" using position_Some [OF that] by simp
  show "position p (take used xs) = Some idx \<Longrightarrow> compact blank cap used (xs[idx := e])"
    by (rule compact_update [OF assms idx])
  show "used < cap \<Longrightarrow> cap \<le> u32_max \<Longrightarrow> compact blank cap (saturating_add 32 used (Suc 0)) (xs[used := e])"
    using compact_push(1) [OF assms, of e] saturating_within [of used 1 cap] by simp
  show "position p (take used xs) = Some idx \<Longrightarrow> compact blank cap (used - Suc 0) (swap_removed blank used idx xs)"
    using swap_removed(1) [OF assms idx] by simp
qed

lemma region_ok_tables:
  assumes r: "region_ok r"
  shows "region_ok (snd (upsert_tenant_entry now te r))" "region_ok (snd (upsert_ilk_entry now il r))"
    "region_ok (snd (upsert_ilk_alias_entry now ia r))" "region_ok (snd (remove_ilk_entry now ilk r))"
    "region_ok (snd (remove_ilk_alias_entry now old r))"
proof -
  note ok = region_okD [OF r] and lim = limits_okD [OF region_okD(1) [OF r]]
  note defs = find_tenant_entry_index_def find_ilk_entry_index_def find_alias_entry_index_def Let_def
  note tenants = region_ok_tenants [OF r] and ilks = region_ok_ilks [OF r] and aliases = region_ok_aliases [OF r]
  show "region_ok (snd (upsert_tenant_entry now te r))"
    using r lim(2) by (auto simp: upsert_tenant_entry_def defs split: option.split
      intro: tenants tenants [of "ir_tenant_count r", simplified] compact_upsert [OF ok(2)])
  show "region_ok (snd (upsert_ilk_entry now il r))"
    using r lim(1) by (auto simp: upsert_ilk_entry_def defs split: option.split
      intro: ilks ilks [of "ir_ilk_count r", simplified] compact_upsert [OF ok(3)])
  show "region_ok (snd (upsert_ilk_alias_entry now ia r))"
    using r lim(4) by (auto simp: upsert_ilk_alias_entry_def defs split: option.split
      intro: aliases aliases [of "ir_ilk_alias_count r", simplified] compact_upsert [OF ok(5)])
  show "region_ok (snd (remove_ilk_entry now ilk r))"
    using r by (auto simp: remove_ilk_entry_def remove_compact_ilk_entry_def defs split: option.split
      intro: ilks compact_upsert(3) [OF ok(3)])
  show "region_ok (snd (remove_ilk_alias_entry now old r))"
    using r by (auto simp: remove_ilk_alias_entry_def remove_compact_alias_entry_def defs split: option.split
      intro: aliases compact_upsert(3) [OF ok(5)])
qed

lemma region_ok_whole:
  assumes r: "region_ok r"
  shows "region_ok (update_heartbeat now r)" "region_ok (snd (identity_clear now r))"
    "region_ok (snd (write_snapshot_entries now ts is cs as vs r))"
proof -
  have blank: "plain_flags (map (\<lambda>_. empty_ich_mapping_entry) t) \<and> filter occupied (map (\<lambda>_. empty_ich_mapping_entry) t) = []"
    for t :: ich_table by (auto simp: plain_flags_def filter_empty_conv)
  note ok = region_okD [OF r]
  show "region_ok (update_heartbeat now r)" using r by (simp add: update_heartbeat_def region_ok_def)
  show "region_ok (snd (identity_clear now r))"
    using ok blank by (simp add: identity_clear_def region_ok_def)
  show "region_ok (snd (write_snapshot_entries now ts is cs as vs r))"
    using ok blank r compact_filled [OF ok(2)] compact_filled [OF ok(3)] compact_filled [OF ok(4)]
      compact_filled [OF ok(5)] compact_filled [OF ok(6)]
    by (simp add: write_snapshot_entries_def Let_def) (simp add: region_ok_def)
qed

lemma region_ok_table:
  assumes r: "region_ok r"
  shows "region_ok (snd (upsert_ich_mapping now c a ich ilk ten r))"
    "region_ok (snd (remove_ich_mapping now c a ten r))" "region_ok (snd (clear_ich_mappings_for_ilk now ilk r))"
proof -
  note plain = region_okD(8) [OF r] and counted = region_okD(9) [OF r]
  note new = region_ok_mappings [OF r] and same = region_ok_mappings [OF r, of _ "ir_ich_mapping_count r", simplified]
  have slots: "length (ir_mappings r) \<le> u32_max" using region_okD(7) [OF r] by simp
  show "region_ok (snd (upsert_ich_mapping now c a ich ilk ten r))"
  proof (cases "upsert_ich_mapping_entry (ir_mappings r) (compute_ich_hash c a ten) c a ich ilk ten")
    case (Inr x)
    obtain inserted t where x: "x = (inserted, t)" by (cases x)
    note t = upsert_counts [OF plain Inr [unfolded x]]
    have "length (filter occupied t) \<le> u32_max" using t slots length_filter_le [of occupied t] by linarith
    then have "inserted \<Longrightarrow> saturating_add 32 (ir_ich_mapping_count r) (Suc 0) = length (filter occupied t)"
      using t counted saturating_within [of "ir_ich_mapping_count r" 1] by simp
    with t counted Inr x r show ?thesis
      by (cases inserted) (simp_all add: upsert_ich_mapping_def new same)
  qed (simp add: upsert_ich_mapping_def r)
  show "region_ok (snd (remove_ich_mapping now c a ten r))"
    using remove_counts [OF plain surjective_pairing, of "compute_ich_hash c a ten" c a ten] counted
    by (auto simp: remove_ich_mapping_def Let_def split: prod.splits intro!: new same)
  show "region_ok (snd (clear_ich_mappings_for_ilk now ilk r))"
  proof -
    obtain removed t where c: "clear_mappings_of ilk (ir_mappings r) = (removed, t)" by fastforce
    note t = clear_counts [OF plain c]
    have "removed \<le> u32_max" using t slots length_filter_le [of occupied "ir_mappings r"] by linarith
    with c t counted show ?thesis
      by (auto simp: clear_ich_mappings_for_ilk_def Let_def min_def split: if_splits intro!: new same)
  qed
qed

lemma compact_prefix:
  assumes "compact blank cap used xs" "length ys = used"
  shows "compact blank cap used (ys @ drop used xs)"
  using assms by (simp add: compact_def)

lemma compact_weaken:
  assumes "compact blank cap used xs" "used \<le> n" "n \<le> cap"
  shows "compact blank cap n xs"
  using assms drop_drop [of "n - used" used xs] by (simp add: compact_def)

lemma region_ok_channels:
  assumes r: "region_ok r"
  shows "region_ok (snd (replace_ich_entries_for_ilk now ilk_id es r))"
    "region_ok (snd (provision_temporary_ilk now ilk es r))"
proof -
  note ok = region_okD [OF r]
  show "region_ok (snd (replace_ich_entries_for_ilk now ilk_id es r))"
  proof -
    obtain used xs where d: "drop_channels ilk_id 0 (ir_ich_count r) (ir_ichs r) = (used, xs)" by fastforce
    from drop_channels [OF ok(4) d] have xs: "compact empty_ich_entry (max_ichs (ir_limits r)) used xs" "used \<le> ir_ich_count r"
      by simp_all
    let ?ilks = "reindex_ilk_channel_layout (take (ir_ilk_count r) (ir_ilks r)) (take (used + length es) (take used xs @ es @ drop (used + length es) xs))
        @ drop (ir_ilk_count r) (ir_ilks r)"
    have "compact empty_ilk_entry (max_ilks (ir_limits r)) (ir_ilk_count r) ?ilks"
      using compact_used [OF ok(3)] by (intro compact_prefix [OF ok(3)]) (simp add: reindex_ilk_channel_layout_def Let_def)
    moreover have "compact empty_ich_entry (max_ichs (ir_limits r)) (ir_ich_count r) xs"
      using compact_weaken [OF xs] compact_used [OF ok(4)] by simp
    moreover note compact_append [OF xs(1), of es]
    ultimately show ?thesis using d ok r
      by (simp add: replace_ich_entries_for_ilk_def Let_def) (simp add: region_ok_def)
  qed
  show "region_ok (snd (provision_temporary_ilk now ilk es r))"
  proof -
    obtain res t n where m: "map_channels es (ir_mappings r) (ir_ich_mapping_count r) = (res, t, n)"
      by (metis surj_pair)
    have t: "plain_flags t \<and> length t = length (ir_mappings r) \<and> n = length (filter occupied t)"
      using map_channels_counts [OF ok(8) _ m [unfolded ok(9)]] ok(7) by simp
    have "compact empty_ich_entry (max_ichs (ir_limits r)) (saturating_add 32 (ir_ich_count r) (length es))
        (take (ir_ich_count r) (ir_ichs r) @ es @ drop (ir_ich_count r + length es) (ir_ichs r))"
      if "\<not> max_ichs (ir_limits r) < ir_ich_count r + length es"
      using saturating_within [of "ir_ich_count r" "length es" "max_ichs (ir_limits r)"]
        compact_append [OF ok(4), of es] that by simp
    with t m compact_upsert(2) [OF ok(3)] limits_okD(1) [OF ok(1)] ok r show ?thesis
      by (simp add: provision_temporary_ilk_def Let_def) (simp add: region_ok_def)
  qed
qed

lemma identity_step_ok: "region_ok r \<Longrightarrow> region_ok (identity_step op r)"
  by (cases op) (simp_all add: region_ok_tables region_ok_whole region_ok_table region_ok_channels)

lemma identity_run_ok: "region_ok r \<Longrightarrow> region_ok (fold identity_step ops r)"
  by (induction ops arbitrary: r) (simp_all add: identity_step_ok)

lemma initial_region_ok: "limits_ok l \<Longrightarrow> region_ok (initialize_identity_header l now)"
  by (simp add: initialize_identity_header_def region_ok_def plain_flags_def)


section \<open>The channels a person has\<close>

abbreviation channels_of :: "identity_region \<Rightarrow> ich_entry multiset" where
  "channels_of r \<equiv> mset (take (ir_ich_count r) (ir_ichs r))"

abbreviation of_others :: "bytes \<Rightarrow> ich_entry multiset \<Rightarrow> ich_entry multiset" where
  "of_others ilk_id \<equiv> filter_mset (\<lambda>e. \<not> (active_ich e \<and> ic_ilk_id e = ilk_id))"

lemma compact_take:
  assumes "compact blank cap used xs" "used \<le> n" "n \<le> cap"
  shows "mset (take n xs) = mset (take used xs) + replicate_mset (n - used) blank"
proof -
  have "take n xs = take used xs @ take (n - used) (drop used xs)"
    using assms(2) by (metis le_add_diff_inverse take_add)
  then show ?thesis using assms by (simp add: compact_def)
qed

text \<open>The counts and offsets the persons' entries get.\<close>

lemma reindexed:
  assumes "i < length ilks"
  shows "reindex_ilk_channel_layout ilks ichs ! i =
    (if il_flags (ilks ! i) AND FLAG_ACTIVE = 0 then ilks ! i
     else (ilks ! i)\<lparr>il_ich_offset := fst (unwrap_or (0, 0) (ich_layout_of ichs (il_ilk_id (ilks ! i)))),
                     il_ich_count := snd (unwrap_or (0, 0) (ich_layout_of ichs (il_ilk_id (ilks ! i))))\<rparr>)"
  using assms by (simp add: reindex_ilk_channel_layout_def Let_def case_prod_unfold)

lemma ich_layout_counts:
  "ich_layout_of ichs ilk_id =
     (case filter (\<lambda>(_, e). active_ich e \<and> ic_ilk_id e = ilk_id) (enumerate 0 ichs) of
        [] \<Rightarrow> None
      | (idx, _) # rest \<Rightarrow> Some (idx, min u16_max (Suc (length rest))))"
proof -
  let ?mine = "\<lambda>(_::nat, e). active_ich e \<and> ic_ilk_id e = ilk_id"
  let ?shown = "\<lambda>xs. case filter ?mine xs of [] \<Rightarrow> None | (idx, _) # rest \<Rightarrow> Some (idx, min u16_max (Suc (length rest)))"
  let ?step = "\<lambda>(idx, e) per_ilk.
        if active_ich e
        then per_ilk(ic_ilk_id e \<mapsto>
          (case per_ilk (ic_ilk_id e) of
             Some (offset, n) \<Rightarrow> (offset, saturating_add 16 n 1)
           | None \<Rightarrow> (idx, 1)))
        else per_ilk"
  have "fold ?step xs Map.empty ilk_id = ?shown xs" for xs :: "(nat \<times> ich_entry) list"
  proof (induction xs rule: rev_induct)
    case (snoc x xs)
    obtain idx e where x: "x = (idx, e)" by (cases x)
    show ?case
    proof (cases "?mine x")
      case True
      then show ?thesis using snoc x
        by (cases "filter ?mine xs") (auto simp: u16_max_def saturating_add_def)
    next
      case False
      then show ?thesis using snoc x by auto
    qed
  qed simp
  then show ?thesis by (simp add: ich_layout_of_def)
qed


section \<open>Properties\<close>

text \<open>C14: every operation of the writer keeps the region well formed, on every path, errors included: whatever
  sequence of operations runs on a new region, every section has its size, every count is within its section,
  every slot past a count is empty, the header counts exactly the occupied entries of the channel table, and a
  reader gets a snapshot rather than InvalidHeader.\<close>

theorem identity_region_well_formed:
  assumes "limits_ok l" "r = fold identity_step ops (initialize_identity_header l now)"
  shows "region_ok r \<and> (\<exists>sn. read_identity_snapshot r = Inr sn)"
proof -
  have ok: "region_ok r" unfolding assms(2) by (rule identity_run_ok [OF initial_region_ok [OF assms(1)]])
  note d = region_okD [OF ok]
  have "ir_ich_mapping_count r \<le> max_ich_mappings (ir_limits r)"
    using d(7,9) length_filter_le [of occupied "ir_mappings r"] by simp
  then have "\<exists>sn. read_identity_snapshot r = Inr sn"
    using d(2-6) by (simp add: read_identity_snapshot_def compact_def)
  with ok show ?thesis by blast
qed

definition demo_limits :: identity_limits where
  "demo_limits = \<lparr> max_ilks = 1, max_tenants = 1, max_vocabulary = 1, max_ilk_aliases = 1 \<rparr>"

lemma demo_limits_ok: "limits_ok demo_limits"
  by (simp add: limits_ok_def demo_limits_def u32_max_def)

theorem identity_region_well_formed_witness:
  "region_ok (fold identity_step
     [UpsertIlk 1 (empty_ilk_entry\<lparr>il_flags := FLAG_ACTIVE\<rparr>), UpsertIchMapping 2 ''mail'' ''a'' ''c1'' ''p1'' zero_id,
      ClearIchMappings 3 ''p1'', RemoveIlk 4 zero_id]
     (initialize_identity_header demo_limits 0))"
  using identity_region_well_formed [OF demo_limits_ok refl] by blast

text \<open>Replacing a person's channels leaves every other channel and gives the person exactly the new ones,
  as long as they fit.  When they do not, the answer is SlotFull and the person's old channels are gone: the
  count stands and covers empty entries in their place.\<close>

theorem replace_channels_outcome:
  assumes "region_ok r" "replace_ich_entries_for_ilk now ilk_id es r = (res, r')"
  shows "if size (of_others ilk_id (channels_of r)) + length es \<le> max_ichs (ir_limits r)
    then res = Inr () \<and> channels_of r' = of_others ilk_id (channels_of r) + mset es
    else res = Inl SlotFull \<and> ir_ich_count r' = ir_ich_count r \<and>
      channels_of r' = of_others ilk_id (channels_of r)
        + replicate_mset (ir_ich_count r - size (of_others ilk_id (channels_of r))) empty_ich_entry"
proof -
  note ok = region_okD(4) [OF assms(1)]
  obtain used xs where d: "drop_channels ilk_id 0 (ir_ich_count r) (ir_ichs r) = (used, xs)" by fastforce
  from drop_channels [OF ok d] have xs: "compact empty_ich_entry (max_ichs (ir_limits r)) used xs"
    and used: "used \<le> ir_ich_count r" and left: "mset (take used xs) = of_others ilk_id (channels_of r)" by simp_all
  note len = compact_used [OF xs] and count = compact_used [OF ok]
  have size: "size (of_others ilk_id (channels_of r)) = used" using left len by (metis length_take size_mset)
  show ?thesis
  proof (cases "used + length es \<le> max_ichs (ir_limits r)")
    case True
    with assms(2) d count left show ?thesis unfolding size
      by (auto simp: replace_ich_entries_for_ilk_def Let_def len)
  next
    case False
    with assms(2) d count left compact_take [OF xs used] show ?thesis unfolding size
      by (auto simp: replace_ich_entries_for_ilk_def Let_def)
  qed
qed

theorem replace_channels_outcome_witness:
  "channels_of (snd (replace_ich_entries_for_ilk 1 ''p1'' [empty_ich_entry\<lparr>ic_ilk_id := ''p1''\<rparr>]
     (initialize_identity_header demo_limits 0))) = {#empty_ich_entry\<lparr>ic_ilk_id := ''p1''\<rparr>#}"
  using replace_channels_outcome [where now = 1 and ilk_id = "''p1''" and es = "[empty_ich_entry\<lparr>ic_ilk_id := ''p1''\<rparr>]",
      OF initial_region_ok [OF demo_limits_ok, of 0] surjective_pairing]
  by (simp add: initialize_identity_header_def max_ichs_def demo_limits_def saturating_mul_def)

end
