(* ===== verification/Opa_Policy.thy ===== *)
theory Opa_Policy
  imports Identity_Region System_Policy Message_Trace
begin

text \<open>
  The operator's routing policy (\<^verbatim>\<open>src/src/opa.rs\<close> and the reload of \<^verbatim>\<open>src/src/router/mod.rs\<close>): the
  resolver and its life cycle, the data it is asked over, and how a router takes a new policy from the region
  that SY.opa.rules writes, on a message and on a timer.  The WebAssembly engine is an argument: what it makes
  of a module, and the text it answers an input with.
\<close>

section \<open>Hexadecimal digests\<close>

definition hex_nibble :: "char \<Rightarrow> nat option" where
  "hex_nibble c =
     (let b = of_char c :: nat in
      if 48 \<le> b \<and> b \<le> 57 then Some (b - 48)
      else if 97 \<le> b \<and> b \<le> 102 then Some (b - 97 + 10)
      else if 65 \<le> b \<and> b \<le> 70 then Some (b - 65 + 10)
      else None)"

fun hex_pairs :: "str \<Rightarrow> bytes option" where
  "hex_pairs (h # l # rest) =
     (case (hex_nibble h, hex_nibble l) of
        (Some high, Some low) \<Rightarrow> map_option (Cons (char_of (high * 16 + low))) (hex_pairs rest)
      | _ \<Rightarrow> None)"
| "hex_pairs _ = Some []"

definition sha256_hex_to_bytes :: "str \<Rightarrow> bytes option" where
  "sha256_hex_to_bytes raw = (let value = trim raw in if length value \<noteq> 64 then None else hex_pairs value)"

definition hex_digit :: "nat \<Rightarrow> char" where
  "hex_digit n = ''0123456789abcdef'' ! n"

definition sha256_bytes_to_hex :: "bytes \<Rightarrow> str" where
  "sha256_bytes_to_hex bs =
     concat (map (\<lambda>b. [hex_digit (of_char b div 16), hex_digit (of_char b mod 16)]) bs)"

definition sha256_bytes_is_zero :: "bytes \<Rightarrow> bool" where
  "sha256_bytes_is_zero bs = list_all (\<lambda>b. b = nul) bs"

text \<open>The router's own parser of a payload's digest, with its optional prefix.\<close>

definition parse_sha256_hash :: "str \<Rightarrow> bytes option" where
  "parse_sha256_hash raw =
     (let value = (if starts_with raw ''sha256:'' then drop 7 raw else raw)
      in if length value \<noteq> 64 then None else hex_pairs value)"

definition format_sha256 :: "bytes \<Rightarrow> str" where
  "format_sha256 bs = ''sha256:'' @ sha256_bytes_to_hex bs"


section \<open>Data for the policy\<close>

fun merge_json_value :: "json \<Rightarrow> json \<Rightarrow> json"
and merge_entries :: "(str \<times> json) list \<Rightarrow> (str \<times> json) list \<Rightarrow> (str \<times> json) list" where
  "merge_json_value (JObj dst) (JObj src) = JObj (merge_entries dst src)"
| "merge_json_value dst src = src"
| "merge_entries dst [] = dst"
| "merge_entries dst ((k, v) # src) =
     merge_entries
       (AList.update k (case map_of dst k of Some existing \<Rightarrow> merge_json_value existing v | None \<Rightarrow> v) dst) src"

definition merge_opa_data :: "json option \<Rightarrow> json \<Rightarrow> json" where
  "merge_opa_data base overlay = merge_json_value (unwrap_or (JObj []) base) overlay"

definition build_opa_input :: "(meta \<Rightarrow> json) \<Rightarrow> message \<Rightarrow> json" where
  "build_opa_input meta_json msg =
     JObj [(''meta'', meta_json (msg_meta msg)),
           (''routing'', JObj [(''src'', JStr (rt_src (msg_routing msg))),
              (''src_l2_name'', case rt_src_l2_name (msg_routing msg) of Some n \<Rightarrow> JStr n | None \<Rightarrow> JNull)]),
           (''action'', JStr (unwrap_or [] (mt_msg (msg_meta msg))))]"

lemma json_member_size: "map_of kvs k = Some v \<Longrightarrow> size v < Suc (size_list (size_prod (\<lambda>_. 0) size) kvs)"
  by (induction kvs) (auto split: if_splits)

lemma json_item_size: "x \<in> set items \<Longrightarrow> size x < Suc (size_list size items)"
  by (induction items) auto

fun find_map :: "('a \<Rightarrow> 'b option) \<Rightarrow> 'a list \<Rightarrow> 'b option" where
  "find_map f [] = None"
| "find_map f (x # xs) = (case f x of Some y \<Rightarrow> Some y | None \<Rightarrow> find_map f xs)"

lemma find_map_cong [fundef_cong]:
  "xs = ys \<Longrightarrow> (\<And>x. x \<in> set ys \<Longrightarrow> f x = g x) \<Longrightarrow> find_map f xs = find_map g ys"
  by (induction ys arbitrary: xs) (auto split: option.splits)

text \<open>The walks over the engine's result set, for a target and for a decision.\<close>

function (sequential) extract_target :: "json \<Rightarrow> str option" where
  "extract_target (JStr s) = Some s"
| "extract_target (JArr items) = find_map extract_target items"
| "extract_target (JObj kvs) =
     or_else (case map_of kvs ''result'' of Some v \<Rightarrow> extract_target v | None \<Rightarrow> None)
       (or_else (case map_of kvs ''expressions'' of Some v \<Rightarrow> extract_target v | None \<Rightarrow> None)
         (or_else (case map_of kvs ''value'' of Some v \<Rightarrow> extract_target v | None \<Rightarrow> None)
           (case map_of kvs ''target'' of Some v \<Rightarrow> extract_target v | None \<Rightarrow> None)))"
| "extract_target _ = None"
  by pat_completeness auto
termination
  by (relation "measure size") (auto dest: json_member_size json_item_size)

function (sequential) extract_allow :: "json \<Rightarrow> bool option" where
  "extract_allow (JBool b) = Some b"
| "extract_allow (JArr items) = find_map extract_allow items"
| "extract_allow (JObj kvs) =
     find_map (\<lambda>key. case map_of kvs key of Some v \<Rightarrow> extract_allow v | None \<Rightarrow> None)
       [''result'', ''expressions'', ''value'', ''allow'']"
| "extract_allow _ = None"
  by pat_completeness auto
termination
  by (relation "measure size") (auto dest: json_member_size json_item_size)



section \<open>The resolver\<close>

definition OPA_STATUS_OK :: nat where "OPA_STATUS_OK = 0"
definition OPA_STATUS_ERROR :: nat where "OPA_STATUS_ERROR = 1"
definition OPA_STATUS_LOADING :: nat where "OPA_STATUS_LOADING = 2"

record 'w opa_resolver =
  or_policy_loaded :: bool
  or_policy_version :: nat
  or_opa_load_status :: nat
  or_logged_missing :: bool
  or_entrypoint :: "str option"
  or_base_data_bundle :: "json option"
  or_wasm :: "'w option"

text \<open>The libraries: \<^verbatim>\<open>serde_json\<close> both ways, a message's \<^verbatim>\<open>Meta\<close> as JSON, the engine that makes an
  instance of a module with its data, and the instance's answer, text, to an entry point, an input and data.\<close>

record 'w opa_env =
  oe_parse :: "str \<Rightarrow> json option"
  oe_print :: "json \<Rightarrow> str"
  oe_meta :: "meta \<Rightarrow> json"
  oe_instantiate :: "bytes \<Rightarrow> str option \<Rightarrow> 'w option"
  oe_eval :: "'w \<Rightarrow> str option \<Rightarrow> json \<Rightarrow> json option \<Rightarrow> str option"

definition opa_new :: "'w opa_resolver" where
  "opa_new =
     \<lparr> or_policy_loaded = False, or_policy_version = 0, or_opa_load_status = OPA_STATUS_OK,
       or_logged_missing = False, or_entrypoint = None, or_base_data_bundle = None, or_wasm = None \<rparr>"

definition eval_to_json :: "'w opa_env \<Rightarrow> json \<Rightarrow> json option \<Rightarrow> 'w opa_resolver \<Rightarrow> str option" where
  "eval_to_json env input dynamic_data pol =
     (case or_wasm pol of
        None \<Rightarrow> None
      | Some wasm \<Rightarrow>
          oe_eval env wasm (or_entrypoint pol) input
            (map_option (merge_opa_data (or_base_data_bundle pol)) dynamic_data))"

definition parse_target_from_result :: "'w opa_env \<Rightarrow> str \<Rightarrow> str option option" where
  "parse_target_from_result env json = map_option extract_target (oe_parse env json)"

definition parse_bool_from_result :: "'w opa_env \<Rightarrow> str \<Rightarrow> bool option" where
  "parse_bool_from_result env json = map_option (\<lambda>v. unwrap_or False (extract_allow v)) (oe_parse env json)"

definition resolve_target_with_data ::
  "'w opa_env \<Rightarrow> message \<Rightarrow> json option \<Rightarrow> 'w opa_resolver \<Rightarrow> str option option \<times> 'w opa_resolver" where
  "resolve_target_with_data env msg dynamic_data pol =
     (if \<not> or_policy_loaded pol then (None, pol\<lparr>or_logged_missing := True\<rparr>)
      else (Option.bind (eval_to_json env (build_opa_input (oe_meta env) msg) dynamic_data pol)
              (parse_target_from_result env), pol))"

definition evaluate_allow :: "'w opa_env \<Rightarrow> json \<Rightarrow> json option \<Rightarrow> 'w opa_resolver \<Rightarrow> bool option" where
  "evaluate_allow env input dynamic_data pol =
     (if \<not> or_policy_loaded pol then None
      else Option.bind (eval_to_json env input dynamic_data pol) (parse_bool_from_result env))"

text \<open>Everything that can fail comes before the first change of the resolver; \<^verbatim>\<open>None\<close> is an error.\<close>

definition parsed_bundle :: "'w opa_env \<Rightarrow> str option \<Rightarrow> json option option" where
  "parsed_bundle env data_bundle_json =
     (case data_bundle_json of
        Some raw \<Rightarrow> if trim raw = [] then Some None else map_option Some (oe_parse env (trim raw))
      | None \<Rightarrow> Some None)"

definition opa_reload ::
  "'w opa_env \<Rightarrow> nat \<Rightarrow> str option \<Rightarrow> bytes \<Rightarrow> str option \<Rightarrow> 'w opa_resolver \<Rightarrow> bool \<times> 'w opa_resolver" where
  "opa_reload env version entrypoint wasm_bytes data_bundle_json pol =
     (let failed = (False, pol\<lparr>or_opa_load_status := OPA_STATUS_ERROR\<rparr>)
      in if wasm_bytes = [] then failed
         else case parsed_bundle env data_bundle_json of
           None \<Rightarrow> failed
         | Some bundle \<Rightarrow>
             (case oe_instantiate env wasm_bytes data_bundle_json of
                None \<Rightarrow> failed
              | Some wasm \<Rightarrow>
                  (True, pol\<lparr> or_wasm := Some wasm, or_policy_loaded := True, or_policy_version := version,
                            or_entrypoint := entrypoint, or_base_data_bundle := bundle,
                            or_opa_load_status := OPA_STATUS_OK, or_logged_missing := False \<rparr>)))"

definition opa_status :: "'w opa_resolver \<Rightarrow> nat \<times> nat" where
  "opa_status pol = (or_policy_version pol, or_opa_load_status pol)"

definition opa_unload :: "'w opa_resolver \<Rightarrow> 'w opa_resolver" where
  "opa_unload pol =
     pol\<lparr> or_wasm := None, or_policy_loaded := False, or_policy_version := 0, or_entrypoint := None,
        or_base_data_bundle := None, or_opa_load_status := OPA_STATUS_OK, or_logged_missing := False \<rparr>"

definition has_policy :: "'w opa_resolver \<Rightarrow> bool" where
  "has_policy pol = or_policy_loaded pol"



section \<open>The identities a policy sees\<close>

text \<open>\<^verbatim>\<open>show\<close> is the \<^verbatim>\<open>Display\<close> of a UUID.\<close>

definition format_prefixed_uuid :: "(bytes \<Rightarrow> str) \<Rightarrow> str \<Rightarrow> bytes \<Rightarrow> str" where
  "format_prefixed_uuid show pre bs = pre @ '':'' @ show bs"

definition role_hash_value :: "bytes \<Rightarrow> json" where
  "role_hash_value hash = (if sha256_bytes_is_zero hash then JNull else JStr (sha256_bytes_to_hex hash))"

definition definition_hashes_value :: "bytes list \<Rightarrow> nat \<Rightarrow> json" where
  "definition_hashes_value hashes n = JArr (map (\<lambda>hash. JStr (sha256_bytes_to_hex hash)) (take (min n (length hashes)) hashes))"

definition registration_of :: "nat \<Rightarrow> str" where
  "registration_of b = (if b = 0 then ''temporary'' else if b = 1 then ''partial'' else if b = 2 then ''complete'' else ''temporary'')"

definition ilk_type_of :: "nat \<Rightarrow> str" where
  "ilk_type_of b = (if b = 0 then ''human'' else if b = 1 then ''agent'' else if b = 2 then ''system'' else ''unknown'')"

definition identity_payload :: "(bytes \<Rightarrow> str) \<Rightarrow> ilk_entry \<Rightarrow> json" where
  "identity_payload show ilk =
     JObj [(''tenant_id'', JStr (format_prefixed_uuid show ''tnt'' (il_tenant_id ilk))),
           (''ilk_type'', JStr (ilk_type_of (il_ilk_type ilk))),
           (''registration_status'', JStr (registration_of (il_registration_status ilk))),
           (''handler_node'', JStr (fixed_str (il_handler_node ilk))),
           (''role_hash'', role_hash_value (il_role_hash ilk)),
           (''skill_hashes'', definition_hashes_value (il_skill_hashes ilk) (il_skill_count ilk)),
           (''handbook_hashes'', definition_hashes_value (il_handbook_hashes ilk) (il_handbook_count ilk)),
           (''personality_hash'', role_hash_value (il_personality_hash ilk))]"

definition live_alias :: "nat \<Rightarrow> ilk_alias_entry \<Rightarrow> bool" where
  "live_alias now_ms alias = (ia_flags alias AND FLAG_ACTIVE \<noteq> 0 \<and> ia_expires_at alias > now_ms)"

definition inject_identity_data :: "(bytes \<Rightarrow> str) \<Rightarrow> nat \<Rightarrow> identity_snapshot \<Rightarrow> json \<Rightarrow> json" where
  "inject_identity_data show now_ms snapshot root =
     (case root of
        JObj kvs \<Rightarrow>
          let identity = fold (\<lambda>ilk. AList.update (format_prefixed_uuid show ''ilk'' (il_ilk_id ilk)) (identity_payload show ilk))
                (filter (\<lambda>ilk. il_flags ilk AND FLAG_ACTIVE \<noteq> 0) (sn_ilks snapshot)) [];
              aliases = fold (\<lambda>a. AList.update (format_prefixed_uuid show ''ilk'' (ia_old_ilk_id a))
                  (JStr (format_prefixed_uuid show ''ilk'' (ia_canonical_ilk_id a))))
                (filter (live_alias now_ms) (sn_ilk_aliases snapshot)) []
          in JObj (AList.update ''identity_aliases'' (JObj aliases) (AList.update ''identity'' (JObj identity) kvs))
      | _ \<Rightarrow> root)"

definition build_dynamic_identity_opa_data :: "(bytes \<Rightarrow> str) \<Rightarrow> nat \<Rightarrow> identity_snapshot \<Rightarrow> json" where
  "build_dynamic_identity_opa_data show now_ms snapshot = inject_identity_data show now_ms snapshot (JObj [])"


section \<open>Taking a policy from the region\<close>

record opa_header =
  oh_policy_version :: nat
  oh_wasm_size :: nat
  oh_wasm_hash :: bytes
  oh_status :: nat
  oh_entrypoint :: str

record opa_snapshot =
  op_header :: opa_header
  op_wasm :: bytes

record opa_reload_payload =
  ol_version :: nat
  ol_hash :: "str option"

text \<open>What the router has at hand when it takes a policy: the file of the data bundle, the identity snapshot
  if it can be read, and the clock.\<close>

datatype file_read = NotFound | Unreadable | Content str

record opa_site =
  si_bundle_file :: file_read
  si_identity :: "identity_snapshot option"
  si_show :: "bytes \<Rightarrow> str"
  si_now :: nat

text \<open>The resolver and the two fields of the router's region that report it.\<close>

record 'w opa_state =
  os_resolver :: "'w opa_resolver"
  os_shm_version :: nat
  os_shm_status :: nat

definition update_opa_status :: "nat \<Rightarrow> nat \<Rightarrow> 'w opa_state \<Rightarrow> 'w opa_state" where
  "update_opa_status version status s = s\<lparr>os_shm_version := version, os_shm_status := status\<rparr>"

definition unload_opa_user_policy :: "'w opa_state \<Rightarrow> 'w opa_state" where
  "unload_opa_user_policy s = update_opa_status 0 OPA_STATUS_OK (s\<lparr>os_resolver := opa_unload (os_resolver s)\<rparr>)"

definition load_opa_data_bundle :: "'w opa_env \<Rightarrow> opa_site \<Rightarrow> str option option" where
  "load_opa_data_bundle env site =
     (case si_bundle_file site of
        NotFound \<Rightarrow> Some None
      | Unreadable \<Rightarrow> None
      | Content content \<Rightarrow>
          if trim content = [] then Some None
          else case oe_parse env content of
            None \<Rightarrow> None
          | Some root \<Rightarrow>
              Some (Some (oe_print env
                (case si_identity site of
                   Some snapshot \<Rightarrow> inject_identity_data (si_show site) (si_now site) snapshot root
                 | None \<Rightarrow> root))))"

definition apply_opa_snapshot :: "'w opa_env \<Rightarrow> opa_site \<Rightarrow> opa_snapshot \<Rightarrow> 'w opa_state \<Rightarrow> 'w opa_state" where
  "apply_opa_snapshot env site snapshot s =
     (let header = op_header snapshot in
      if op_wasm snapshot = []
      then if oh_policy_version header = 0 then unload_opa_user_policy s else s
      else let s = update_opa_status (oh_policy_version header) OPA_STATUS_LOADING s;
               entrypoint = (if oh_entrypoint header = [] then None else Some (oh_entrypoint header));
               data_bundle = unwrap_or None (load_opa_data_bundle env site);
               (_, resolver) = opa_reload env (oh_policy_version header) entrypoint (op_wasm snapshot) data_bundle
                 (os_resolver s);
               (version, status) = opa_status resolver
           in update_opa_status version status (s\<lparr>os_resolver := resolver\<rparr>))"

definition apply_opa_reload ::
  "'w opa_env \<Rightarrow> opa_site \<Rightarrow> opa_snapshot option \<Rightarrow> opa_reload_payload \<Rightarrow> 'w opa_state \<Rightarrow> 'w opa_state" where
  "apply_opa_reload env site region payload s =
     (case region of
        None \<Rightarrow> s
      | Some snapshot \<Rightarrow>
          (case ol_hash payload of
             None \<Rightarrow> s
           | Some hash \<Rightarrow>
               (case parse_sha256_hash hash of
                  None \<Rightarrow> s
                | Some expected \<Rightarrow>
                    if oh_wasm_hash (op_header snapshot) \<noteq> expected then s
                    else apply_opa_snapshot env site snapshot s)))"

text \<open>The timer; header and snapshot are two reads of the region.\<close>

definition maybe_refresh_opa_from_shm ::
  "'w opa_env \<Rightarrow> opa_site \<Rightarrow> opa_header option \<Rightarrow> opa_snapshot option \<Rightarrow> 'w opa_state \<Rightarrow> 'w opa_state" where
  "maybe_refresh_opa_from_shm env site read_header read_snapshot s =
     (case read_header of
        None \<Rightarrow> s
      | Some header \<Rightarrow>
          if oh_policy_version header = 0 \<and> oh_wasm_size header = 0 \<and> oh_status header = OPA_STATUS_OK
          then if has_policy (os_resolver s) then unload_opa_user_policy s else s
          else if oh_policy_version header = 0 \<or> oh_wasm_size header = 0 then s
          else if oh_status header = OPA_STATUS_LOADING then s
          else if oh_status header = OPA_STATUS_ERROR then s
          else if oh_policy_version header = fst (opa_status (os_resolver s)) then s
          else case read_snapshot of
            None \<Rightarrow> s
          | Some snapshot \<Rightarrow> apply_opa_snapshot env site snapshot s)"



section \<open>Lemmas\<close>

lemma hex_digit_nibble: "n < 16 \<Longrightarrow> hex_nibble (hex_digit n) = Some n"
  by (simp add: less_Suc_eq numeral_eq_Suc, elim disjE) (simp_all add: hex_digit_def hex_nibble_def)

lemma hex_pairs_hex: "hex_pairs (sha256_bytes_to_hex bs) = Some bs"
proof (induction bs)
  case (Cons b bs)
  have "of_char b < (256::nat)" by (metis mod_less_divisor of_char_mod_256 zero_less_numeral)
  then have "of_char b div 16 < (16::nat)" by linarith
  from hex_digit_nibble [OF this] show ?case using Cons by (simp add: sha256_bytes_to_hex_def hex_digit_nibble)
qed (simp add: sha256_bytes_to_hex_def)

lemma digest_roundtrip: "length bs = 32 \<Longrightarrow> parse_sha256_hash (format_sha256 bs) = Some bs"
proof -
  have "length (sha256_bytes_to_hex bs) = 2 * length bs" by (induction bs) (simp_all add: sha256_bytes_to_hex_def)
  then show "length bs = 32 \<Longrightarrow> parse_sha256_hash (format_sha256 bs) = Some bs"
    by (simp add: parse_sha256_hash_def format_sha256_def starts_with_def hex_pairs_hex)
qed

lemma opa_reload_outcome:
  "opa_reload env version entrypoint wasm bundle pol = (done, pol') \<Longrightarrow>
   if done then or_wasm pol' = oe_instantiate env wasm bundle \<and> or_wasm pol' \<noteq> None \<and> or_policy_loaded pol' \<and>
     or_policy_version pol' = version \<and> or_entrypoint pol' = entrypoint \<and> or_opa_load_status pol' = OPA_STATUS_OK
   else pol' = pol\<lparr>or_opa_load_status := OPA_STATUS_ERROR\<rparr>"
  by (auto simp: opa_reload_def Let_def split: if_splits option.splits)



section \<open>Properties\<close>

text \<open>A new policy replaces the old one whole or not at all.  After a snapshot with a module, the region
  reports the version and the status of the resolver, and either the resolver runs that module under that
  version and entry point, or it answers every message as before and its status is the error.\<close>

theorem policy_swap_atomic:
  assumes "op_wasm sn \<noteq> []" "s' = apply_opa_snapshot env site sn s"
  shows "(os_shm_version s', os_shm_status s') = opa_status (os_resolver s') \<and>
    (or_opa_load_status (os_resolver s') = OPA_STATUS_OK \<and> or_policy_loaded (os_resolver s') \<and>
       or_policy_version (os_resolver s') = oh_policy_version (op_header sn) \<and>
       or_entrypoint (os_resolver s') = (if oh_entrypoint (op_header sn) = [] then None else Some (oh_entrypoint (op_header sn))) \<and>
       (\<exists>w. or_wasm (os_resolver s') = Some w \<and>
         oe_instantiate env (op_wasm sn) (unwrap_or None (load_opa_data_bundle env site)) = Some w)
     \<or> or_opa_load_status (os_resolver s') = OPA_STATUS_ERROR \<and>
       or_policy_version (os_resolver s') = or_policy_version (os_resolver s) \<and>
       (\<forall>msg data. fst (resolve_target_with_data env msg data (os_resolver s')) =
          fst (resolve_target_with_data env msg data (os_resolver s))))"
proof -
  define ep where "ep = (if oh_entrypoint (op_header sn) = [] then None else Some (oh_entrypoint (op_header sn)))"
  define b where "b = unwrap_or None (load_opa_data_bundle env site)"
  obtain ok pol where r: "opa_reload env (oh_policy_version (op_header sn)) ep (op_wasm sn) b (os_resolver s) = (ok, pol)"
    by fastforce
  have s': "os_resolver s' = pol" "(os_shm_version s', os_shm_status s') = opa_status pol"
    using assms r by (simp_all add: apply_opa_snapshot_def Let_def update_opa_status_def opa_status_def ep_def b_def)
  show ?thesis
    unfolding s'(1) using opa_reload_outcome [OF r] s'(2)
    by (auto simp: resolve_target_with_data_def eval_to_json_def ep_def b_def split: if_splits option.splits)
qed


definition demo_oenv :: "bytes opa_env" where
  "demo_oenv = \<lparr> oe_parse = (\<lambda>s. Some (JStr s)), oe_print = (\<lambda>_. []), oe_meta = (\<lambda>_. JNull),
     oe_instantiate = (\<lambda>wasm _. if wasm = ''bad'' then None else Some wasm),
     oe_eval = (\<lambda>w _ _ _. Some w) \<rparr>"

definition demo_site :: opa_site where
  "demo_site = \<lparr> si_bundle_file = NotFound, si_identity = None, si_show = id, si_now = 0 \<rparr>"

definition demo_policy :: "bytes \<Rightarrow> opa_snapshot" where
  "demo_policy wasm = \<lparr> op_header = \<lparr> oh_policy_version = 3, oh_wasm_size = 4, oh_wasm_hash = ''h'', oh_status = OPA_STATUS_OK,
     oh_entrypoint = [] \<rparr>, op_wasm = wasm \<rparr>"

definition demo_ostate :: "bytes opa_state" where
  "demo_ostate = \<lparr> os_resolver = opa_new, os_shm_version = 0, os_shm_status = OPA_STATUS_OK \<rparr>"

lemmas demo_opa_defs = demo_oenv_def demo_site_def demo_policy_def demo_ostate_def opa_new_def load_opa_data_bundle_def
  parsed_bundle_def OPA_STATUS_OK_def OPA_STATUS_ERROR_def OPA_STATUS_LOADING_def

theorem policy_swap_atomic_witness:
  "or_opa_load_status (os_resolver (apply_opa_snapshot demo_oenv demo_site (demo_policy ''bad'') demo_ostate)) = OPA_STATUS_ERROR \<and>
   or_policy_version (os_resolver (apply_opa_snapshot demo_oenv demo_site (demo_policy ''bad'') demo_ostate)) = 0"
  using policy_swap_atomic [of "demo_policy ''bad''" _ demo_oenv demo_site demo_ostate, OF _ refl]
  by (auto simp: demo_opa_defs)


end
