(* ===== verification/Identity_Resolve.thy ===== *)
theory Identity_Resolve
  imports Opa_Policy
begin

text \<open>
  How a router chooses the destination of a message that names none (\<^verbatim>\<open>resolve_target_with_identity\<close> of
  \<^verbatim>\<open>src/src/router/mod.rs\<close>): the system's rule first, on who the sender is by the identity region, and only
  then the operator's policy, asked with the canonical identity of the sender.
\<close>

section \<open>Resolution\<close>

text \<open>The libraries and the two policies: \<^verbatim>\<open>Uuid::parse_str\<close> to bytes and its \<^verbatim>\<open>Display\<close>, the system's
  route rule as its engine answers it, and the operator's resolver as it stands.\<close>

record 'w resolve_env =
  re_parse :: "str \<Rightarrow> bytes option"
  re_show :: "bytes \<Rightarrow> str"
  re_route_eval :: "bool \<Rightarrow> str option \<Rightarrow> bool option"
  re_opa :: "'w opa_env"
  re_resolver :: "'w opa_resolver"

definition parse_prefixed_uuid_bytes :: "(str \<Rightarrow> bytes option) \<Rightarrow> str \<Rightarrow> str \<Rightarrow> bytes option" where
  "parse_prefixed_uuid_bytes parse value pre =
     (let expected = pre @ '':''; raw = trim value
      in if starts_with raw expected then parse (drop (length expected) raw) else None)"

definition get_src_ilk_from_meta :: "meta \<Rightarrow> str option" where
  "get_src_ilk_from_meta meta = non_blank (mt_src_ilk meta)"

definition set_src_ilk_in_meta :: "str \<Rightarrow> message \<Rightarrow> message" where
  "set_src_ilk_in_meta src_ilk msg = msg\<lparr>msg_meta := (msg_meta msg)\<lparr>mt_src_ilk := Some src_ilk\<rparr>\<rparr>"

definition status_of :: "nat \<Rightarrow> str" where
  "status_of b = (if b = 0 then ''temporary'' else if b = 1 then ''partial'' else if b = 2 then ''complete'' else ''unknown'')"

definition canonical_of :: "identity_snapshot \<Rightarrow> nat \<Rightarrow> bytes \<Rightarrow> bytes" where
  "canonical_of snapshot now_ms src =
     (case find (\<lambda>a. live_alias now_ms a \<and> ia_old_ilk_id a = src) (sn_ilk_aliases snapshot) of
        Some a \<Rightarrow> ia_canonical_ilk_id a
      | None \<Rightarrow> src)"

definition canonicalize_src_ilk_and_status ::
  "'w resolve_env \<Rightarrow> identity_snapshot \<Rightarrow> str \<Rightarrow> nat \<Rightarrow> str option \<times> str option" where
  "canonicalize_src_ilk_and_status env snapshot src_ilk now_ms =
     (case parse_prefixed_uuid_bytes (re_parse env) src_ilk ''ilk'' of
        None \<Rightarrow> (None, None)
      | Some src \<Rightarrow>
          let canonical = canonical_of snapshot now_ms src
          in (Some (format_prefixed_uuid (re_show env) ''ilk'' canonical),
              map_option (\<lambda>ilk. status_of (il_registration_status ilk))
                (find (active_ilk canonical) (sn_ilks snapshot))))"

text \<open>The target it forces, if any, and the message as it leaves it.\<close>

definition apply_identity_pre_resolve ::
  "'w resolve_env \<Rightarrow> message \<Rightarrow> str \<Rightarrow> identity_snapshot \<Rightarrow> nat \<Rightarrow> str option \<times> message" where
  "apply_identity_pre_resolve env msg frontdesk snapshot now_ms =
     (case get_src_ilk_from_meta (msg_meta msg) of
        None \<Rightarrow> (None, msg)
      | Some src_ilk \<Rightarrow>
          (case canonicalize_src_ilk_and_status env snapshot src_ilk now_ms of
             (None, _) \<Rightarrow> (None, msg)
           | (Some canonical, status) \<Rightarrow>
               let msg = (if canonical \<noteq> src_ilk then set_src_ilk_in_meta canonical msg else msg)
               in (if route_to_frontdesk (re_route_eval env) status True then Some frontdesk else None, msg)))"

definition resolve_target_with_identity ::
  "'w resolve_env \<Rightarrow> str \<Rightarrow> identity_snapshot option \<Rightarrow> nat \<Rightarrow> message \<Rightarrow> str option option" where
  "resolve_target_with_identity env frontdesk region now_ms msg =
     (if get_src_ilk_from_meta (msg_meta msg) = None \<and> route_to_frontdesk (re_route_eval env) None False
      then Some (Some frontdesk)
      else case region of
        Some snapshot \<Rightarrow>
          (case apply_identity_pre_resolve env msg frontdesk snapshot now_ms of
             (Some forced, _) \<Rightarrow> Some (Some forced)
           | (None, msg_for_opa) \<Rightarrow>
               fst (resolve_target_with_data (re_opa env) msg_for_opa
                 (Some (build_dynamic_identity_opa_data (re_show env) now_ms snapshot)) (re_resolver env)))
      | None \<Rightarrow> fst (resolve_target_with_data (re_opa env) msg None (re_resolver env)))"



section \<open>A person just written is the one that is read\<close>

lemma find_updated:
  assumes "position p xs = Some idx" "p e"
  shows "find p (xs[idx := e]) = Some e"
proof -
  have "idx < length xs \<and> (\<forall>j < idx. \<not> p (xs ! j))" using assms(1) by (auto simp: position_def find_Some_iff)
  with assms(2) show ?thesis by (auto simp: find_Some_iff intro!: exI [of _ idx])
qed

lemma find_pushed: "\<forall>x \<in> set xs. \<not> p x \<Longrightarrow> p e \<Longrightarrow> find p (xs @ [e]) = Some e"
  by (induction xs) auto

lemma active_ilk_updates [simp]:
  "active_ilk i (e\<lparr>il_created_at := t\<rparr>) = active_ilk i e"
  "active_ilk i (e\<lparr>il_ich_offset := k, il_ich_count := n\<rparr>) = active_ilk i e"
  by (simp_all add: active_ilk_def)

lemma written_person_found:
  assumes r: "region_ok r" and e: "active_ilk (il_ilk_id e) e"
    and w: "upsert_ilk_entry now e r = (Inr (), r') \<or> provision_temporary_ilk now e es r = (Inr (), r')"
  shows "(\<exists>e'. find (active_ilk (il_ilk_id e)) (take (ir_ilk_count r') (ir_ilks r')) = Some e' \<and>
      il_registration_status e' = il_registration_status e) \<and>
    ir_ilk_alias_count r' = ir_ilk_alias_count r \<and> ir_aliases r' = ir_aliases r"
proof -
  note ok = region_okD [OF r] and cap = limits_okD(1) [OF region_okD(1) [OF r]]
  let ?p = "active_ilk (il_ilk_id e)" and ?used = "ir_ilk_count r"
  have pushed: "find ?p (take (saturating_add 32 ?used (Suc 0)) ((ir_ilks r)[?used := e'])) = Some e'"
    if "position ?p (take ?used (ir_ilks r)) = None" "?used < max_ilks (ir_limits r)" "?p e'" for e'
  proof -
    have "saturating_add 32 ?used (Suc 0) = Suc ?used" using saturating_within [of ?used "Suc 0", OF _ cap] that(2) by simp
    then show ?thesis
      using compact_push(2) [OF ok(3) that(2), of e'] that(1,3) by (simp add: position_None find_pushed)
  qed
  from w show ?thesis
  proof
    assume u: "upsert_ilk_entry now e r = (Inr (), r')"
    show ?thesis
    proof (cases "position ?p (take ?used (ir_ilks r))")
      case None
      then show ?thesis using u e pushed [OF None _ e]
        by (auto simp: upsert_ilk_entry_def find_ilk_entry_index_def Let_def split: if_splits)
    next
      case (Some idx)
      let ?e = "e\<lparr>il_created_at := il_created_at (ir_ilks r ! idx)\<rparr>"
      have "find ?p (take ?used ((ir_ilks r)[idx := ?e])) = Some ?e"
        using find_updated [OF Some, of ?e] e by (simp add: take_update_swap)
      then show ?thesis using u Some
        by (auto simp: upsert_ilk_entry_def find_ilk_entry_index_def Let_def split: if_splits)
    qed
  next
    assume v: "provision_temporary_ilk now e es r = (Inr (), r')"
    then have "position ?p (take ?used (ir_ilks r)) = None" "?used < max_ilks (ir_limits r)"
      by (auto simp: provision_temporary_ilk_def find_ilk_entry_index_def Let_def split: if_splits)
    from pushed [OF this] v e show ?thesis
      by (auto simp: provision_temporary_ilk_def Let_def split: if_splits prod.splits)
  qed
qed

lemma read_after_write:
  assumes "region_ok r" "region_ok r'" "ir_ilk_alias_count r' = ir_ilk_alias_count r" "ir_aliases r' = ir_aliases r"
  shows "\<exists>sn. read_identity_snapshot r' = Inr sn \<and> sn_ilks sn = take (ir_ilk_count r') (ir_ilks r') \<and>
    sn_ilk_aliases sn = take (ir_ilk_alias_count r) (ir_aliases r)"
proof -
  note d = region_okD [OF assms(2)]
  have "ir_ich_mapping_count r' \<le> max_ich_mappings (ir_limits r')"
    using d(7,9) length_filter_le [of occupied "ir_mappings r'"] by simp
  then show ?thesis using d(2-6) assms(3,4) by (simp add: read_identity_snapshot_def compact_def)
qed


section \<open>Properties\<close>

text \<open>C15: what SY.identity writes about a person decides where the person's messages go.  Once it has written
  a person as temporary, every message of theirs that names no destination goes to the frontdesk, whatever the
  operator's policy says; once it has written another status, the operator's policy decides, and sees the person
  under the canonical identity.  This holds for persons no live alias redirects, when the engine answers the
  route rule as written.\<close>

theorem registration_decides_route:
  assumes r: "region_ok r" and e: "active_ilk (il_ilk_id e) e"
    and w: "upsert_ilk_entry now e r = (Inr (), r') \<or> provision_temporary_ilk now e es r = (Inr (), r')"
    and rule: "\<And>present status. re_route_eval env present status = Some (frontdesk_route present status)"
    and src: "get_src_ilk_from_meta (msg_meta msg) = Some src"
      "parse_prefixed_uuid_bytes (re_parse env) src ''ilk'' = Some (il_ilk_id e)"
    and direct: "\<forall>a \<in> set (take (ir_ilk_alias_count r) (ir_aliases r)). \<not> (live_alias t a \<and> ia_old_ilk_id a = il_ilk_id e)"
    and canonical: "canonical = format_prefixed_uuid (re_show env) ''ilk'' (il_ilk_id e)"
  shows "\<exists>sn. read_identity_snapshot r' = Inr sn \<and>
    resolve_target_with_identity env frontdesk (Some sn) t msg =
      (if il_registration_status e = 0 then Some (Some frontdesk)
       else fst (resolve_target_with_data (re_opa env) (if canonical \<noteq> src then set_src_ilk_in_meta canonical msg else msg)
              (Some (build_dynamic_identity_opa_data (re_show env) t sn)) (re_resolver env)))"
proof -
  have r': "region_ok r'"
    using w region_ok_tables(2) [OF r, of now e] region_ok_channels(2) [OF r, of now e es] by auto
  from written_person_found [OF r e w] obtain e' where
    e': "find (active_ilk (il_ilk_id e)) (take (ir_ilk_count r') (ir_ilks r')) = Some e'"
      "il_registration_status e' = il_registration_status e"
    and al: "ir_ilk_alias_count r' = ir_ilk_alias_count r" "ir_aliases r' = ir_aliases r" by blast
  from read_after_write [OF r r' al] obtain sn where sn: "read_identity_snapshot r' = Inr sn"
    "sn_ilks sn = take (ir_ilk_count r') (ir_ilks r')" "sn_ilk_aliases sn = take (ir_ilk_alias_count r) (ir_aliases r)" by blast
  have "find (\<lambda>a. live_alias t a \<and> ia_old_ilk_id a = il_ilk_id e) (sn_ilk_aliases sn) = None"
    using direct sn(3) by (auto simp: find_None_iff)
  then have "canonicalize_src_ilk_and_status env sn src t = (Some canonical, Some (status_of (il_registration_status e)))"
    using src(2) e' sn(2) canonical by (simp add: canonicalize_src_ilk_and_status_def canonical_of_def Let_def)
  then have "apply_identity_pre_resolve env msg frontdesk sn t =
      (if il_registration_status e = 0 then Some frontdesk else None, if canonical \<noteq> src then set_src_ilk_in_meta canonical msg else msg)"
    using src(1) rule by (simp add: apply_identity_pre_resolve_def route_to_frontdesk_def frontdesk_route_def status_of_def Let_def)
  with sn(1) src(1) show ?thesis by (simp add: resolve_target_with_identity_def)
qed

definition demo_resolve :: "bytes resolve_env" where
  "demo_resolve = \<lparr> re_parse = (\<lambda>_. Some zero_id), re_show = (\<lambda>_. ''u''),
     re_route_eval = (\<lambda>present status. Some (frontdesk_route present status)), re_opa = demo_oenv, re_resolver = opa_new \<rparr>"

definition demo_person :: ilk_entry where
  "demo_person = empty_ilk_entry\<lparr>il_flags := FLAG_ACTIVE\<rparr>"

definition demo_asked :: message where
  "demo_asked = build_system_message ''u'' Resolve 3 ''t'' ''M'' JNull
     \<lparr> msg_meta := meta_default \<lparr> mt_msg_type := ''user'', mt_src_ilk := Some ''ilk:u'' \<rparr> \<rparr>"

lemma trim_demo: "trim ''ilk:u'' = ''ilk:u''"
  by code_simp

theorem registration_decides_route_witness:
  "\<exists>sn. read_identity_snapshot (snd (upsert_ilk_entry 1 demo_person (initialize_identity_header demo_limits 0))) = Inr sn \<and>
     resolve_target_with_identity demo_resolve ''SY.frontdesk'' (Some sn) 5 demo_asked = Some (Some ''SY.frontdesk'')"
proof -
  let ?r = "initialize_identity_header demo_limits 0"
  have person: "active_ilk (il_ilk_id demo_person) demo_person"
    by (simp add: active_ilk_def demo_person_def FLAG_ACTIVE_def)
  have written: "upsert_ilk_entry 1 demo_person ?r = (Inr (), snd (upsert_ilk_entry 1 demo_person ?r))"
    by (simp add: upsert_ilk_entry_def initialize_identity_header_def demo_limits_def find_ilk_entry_index_def
        position_def Let_def)
  have asked: "get_src_ilk_from_meta (msg_meta demo_asked) = Some ''ilk:u''"
    "parse_prefixed_uuid_bytes (re_parse demo_resolve) ''ilk:u'' ''ilk'' = Some (il_ilk_id demo_person)"
    by (simp_all add: get_src_ilk_from_meta_def demo_asked_def non_blank_def trim_demo parse_prefixed_uuid_bytes_def
        starts_with_def demo_resolve_def demo_person_def empty_ilk_entry_def)
  have "il_registration_status demo_person = 0" by (simp add: demo_person_def empty_ilk_entry_def)
  with registration_decides_route [where es = "[]" and t = 5 and frontdesk = "''SY.frontdesk''" and env = demo_resolve,
      OF initial_region_ok [OF demo_limits_ok] person disjI1 [OF written] _ asked _ refl]
  show ?thesis by (simp add: demo_resolve_def initialize_identity_header_def)
qed

end
