(* ===== verification/Router_Region.thy ===== *)
theory Router_Region
  imports Identity_Region
begin

text \<open>
  The region in which a router shows its nodes to its siblings and to SY.orchestrator
  (\<^verbatim>\<open>RouterRegionWriter\<close> of \<^verbatim>\<open>src/src/shm/mod.rs\<close>): slots that registration fills and unregistration
  leaves as holes, as a finite map from the UUIDs of the nodes.
\<close>

section \<open>The region\<close>

definition MAX_NODES :: nat where "MAX_NODES = 1024"

record node_entry =
  ne_uuid :: uuid
  ne_name :: bytes
  ne_name_len :: nat
  ne_vpn_id :: nat
  ne_flags :: flags
  ne_connected_at :: nat

definition empty_node_entry :: node_entry where
  "empty_node_entry =
     \<lparr> ne_uuid = zero_id, ne_name = zeros 256, ne_name_len = 0, ne_vpn_id = 0, ne_flags = 0, ne_connected_at = 0 \<rparr>"

record router_region =
  rr_router_uuid :: uuid
  rr_generation :: nat
  rr_node_count :: nat
  rr_hive_id :: str
  rr_router_name :: str
  rr_is_gateway :: bool
  rr_updated_at :: nat
  rr_heartbeat :: nat
  rr_nodes :: "node_entry list"

definition initialize_router_header :: "uuid \<Rightarrow> str \<Rightarrow> str \<Rightarrow> bool \<Rightarrow> nat \<Rightarrow> router_region" where
  "initialize_router_header router_uuid hive_id router_name is_gateway now =
     \<lparr> rr_router_uuid = router_uuid, rr_generation = 1, rr_node_count = 0, rr_hive_id = take 64 hive_id,
       rr_router_name = take 64 router_name, rr_is_gateway = is_gateway, rr_updated_at = now, rr_heartbeat = now,
       rr_nodes = replicate MAX_NODES empty_node_entry \<rparr>"

definition active_node :: "node_entry \<Rightarrow> bool" where
  "active_node e = (ne_flags e AND FLAG_ACTIVE \<noteq> 0)"

definition count_active_nodes :: "node_entry list \<Rightarrow> nat" where
  "count_active_nodes nodes = length (filter active_node nodes)"

definition touched :: "nat \<Rightarrow> router_region \<Rightarrow> router_region" where
  "touched now r = r\<lparr>rr_updated_at := now, rr_heartbeat := now\<rparr>"

definition take_over :: "uuid \<Rightarrow> str \<Rightarrow> str \<Rightarrow> bool \<Rightarrow> nat \<Rightarrow> router_region \<Rightarrow> router_region" where
  "take_over router_uuid hive_id router_name is_gateway now r =
     touched now (r\<lparr> rr_nodes := map (\<lambda>_. empty_node_entry) (rr_nodes r), rr_node_count := 0,
       rr_router_uuid := router_uuid, rr_generation := saturating_add 64 (rr_generation r) 1,
       rr_hive_id := take 64 hive_id, rr_router_name := take 64 router_name, rr_is_gateway := is_gateway \<rparr>)"

definition node_entry_for :: "uuid \<Rightarrow> str \<Rightarrow> nat \<Rightarrow> nat \<Rightarrow> node_entry" where
  "node_entry_for node_uuid name vpn_id connected_at =
     empty_node_entry\<lparr> ne_uuid := node_uuid, ne_name := copied_into (zeros 256) name, ne_name_len := min (length name) 256,
       ne_vpn_id := vpn_id, ne_flags := FLAG_ACTIVE, ne_connected_at := connected_at \<rparr>"

definition register_node ::
  "nat \<Rightarrow> uuid \<Rightarrow> str \<Rightarrow> nat \<Rightarrow> nat \<Rightarrow> router_region \<Rightarrow> (shm_error + unit) \<times> router_region" where
  "register_node now node_uuid name vpn_id connected_at r =
     (if length name > 256 then (Inl (ValueTooLong (length name) 256), r)
      else case or_else (position (\<lambda>e. active_node e \<and> ne_uuid e = node_uuid) (rr_nodes r))
                  (position (\<lambda>e. \<not> active_node e) (rr_nodes r)) of
        None \<Rightarrow> (Inl SlotFull, r)
      | Some slot \<Rightarrow>
          let nodes = (rr_nodes r)[slot := node_entry_for node_uuid name vpn_id connected_at]
          in (Inr (), touched now (r\<lparr>rr_nodes := nodes, rr_node_count := count_active_nodes nodes\<rparr>)))"

definition unregister_node :: "nat \<Rightarrow> uuid \<Rightarrow> router_region \<Rightarrow> router_region" where
  "unregister_node now node_uuid r =
     (case position (\<lambda>e. active_node e \<and> ne_uuid e = node_uuid) (rr_nodes r) of
        None \<Rightarrow> r
      | Some slot \<Rightarrow>
          let nodes = (rr_nodes r)[slot := empty_node_entry\<lparr>ne_flags := FLAG_DELETED\<rparr>]
          in touched now (r\<lparr>rr_nodes := nodes, rr_node_count := count_active_nodes nodes\<rparr>))"

definition update_node_vpn :: "nat \<Rightarrow> uuid \<Rightarrow> nat \<Rightarrow> router_region \<Rightarrow> router_region" where
  "update_node_vpn now node_uuid vpn_id r =
     (case position (\<lambda>e. active_node e \<and> ne_uuid e = node_uuid) (rr_nodes r) of
        None \<Rightarrow> r
      | Some slot \<Rightarrow>
          touched now (r\<lparr>rr_nodes := (rr_nodes r)[slot := (rr_nodes r ! slot)\<lparr>ne_vpn_id := vpn_id\<rparr>]\<rparr>))"

text \<open>The nodes a reader sees: the active ones, as many as the header counts.\<close>

definition read_router_snapshot :: "router_region \<Rightarrow> node_entry list" where
  "read_router_snapshot r = take (rr_node_count r) (filter active_node (rr_nodes r))"


section \<open>Slots with unique keys\<close>

definition slots_ok :: "('e \<Rightarrow> bool) \<Rightarrow> ('e \<Rightarrow> 'k) \<Rightarrow> 'e list \<Rightarrow> bool" where
  "slots_ok act key xs \<longleftrightarrow>
     (\<forall>i < length xs. \<forall>j < length xs. act (xs ! i) \<and> act (xs ! j) \<and> key (xs ! i) = key (xs ! j) \<longrightarrow> i = j)"

definition slot_of :: "('e \<Rightarrow> bool) \<Rightarrow> ('e \<Rightarrow> 'k) \<Rightarrow> 'e list \<Rightarrow> 'k \<rightharpoonup> 'e" where
  "slot_of act key xs = (\<lambda>k. find (\<lambda>e. act e \<and> key e = k) xs)"

lemma slot_of_None: "slot_of act key xs k = None \<longleftrightarrow> (\<forall>e \<in> set xs. \<not> (act e \<and> key e = k))"
  by (auto simp: slot_of_def find_None_iff)

lemma slot_of_Some:
  assumes "slots_ok act key xs"
  shows "slot_of act key xs k = Some e \<longleftrightarrow> (\<exists>i < length xs. xs ! i = e \<and> act e \<and> key e = k)"
proof
  assume "slot_of act key xs k = Some e"
  then show "\<exists>i < length xs. xs ! i = e \<and> act e \<and> key e = k" by (auto simp: slot_of_def find_Some_iff)
next
  assume "\<exists>i < length xs. xs ! i = e \<and> act e \<and> key e = k"
  then obtain i where i: "i < length xs" "xs ! i = e" "act e" "key e = k" by blast
  then have "slot_of act key xs k \<noteq> None" unfolding slot_of_None by (metis nth_mem)
  then obtain e' where e': "slot_of act key xs k = Some e'" by blast
  then obtain j where "j < length xs" "xs ! j = e'" "act e'" "key e' = k" by (auto simp: slot_of_def find_Some_iff)
  with assms i have "j = i" unfolding slots_ok_def by metis
  with e' i \<open>xs ! j = e'\<close> show "slot_of act key xs k = Some e" by simp
qed

text \<open>Writing a slot that was free or had the key.\<close>

lemma slots_write:
  assumes ok: "slots_ok act key xs" and i: "i < length xs" and e: "act e" "key e = k"
    and free: "\<not> act (xs ! i) \<and> (\<forall>x \<in> set xs. \<not> (act x \<and> key x = k)) \<or> act (xs ! i) \<and> key (xs ! i) = k"
  shows "slots_ok act key (xs[i := e])" "slot_of act key (xs[i := e]) = (slot_of act key xs)(k \<mapsto> e)"
proof -
  have other: "\<not> (act (xs ! j) \<and> key (xs ! j) = k)" if "j < length xs" "j \<noteq> i" for j
    using free ok i that unfolding slots_ok_def by (metis nth_mem)
  show ok': "slots_ok act key (xs[i := e])"
    unfolding slots_ok_def
  proof (intro allI impI)
    fix a b
    assume "a < length (xs[i := e])" "b < length (xs[i := e])"
      "act (xs[i := e] ! a) \<and> act (xs[i := e] ! b) \<and> key (xs[i := e] ! a) = key (xs[i := e] ! b)"
    with other [of a] other [of b] e ok i show "a = b"
      by (cases "a = i"; cases "b = i") (auto simp: slots_ok_def)
  qed
  show "slot_of act key (xs[i := e]) = (slot_of act key xs)(k \<mapsto> e)"
  proof
    fix k'
    show "slot_of act key (xs[i := e]) k' = ((slot_of act key xs)(k \<mapsto> e)) k'"
    proof (cases "k' = k")
      case True
      then show ?thesis using slot_of_Some [OF ok', of k e] i e by auto
    next
      case False
      have "slot_of act key (xs[i := e]) k' = Some x \<longleftrightarrow> slot_of act key xs k' = Some x" for x
        unfolding slot_of_Some [OF ok'] slot_of_Some [OF ok] using False free e i
        by (metis length_list_update nth_list_update_eq nth_list_update_neq)
      then show ?thesis using False by (metis fun_upd_other not_Some_eq)
    qed
  qed
qed

lemma slots_clear:
  assumes ok: "slots_ok act key xs" and i: "i < length xs" "act (xs ! i)" and e: "\<not> act e"
  shows "slots_ok act key (xs[i := e])" "slot_of act key (xs[i := e]) = (slot_of act key xs)(key (xs ! i) := None)"
proof -
  show ok': "slots_ok act key (xs[i := e])"
    unfolding slots_ok_def
  proof (intro allI impI)
    fix a b
    assume "a < length (xs[i := e])" "b < length (xs[i := e])"
      "act (xs[i := e] ! a) \<and> act (xs[i := e] ! b) \<and> key (xs[i := e] ! a) = key (xs[i := e] ! b)"
    with e ok i show "a = b" by (cases "a = i"; cases "b = i") (auto simp: slots_ok_def)
  qed
  show "slot_of act key (xs[i := e]) = (slot_of act key xs)(key (xs ! i) := None)"
  proof
    fix k
    have "slot_of act key (xs[i := e]) k = Some x \<longleftrightarrow> slot_of act key xs k = Some x \<and> k \<noteq> key (xs ! i)" for x
      unfolding slot_of_Some [OF ok'] slot_of_Some [OF ok] using e i ok unfolding slots_ok_def
      by (metis length_list_update nth_list_update_eq nth_list_update_neq)
    then show "slot_of act key (xs[i := e]) k = ((slot_of act key xs)(key (xs ! i) := None)) k"
      by (cases "k = key (xs ! i)") (metis fun_upd_same fun_upd_other not_Some_eq)+
  qed
qed



section \<open>The nodes it shows\<close>

definition nodes_shown :: "router_region \<Rightarrow> uuid \<rightharpoonup> node_entry" where
  "nodes_shown r = slot_of active_node ne_uuid (rr_nodes r)"

definition rr_ok :: "router_region \<Rightarrow> bool" where
  "rr_ok r \<longleftrightarrow> slots_ok active_node ne_uuid (rr_nodes r) \<and> rr_node_count r = count_active_nodes (rr_nodes r)"

lemma touched_simps [simp]:
  "rr_nodes (touched now r) = rr_nodes r" "rr_node_count (touched now r) = rr_node_count r"
  by (simp_all add: touched_def)

lemma node_entry_for_simps [simp]:
  "active_node (node_entry_for u name vpn t)" "ne_uuid (node_entry_for u name vpn t) = u"
  "ne_vpn_id (node_entry_for u name vpn t) = vpn" "ne_connected_at (node_entry_for u name vpn t) = t"
  "\<not> active_node empty_node_entry" "\<not> active_node (empty_node_entry\<lparr>ne_flags := FLAG_DELETED\<rparr>)"
  by (simp_all add: node_entry_for_def active_node_def empty_node_entry_def FLAG_ACTIVE_def FLAG_DELETED_def)

lemma initial_nodes: "rr_ok (initialize_router_header u h n g now) \<and> nodes_shown (initialize_router_header u h n g now) = Map.empty"
  by (auto simp: initialize_router_header_def rr_ok_def slots_ok_def count_active_nodes_def nodes_shown_def
      slot_of_None filter_empty_conv)

lemma taken_over: "rr_ok (take_over u h n g now r) \<and> nodes_shown (take_over u h n g now r) = Map.empty"
  by (auto simp: take_over_def rr_ok_def slots_ok_def count_active_nodes_def nodes_shown_def slot_of_None
      filter_empty_conv)

lemma register_node_outcome:
  assumes "rr_ok r"
  shows "case register_node now u name vpn t r of
      (Inr _, r') \<Rightarrow> rr_ok r' \<and> length name \<le> 256 \<and> nodes_shown r' = (nodes_shown r)(u \<mapsto> node_entry_for u name vpn t)
    | (Inl err, r') \<Rightarrow> r' = r \<and> (length name > 256 \<or>
        err = SlotFull \<and> nodes_shown r u = None \<and> (\<forall>e \<in> set (rr_nodes r). active_node e))"
proof (cases "length name > 256")
  case False
  let ?own = "position (\<lambda>e. active_node e \<and> ne_uuid e = u) (rr_nodes r)"
  let ?free = "position (\<lambda>e. \<not> active_node e) (rr_nodes r)"
  let ?e = "node_entry_for u name vpn t"
  have ok: "slots_ok active_node ne_uuid (rr_nodes r)" using assms by (simp add: rr_ok_def)
  show ?thesis
  proof (cases "or_else ?own ?free")
    case None
    then have "?own = None" "?free = None" by (auto simp: or_else_def split: option.splits)
    then have "nodes_shown r u = None \<and> (\<forall>e \<in> set (rr_nodes r). active_node e)"
      by (simp add: nodes_shown_def slot_of_None position_None)
    with None False show ?thesis by (simp add: register_node_def)
  next
    case (Some i)
    have i: "i < length (rr_nodes r) \<and> (\<not> active_node (rr_nodes r ! i) \<and>
        (\<forall>x \<in> set (rr_nodes r). \<not> (active_node x \<and> ne_uuid x = u)) \<or> active_node (rr_nodes r ! i) \<and> ne_uuid (rr_nodes r ! i) = u)"
    proof (cases ?own)
      case None
      with Some position_Some [of "\<lambda>e. \<not> active_node e" "rr_nodes r" i] show ?thesis by (auto simp: position_None)
    next
      case (Some j)
      with \<open>or_else ?own ?free = Some i\<close> position_Some [OF Some] show ?thesis by simp
    qed
    from slots_write [OF ok conjunct1 [OF i] _ _ conjunct2 [OF i], of ?e] Some False show ?thesis
      by (simp add: register_node_def rr_ok_def nodes_shown_def Let_def)
  qed
qed (simp add: register_node_def)

lemma unregister_node_outcome:
  assumes "rr_ok r"
  shows "rr_ok (unregister_node now u r) \<and> nodes_shown (unregister_node now u r) = (nodes_shown r)(u := None)"
proof (cases "position (\<lambda>e. active_node e \<and> ne_uuid e = u) (rr_nodes r)")
  case None
  then have "nodes_shown r u = None" by (auto simp: nodes_shown_def slot_of_None position_None)
  with None assms show ?thesis by (simp add: unregister_node_def fun_upd_idem)
next
  case (Some i)
  from position_Some [OF Some] have i: "i < length (rr_nodes r)" "active_node (rr_nodes r ! i)" "ne_uuid (rr_nodes r ! i) = u" by auto
  have ok: "slots_ok active_node ne_uuid (rr_nodes r)" using assms by (simp add: rr_ok_def)
  from slots_clear [OF ok i(1,2), of "empty_node_entry\<lparr>ne_flags := FLAG_DELETED\<rparr>"] i(3) Some show ?thesis
    by (simp add: unregister_node_def rr_ok_def nodes_shown_def Let_def)
qed

lemma update_node_vpn_outcome:
  assumes "rr_ok r"
  shows "rr_ok (update_node_vpn now u vpn r) \<and>
    nodes_shown (update_node_vpn now u vpn r) =
      (nodes_shown r)(u := map_option (\<lambda>e. e\<lparr>ne_vpn_id := vpn\<rparr>) (nodes_shown r u))"
proof (cases "position (\<lambda>e. active_node e \<and> ne_uuid e = u) (rr_nodes r)")
  case None
  then have "nodes_shown r u = None" by (auto simp: nodes_shown_def slot_of_None position_None)
  with None assms show ?thesis by (simp add: update_node_vpn_def fun_upd_idem)
next
  case (Some i)
  let ?e = "(rr_nodes r ! i)\<lparr>ne_vpn_id := vpn\<rparr>"
  from position_Some [OF Some] have i: "i < length (rr_nodes r)" "active_node (rr_nodes r ! i)" "ne_uuid (rr_nodes r ! i) = u" by auto
  have ok: "slots_ok active_node ne_uuid (rr_nodes r)" using assms by (simp add: rr_ok_def)
  have "nodes_shown r u = Some (rr_nodes r ! i)" unfolding nodes_shown_def slot_of_Some [OF ok] using i by blast
  moreover have "active_node ?e" using i(2) by (simp add: active_node_def)
  moreover have "count_active_nodes ((rr_nodes r)[i := ?e]) = count_active_nodes (rr_nodes r)"
    using filter_update [of i "rr_nodes r" active_node ?e] i \<open>active_node ?e\<close> by (simp add: count_active_nodes_def)
  ultimately show ?thesis
    using slots_write [OF ok i(1), of ?e u] assms i Some by (simp add: update_node_vpn_def rr_ok_def nodes_shown_def)
qed

text \<open>A reader sees exactly these nodes.\<close>

lemma snapshot_shows:
  assumes "rr_ok r"
  shows "e \<in> set (read_router_snapshot r) \<longleftrightarrow> nodes_shown r (ne_uuid e) = Some e"
proof -
  have "read_router_snapshot r = filter active_node (rr_nodes r)"
    using assms by (simp add: read_router_snapshot_def rr_ok_def count_active_nodes_def)
  moreover have "slots_ok active_node ne_uuid (rr_nodes r)" using assms by (simp add: rr_ok_def)
  ultimately show ?thesis
    unfolding nodes_shown_def using slot_of_Some [of active_node ne_uuid "rr_nodes r" "ne_uuid e" e] by (auto simp: in_set_conv_nth)
qed

lemma snapshot_has:
  assumes "rr_ok r"
  shows "(\<exists>e \<in> set (read_router_snapshot r). ne_uuid e = u \<and> P e) \<longleftrightarrow> (\<exists>e. nodes_shown r u = Some e \<and> P e)"
proof -
  have "ne_uuid e = u" if "nodes_shown r u = Some e" for e
    using that by (auto simp: nodes_shown_def slot_of_def find_Some_iff)
  then show ?thesis using snapshot_shows [OF assms] by metis
qed

end
