(* ===== verification/Node_Registry.thy ===== *)
theory Node_Registry
  imports Router_Safety Router_Region Opa_Policy
begin

text \<open>
  The connections of a router's own nodes (\<^verbatim>\<open>handle_node\<close> of \<^verbatim>\<open>src/src/router/mod.rs\<close>): the HELLO and the names
  it may ask for, the VPN of a node, the claim of its UUID, its registration in the router's region, the frames
  it sends, and the cleanup when it goes.  Connections interleave at the points where the code takes a lock;
  what the rest of the router does between them is a step of its own.
\<close>

section \<open>Configuration\<close>

record static_route_entry =
  se_prefix :: bytes
  se_prefix_len :: nat
  se_match_kind :: nat
  se_action :: nat
  se_next_hop_hive :: bytes
  se_next_hop_hive_len :: nat
  se_metric :: nat
  se_priority :: nat
  se_flags :: flags
  se_installed_at :: nat

record config_snapshot =
  cs_config_version :: nat
  cs_routes :: "static_route_entry list"
  cs_vpns :: "vpn_assignment list"
  cs_taps :: "tap_entry list"

definition static_route_of :: "static_route_entry \<Rightarrow> static_route" where
  "static_route_of e =
     \<lparr> sr_pattern = bytes_to_string (se_prefix e) (se_prefix_len e), sr_match_kind = se_match_kind e, sr_action = se_action e,
       sr_next_hop_hive = bytes_to_string (se_next_hop_hive e) (se_next_hop_hive_len e), sr_priority = se_priority e,
       sr_metric = se_metric e, sr_installed_at = se_installed_at e \<rparr>"

definition installed_routes :: "static_route_entry list \<Rightarrow> static_route list" where
  "installed_routes es =
     sort_key (\<lambda>r. (sr_priority r, sr_metric r))
       (map static_route_of (filter (\<lambda>e. rule_active (se_flags e) \<and> se_flags e AND FLAG_FROZEN = 0) es))"


section \<open>State\<close>

text \<open>Where a connection stands: \<^verbatim>\<open>Fresh\<close> before its HELLO, \<^verbatim>\<open>Named\<close> and \<^verbatim>\<open>Assigned\<close> before the claim of its
  UUID, \<^verbatim>\<open>Held\<close> while the table of nodes has its entry: claimed, registered in the region, serving frames,
  waiting for ever for a lock, ending, or refused by the region.\<close>

datatype stage = Claimed | Registered | Serving | Blocked | Ending | Refused

datatype conn =
    Fresh
  | Named uuid str message
  | Assigned uuid node_handle message
  | Held stage uuid node_handle message
  | Closed

text \<open>\<^verbatim>\<open>rg_config\<close> and \<^verbatim>\<open>rg_policy_region\<close> are what reading the regions of SY.config.routes and SY.opa.rules
  gives; \<^verbatim>\<open>rg_pid\<close> is the process that opened a connection.\<close>

record 'w registry =
  rg_router :: router_state
  rg_region :: router_region
  rg_opa :: "'w opa_state"
  rg_config_version :: nat
  rg_config :: "config_snapshot option"
  rg_policy_region :: "opa_snapshot option"
  rg_conns :: "nat \<rightharpoonup> conn"
  rg_pid :: "nat \<Rightarrow> int option"

text \<open>The library code and the site: \<^verbatim>\<open>serde_json\<close> on the payloads of HELLO, STREAM_APPEND and OPA_RELOAD, the
  role of the hive, and the process of the router.\<close>

record 'w node_env =
  ve_router :: router_env
  ve_own_pid :: nat
  ve_role :: str
  ve_hello :: "json \<Rightarrow> (str \<times> str) option"
  ve_append :: "json \<Rightarrow> (str \<times> json) option"
  ve_json_vec :: "json \<Rightarrow> bytes option"
  ve_reload :: "json \<Rightarrow> opa_reload_payload option"
  ve_opa :: "'w opa_env"
  ve_site :: opa_site

definition at_time :: "nat \<Rightarrow> router_env \<Rightarrow> router_env" where
  "at_time now env = env\<lparr>rv_delivery := (rv_delivery env)\<lparr>de_now := now\<rparr>\<rparr>"

abbreviation table :: "'w registry \<Rightarrow> nodes" where
  "table s \<equiv> lc_nodes (rs_lsa (rg_router s))"

definition upd_lsa :: "(lsa_context \<Rightarrow> lsa_context) \<Rightarrow> 'w registry \<Rightarrow> 'w registry" where
  "upd_lsa f s = s\<lparr>rg_router := (rg_router s)\<lparr>rs_lsa := f (rs_lsa (rg_router s))\<rparr>\<rparr>"

definition set_table :: "nodes \<Rightarrow> 'w registry \<Rightarrow> 'w registry" where
  "set_table ns = upd_lsa (\<lambda>c. c\<lparr>lc_nodes := ns\<rparr>)"

definition set_conn :: "nat \<Rightarrow> conn \<Rightarrow> 'w registry \<Rightarrow> 'w registry" where
  "set_conn c x s = s\<lparr>rg_conns := (rg_conns s)(c \<mapsto> x)\<rparr>"


section \<open>Operations\<close>

text \<open>\<^verbatim>\<open>reassign_vpns\<close> on the table and on the region.\<close>

definition vpn_updates :: "vpn_assignment list \<Rightarrow> nodes \<Rightarrow> (uuid \<times> nat) list" where
  "vpn_updates vpns ns =
     map (\<lambda>(u, h). (u, assign_vpn (nh_name h) (Some vpns)))
       (filter (\<lambda>(u, h). assign_vpn (nh_name h) (Some vpns) \<noteq> nh_vpn_id h) ns)"

definition reassign_vpns_shm :: "nat \<Rightarrow> (uuid \<times> nat) list \<Rightarrow> router_region \<Rightarrow> router_region" where
  "reassign_vpns_shm now updates = fold (\<lambda>(u, vpn). update_node_vpn now u vpn) updates"

definition install_config :: "nat \<Rightarrow> config_snapshot \<Rightarrow> 'w registry \<Rightarrow> 'w registry" where
  "install_config now snap s =
     upd_lsa (\<lambda>c. rebuild_context_fib (c\<lparr> lc_static_routes := installed_routes (cs_routes snap),
         lc_vpn_rules := cs_vpns snap, lc_tap_rules := cs_taps snap, lc_nodes := reassign_vpns (cs_vpns snap) (lc_nodes c) \<rparr>))
       (s\<lparr> rg_config_version := cs_config_version snap,
           rg_region := reassign_vpns_shm now (vpn_updates (cs_vpns snap) (table s)) (rg_region s) \<rparr>)"

text \<open>Every caller passes \<^verbatim>\<open>force = false\<close>.\<close>

definition refresh_config :: "nat \<Rightarrow> 'w registry \<Rightarrow> config_snapshot option \<times> 'w registry" where
  "refresh_config now s =
     (case rg_config s of
        None \<Rightarrow> (None, s)
      | Some snap \<Rightarrow>
          (Some snap, if cs_config_version snap = rg_config_version s then s else install_config now snap s))"

definition rt_name_allowed :: "str \<Rightarrow> int option \<Rightarrow> nat \<Rightarrow> bool" where
  "rt_name_allowed name peer_pid own_pid =
     (let local = trim (case split_once at_sign name of Some (l, _) \<Rightarrow> l | None \<Rightarrow> name)
      in \<not> (length local \<ge> 3 \<and> eq_ignore_ascii_case (take 3 local) ''RT.'') \<or>
         (case peer_pid of Some pid \<Rightarrow> pid \<ge> 0 \<and> nat pid = own_pid | None \<Rightarrow> False))"

definition accept_hello :: "'w node_env \<Rightarrow> str \<Rightarrow> int option \<Rightarrow> message \<Rightarrow> (uuid \<times> str) option" where
  "accept_hello env hive_id peer_pid msg =
     (if \<not> names msg ''HELLO'' then None
      else case ve_hello env (msg_payload msg) of
        None \<Rightarrow> None
      | Some (payload_uuid, payload_name) \<Rightarrow>
          (case (parse_uuid (ve_router env) (rt_src (msg_routing msg)), parse_uuid (ve_router env) payload_uuid) of
             (Some src_uuid, Some node_uuid) \<Rightarrow>
               if node_uuid \<noteq> src_uuid then None
               else let name = normalize_name payload_name hive_id
                    in if rt_name_allowed name peer_pid (ve_own_pid env) then Some (node_uuid, name) else None
           | _ \<Rightarrow> None))"

definition assign_node :: "nat \<Rightarrow> str \<Rightarrow> 'w registry \<Rightarrow> node_handle \<times> 'w registry" where
  "assign_node now name s =
     (let (snapshot, s) = refresh_config now s
      in (\<lparr> nh_name = name, nh_vpn_id = assign_vpn name (map_option cs_vpns snapshot), nh_connected_at = now \<rparr>, s))"

text \<open>One turn of the loop of \<^verbatim>\<open>claim_node_uuid\<close>; \<^verbatim>\<open>None\<close>: the UUID is taken.\<close>

definition claim_node_uuid :: "uuid \<Rightarrow> node_handle \<Rightarrow> 'w registry \<Rightarrow> 'w registry option" where
  "claim_node_uuid u h s =
     (if map_of (table s) u = None then Some (set_table ((u, h) # table s) s) else None)"

definition register_in_region :: "nat \<Rightarrow> uuid \<Rightarrow> node_handle \<Rightarrow> 'w registry \<Rightarrow> stage \<times> 'w registry" where
  "register_in_region now u h s =
     (case register_node now u (nh_name h) (nh_vpn_id h) (nh_connected_at h) (rg_region s) of
        (Inr _, region) \<Rightarrow> (Registered, s\<lparr>rg_region := region\<rparr>)
      | (Inl _, region) \<Rightarrow> (Refused, s\<lparr>rg_region := region\<rparr>))"

definition own_entry :: "uuid \<Rightarrow> node_handle \<Rightarrow> 'w registry \<Rightarrow> bool" where
  "own_entry u h s =
     (case map_of (table s) u of Some e \<Rightarrow> nh_connected_at e = nh_connected_at h | None \<Rightarrow> False)"

definition release :: "uuid \<Rightarrow> node_handle \<Rightarrow> 'w registry \<Rightarrow> 'w registry" where
  "release u h s = (if own_entry u h s then set_table (AList.delete u (table s)) s else s)"

text \<open>After the table changed: the forwarding table, and on the gateway an advertisement to every peer.\<close>

definition advertise :: "'w node_env \<Rightarrow> nat \<Rightarrow> 'w registry \<Rightarrow> 'w registry" where
  "advertise env now s =
     (let s = upd_lsa rebuild_context_fib s; r = rg_router s
      in if rs_is_gateway r
         then let (c, sent) = broadcast_lsa (rv_codec (ve_router env)) now None (rs_lsa r)
              in s\<lparr>rg_router := r\<lparr>rs_lsa := c, rs_sent := rs_sent r @ map (apfst ToWan) sent\<rparr>\<rparr>
         else s)"

definition announce_message :: "'w node_env \<Rightarrow> node_handle \<Rightarrow> message \<Rightarrow> router_state \<Rightarrow> message" where
  "announce_message env h hello r =
     build_announce (show_uuid (ve_router env) (lc_router_uuid (rs_lsa r))) (rt_src (msg_routing hello))
       (rt_trace_id (msg_routing hello))
       (JObj [(''uuid'', JStr (case ve_hello env (msg_payload hello) of Some (u, _) \<Rightarrow> u | None \<Rightarrow> [])),
              (''name'', JStr (nh_name h)), (''status'', JStr ''registered''), (''vpn_id'', JNum (show_nat (nh_vpn_id h))),
              (''router_name'', JStr (lc_router_name (rs_lsa r)))])"

text \<open>An announcement that cannot be serialised ends the handler with its entries in place.\<close>

definition announce_node :: "'w node_env \<Rightarrow> nat \<Rightarrow> uuid \<Rightarrow> node_handle \<Rightarrow> message \<Rightarrow> 'w registry \<Rightarrow> conn \<times> 'w registry" where
  "announce_node env now u h hello s =
     (let s = advertise env now s; r = rg_router s
      in case de_to_vec (rv_delivery (ve_router env)) (announce_message env h hello r) of
           None \<Rightarrow> (Closed, s)
         | Some data \<Rightarrow> (Held Serving u h hello, s\<lparr>rg_router := r\<lparr>rs_sent := rs_sent r @ [(ToNode u, data)]\<rparr>\<rparr>))"

definition frame_is_from_connection :: "'w node_env \<Rightarrow> message \<Rightarrow> uuid \<Rightarrow> bool" where
  "frame_is_from_connection env msg u = (parse_uuid (ve_router env) (rt_src (msg_routing msg)) = Some u)"

text \<open>The copies for the stream of a frame as it comes in.\<close>

definition entry_copies :: "'w node_env \<Rightarrow> nat \<Rightarrow> str \<Rightarrow> message \<Rightarrow> stream_handle \<Rightarrow> stream_handle" where
  "entry_copies env now name msg h =
     (let to_vec = de_to_vec (rv_delivery (ve_router env));
          h = (if should_publish_turn msg
               then case turn_copy to_vec msg name of Some copy \<Rightarrow> append_turn now name copy h | None \<Rightarrow> h
               else h)
      in if copied_for_cognition_at_entry name msg
         then case cognition_copy to_vec msg name of Some copy \<Rightarrow> append_cognition_turn now name copy h | None \<Rightarrow> h
         else h)"

definition upd_stream :: "(stream_handle \<Rightarrow> stream_handle) \<Rightarrow> 'w registry \<Rightarrow> 'w registry" where
  "upd_stream f s = s\<lparr>rg_router := (rg_router s)\<lparr>rs_stream := f (rs_stream (rg_router s))\<rparr>\<rparr>"

definition run :: "unit act \<Rightarrow> 'w registry \<Rightarrow> stage \<times> 'w registry" where
  "run m s = (case m (rg_router s) of (out, r) \<Rightarrow> (if out = Stuck then Blocked else Serving, s\<lparr>rg_router := r\<rparr>))"

definition take_reload :: "'w node_env \<Rightarrow> nat \<Rightarrow> message \<Rightarrow> 'w registry \<Rightarrow> stage \<times> 'w registry" where
  "take_reload env now msg s =
     (case ve_reload env (msg_payload msg) of
        None \<Rightarrow> (Serving, s)
      | Some payload \<Rightarrow>
          run (if rt_ttl (msg_routing msg) \<ge> 2 then broadcast_to_peers (at_time now (ve_router env)) msg else ret ())
            (s\<lparr>rg_opa := apply_opa_reload (ve_opa env) (ve_site env) (rg_policy_region s) payload (rg_opa s)\<rparr>))"

text \<open>The tables as \<^verbatim>\<open>handle_message\<close> finds them.\<close>

definition refreshed_for :: "'w node_env \<Rightarrow> nat \<Rightarrow> 'w registry \<Rightarrow> 'w registry" where
  "refreshed_for env now s =
     (let (snapshot, s) = refresh_config now s;
          s = upd_lsa (refresh_lsa (rv_readable (ve_router env))) s
      in s\<lparr>rg_router := (rg_router s)\<lparr>rs_taps := map_option cs_taps snapshot\<rparr>\<rparr>)"

definition on_frame :: "'w node_env \<Rightarrow> nat \<Rightarrow> uuid \<Rightarrow> node_handle \<Rightarrow> message \<Rightarrow> 'w registry \<Rightarrow> stage \<times> 'w registry" where
  "on_frame env now u h msg s =
     (if \<not> frame_is_from_connection env msg u then (Serving, s)
      else if names msg ''STREAM_APPEND''
      then (Serving, upd_stream (take_stream_append (ve_append env) (ve_json_vec env) (ve_role env) now msg (nh_name h)) s)
      else let s = upd_stream (entry_copies env now (nh_name h) msg) s
           in if names msg ''WITHDRAW'' then (Ending, s)
              else if names msg ''OPA_RELOAD'' then take_reload env now msg s
              else run (handle_message (at_time now (ve_router env)) msg) (refreshed_for env now s))"

definition cleanup :: "'w node_env \<Rightarrow> nat \<Rightarrow> uuid \<Rightarrow> node_handle \<Rightarrow> 'w registry \<Rightarrow> 'w registry" where
  "cleanup env now u h s =
     advertise env now
       (if own_entry u h s then (release u h s)\<lparr>rg_region := unregister_node now u (rg_region s)\<rparr> else s)"

text \<open>The pass of the heartbeat.\<close>

definition heartbeat_pass :: "'w node_env \<Rightarrow> nat \<Rightarrow> 'w registry \<Rightarrow> 'w registry" where
  "heartbeat_pass env now s =
     (let s = s\<lparr>rg_opa := maybe_refresh_opa_from_shm (ve_opa env) (ve_site env)
                  (map_option op_header (rg_policy_region s)) (rg_policy_region s) (rg_opa s)\<rparr>;
          s = snd (refresh_config now s); (version, status) = opa_status (os_resolver (rg_opa s))
      in s\<lparr>rg_region := (rg_region s)\<lparr>rr_heartbeat := now\<rparr>, rg_opa := update_opa_status version status (rg_opa s)\<rparr>)"


section \<open>Steps\<close>

inductive registry_step :: "'w node_env \<Rightarrow> 'w registry \<Rightarrow> 'w registry \<Rightarrow> bool" for env :: "'w node_env" where
  connect: "rg_conns s c = None \<Longrightarrow>
    registry_step env s ((set_conn c Fresh s)\<lparr>rg_pid := (rg_pid s)(c := pid)\<rparr>)"
| hello: "rg_conns s c = Some Fresh \<Longrightarrow>
    accept_hello env (lc_hive_id (rs_lsa (rg_router s))) (rg_pid s c) msg = Some (u, name) \<Longrightarrow>
    registry_step env s (set_conn c (Named u name msg) s)"
| no_hello: "rg_conns s c = Some Fresh \<Longrightarrow> registry_step env s (set_conn c Closed s)"
| assign: "rg_conns s c = Some (Named u name m) \<Longrightarrow> assign_node now name s = (h, s') \<Longrightarrow>
    registry_step env s (set_conn c (Assigned u h m) s')"
| claim: "rg_conns s c = Some (Assigned u h m) \<Longrightarrow> claim_node_uuid u h s = Some s' \<Longrightarrow>
    registry_step env s (set_conn c (Held Claimed u h m) s')"
| taken: "rg_conns s c = Some (Assigned u h m) \<Longrightarrow> claim_node_uuid u h s = None \<Longrightarrow>
    registry_step env s (set_conn c Closed s)"
| registers: "rg_conns s c = Some (Held Claimed u h m) \<Longrightarrow> register_in_region now u h s = (st, s') \<Longrightarrow>
    registry_step env s (set_conn c (Held st u h m) s')"
| refused: "rg_conns s c = Some (Held Refused u h m) \<Longrightarrow> registry_step env s (set_conn c Closed (release u h s))"
| announces: "rg_conns s c = Some (Held Registered u h m) \<Longrightarrow> announce_node env now u h m s = (x, s') \<Longrightarrow>
    registry_step env s (set_conn c x s')"
| frame: "rg_conns s c = Some (Held Serving u h m) \<Longrightarrow> on_frame env now u h msg s = (st, s') \<Longrightarrow>
    registry_step env s (set_conn c (Held st u h m) s')"
| gone: "rg_conns s c = Some (Held Serving u h m) \<Longrightarrow> registry_step env s (set_conn c (Held Ending u h m) s)"
| cleans: "rg_conns s c = Some (Held Ending u h m) \<Longrightarrow>
    registry_step env s (set_conn c Closed (cleanup env now u h s))"
| publish: "registry_step env s (s\<lparr>rg_config := config\<rparr>)"
| policy: "registry_step env s (s\<lparr>rg_policy_region := region\<rparr>)"
| heartbeat: "registry_step env s (heartbeat_pass env now s)"

text \<open>The registered names and times, and what the region shows of them.\<close>

definition entries :: "'w registry \<Rightarrow> uuid \<rightharpoonup> str \<times> nat" where
  "entries s u = map_option (\<lambda>e. (nh_name e, nh_connected_at e)) (map_of (table s) u)"

definition shown :: "'w registry \<Rightarrow> uuid \<rightharpoonup> str \<times> nat" where
  "shown s u = map_option (\<lambda>e. (take (ne_name_len e) (ne_name e), ne_connected_at e)) (nodes_shown (rg_region s) u)"

definition same_view :: "'w registry \<Rightarrow> 'w registry \<Rightarrow> bool" where
  "same_view s s' \<longleftrightarrow> entries s' = entries s \<and> shown s' = shown s \<and> rr_ok (rg_region s') \<and>
     rg_conns s' = rg_conns s \<and> rg_pid s' = rg_pid s"

text \<open>Between two steps the other tasks of the router (frames of siblings and other hives, timers, the parts
  of a refresh of the configuration) change its state in any way that keeps the names and times of its nodes.\<close>

inductive any_step :: "'w node_env \<Rightarrow> 'w registry \<Rightarrow> 'w registry \<Rightarrow> bool" for env :: "'w node_env" where
  own: "registry_step env s s' \<Longrightarrow> any_step env s s'"
| others: "same_view s s' \<Longrightarrow> any_step env s s'"

definition registry_init :: "'w registry \<Rightarrow> bool" where
  "registry_init s \<longleftrightarrow> table s = [] \<and> rg_conns s = Map.empty \<and>
     rr_ok (rg_region s) \<and> nodes_shown (rg_region s) = Map.empty"


section \<open>What the operations keep\<close>

lemma view_simps [simp]:
  "entries (set_conn c x s) = entries s" "shown (set_conn c x s) = shown s" "rg_region (set_conn c x s) = rg_region s"
  "rg_conns (set_conn c x s) = (rg_conns s)(c \<mapsto> x)" "rg_pid (set_conn c x s) = rg_pid s" "table (set_conn c x s) = table s"
  "shown (upd_lsa f s) = shown s" "rg_region (upd_lsa f s) = rg_region s" "rg_conns (upd_lsa f s) = rg_conns s"
  "rg_pid (upd_lsa f s) = rg_pid s" "shown (set_table ns s) = shown s" "rg_region (set_table ns s) = rg_region s"
  "rg_conns (set_table ns s) = rg_conns s" "rg_pid (set_table ns s) = rg_pid s" "table (set_table ns s) = ns"
  "table (upd_lsa f s) = lc_nodes (f (rs_lsa (rg_router s)))" "table (upd_stream g s) = table s"
  "rg_region (upd_stream g s) = rg_region s" "rg_conns (upd_stream g s) = rg_conns s" "rg_pid (upd_stream g s) = rg_pid s"
  by (simp_all add: fun_eq_iff entries_def shown_def set_conn_def upd_lsa_def set_table_def upd_stream_def)

lemma same_viewI:
  assumes "table s' = table s" "rg_region s' = rg_region s" "rr_ok (rg_region s)" "rg_conns s' = rg_conns s" "rg_pid s' = rg_pid s"
  shows "same_view s s'"
  using assms by (simp add: same_view_def fun_eq_iff entries_def shown_def)

lemma same_view_trans: "same_view s s' \<Longrightarrow> same_view s' s'' \<Longrightarrow> same_view s s''"
  by (simp add: same_view_def)

lemma nodes_kept [simp]:
  "lc_nodes (rebuild_context_fib c) = lc_nodes c" "lc_nodes (refresh_lsa b c) = lc_nodes c"
  "lc_nodes (fst (broadcast_lsa ce now t c)) = lc_nodes c"
  by (simp_all add: rebuild_context_fib_def refresh_lsa_def broadcast_lsa_def Let_def)

lemma reassigned:
  "map_of (reassign_vpns vpns ns) u = map_option (\<lambda>h. h\<lparr>nh_vpn_id := assign_vpn (nh_name h) (Some vpns)\<rparr>) (map_of ns u)"
  by (induction ns) (auto simp: reassign_vpns_def)

lemma shown_vpn:
  assumes "rr_ok r"
  shows "rr_ok (update_node_vpn now u vpn r) \<and>
    map_option (\<lambda>e. (take (ne_name_len e) (ne_name e), ne_connected_at e)) (nodes_shown (update_node_vpn now u vpn r) v) =
    map_option (\<lambda>e. (take (ne_name_len e) (ne_name e), ne_connected_at e)) (nodes_shown r v)"
  using update_node_vpn_outcome [OF assms, of now u vpn] by (auto simp: option.map_comp comp_def)

lemma shown_vpns:
  assumes "rr_ok r"
  shows "rr_ok (reassign_vpns_shm now ups r) \<and>
    map_option (\<lambda>e. (take (ne_name_len e) (ne_name e), ne_connected_at e)) (nodes_shown (reassign_vpns_shm now ups r) v) =
    map_option (\<lambda>e. (take (ne_name_len e) (ne_name e), ne_connected_at e)) (nodes_shown r v)"
  using assms
proof (induction ups arbitrary: r)
  case (Cons p ups)
  obtain u vpn where "p = (u, vpn)" by force
  with Cons.IH [of "update_node_vpn now u vpn r"] shown_vpn [OF Cons.prems, of now u vpn v] show ?case
    by (simp add: reassign_vpns_shm_def)
qed (simp add: reassign_vpns_shm_def)

lemma install_view: "rr_ok (rg_region s) \<Longrightarrow> same_view s (install_config now snap s)"
  using shown_vpns [of "rg_region s" now "vpn_updates (cs_vpns snap) (table s)"]
  by (simp add: same_view_def fun_eq_iff entries_def shown_def install_config_def upd_lsa_def reassigned
      option.map_comp comp_def)

lemma refresh_view:
  assumes "rr_ok (rg_region s)"
  shows "same_view s (snd (refresh_config now s))"
proof -
  have "same_view s s" by (rule same_viewI) (simp_all add: assms)
  with install_view [OF assms] show ?thesis by (auto simp: refresh_config_def split: option.splits)
qed

lemma advertise_view [simp]:
  "entries (advertise env now s) = entries s" "shown (advertise env now s) = shown s" "rg_conns (advertise env now s) = rg_conns s"
  "rg_pid (advertise env now s) = rg_pid s" "rg_region (advertise env now s) = rg_region s"
proof -
  obtain c sent where b: "broadcast_lsa (rv_codec (ve_router env)) now None (rebuild_context_fib (rs_lsa (rg_router s))) = (c, sent)"
    by force
  then have "lc_nodes c = table s" by (metis fst_conv nodes_kept(1,3))
  with b show "entries (advertise env now s) = entries s" "shown (advertise env now s) = shown s"
    "rg_conns (advertise env now s) = rg_conns s" "rg_pid (advertise env now s) = rg_pid s"
    "rg_region (advertise env now s) = rg_region s"
    by (simp_all add: fun_eq_iff entries_def shown_def advertise_def upd_lsa_def Let_def)
qed

lemma stream_view: "rr_ok (rg_region s) \<Longrightarrow> same_view s (upd_stream g s)"
  by (rule same_viewI) simp_all

lemma run_view:
  assumes "spec False (rg_router s) P Q m" "run m s = (st, s')" "rr_ok (rg_region s)"
  shows "same_view s s' \<and> (st = Serving \<or> st = Blocked) \<and>
    (\<exists>new. rs_sent (rg_router s') = rs_sent (rg_router s) @ new \<and> (\<forall>f \<in> set new. P f))"
proof -
  obtain out r where r: "m (rg_router s) = (out, r)" by force
  from spec_run [OF assms(1) r] agreesD have "rs_lsa r = rs_lsa (rg_router s)"
    "\<exists>new. rs_sent r = rs_sent (rg_router s) @ new \<and> (\<forall>f \<in> set new. P f)" by blast+
  with assms(2,3) r show ?thesis by (auto simp: run_def intro!: same_viewI)
qed

lemma refreshed_view:
  assumes "rr_ok (rg_region s)"
  shows "same_view s (refreshed_for env now s)"
    "rs_sent (rg_router (refreshed_for env now s)) = rs_sent (rg_router s)"
    "rs_peers (rg_router (refreshed_for env now s)) = rs_peers (rg_router s)"
proof -
  obtain sn s1 where r: "refresh_config now s = (sn, s1)" by force
  with refresh_view [OF assms, of now] have v: "same_view s s1" by simp
  have "same_view s1 (refreshed_for env now s)"
    by (rule same_viewI) (use v r in \<open>simp_all add: same_view_def refreshed_for_def upd_lsa_def\<close>)
  with v show "same_view s (refreshed_for env now s)" by (rule same_view_trans)
  show "rs_sent (rg_router (refreshed_for env now s)) = rs_sent (rg_router s)"
    "rs_peers (rg_router (refreshed_for env now s)) = rs_peers (rg_router s)"
    using r by (auto simp: refreshed_for_def upd_lsa_def refresh_config_def install_config_def split: option.splits if_splits)
qed

text \<open>What a frame from a connection makes the router send: notices of a reload to its siblings, or frames
  under the name the table has for the connection's UUID.\<close>

definition speaks_for :: "'w node_env \<Rightarrow> nat \<Rightarrow> uuid \<Rightarrow> str \<Rightarrow> message \<Rightarrow> router_state \<Rightarrow> channel \<times> bytes \<Rightarrow> bool" where
  "speaks_for env now u name msg r f \<longleftrightarrow>
     frame_is_from_connection env msg u \<and>
     (names msg ''OPA_RELOAD'' \<and> fst f \<in> ToPeer ` set (rs_peers r) \<or>
      (\<exists>e. map_of (lc_nodes (rs_lsa r)) u = Some e \<and> nh_name e = name \<and>
         sound_frame (at_time now (ve_router env)) r (node_origin r u e) False msg f))"

definition facing :: "'w node_env \<Rightarrow> nat \<Rightarrow> str \<Rightarrow> message \<Rightarrow> 'w registry \<Rightarrow> 'w registry" where
  "facing env now name msg s = refreshed_for env now (upd_stream (entry_copies env now name msg) s)"

lemma facing_view:
  assumes "rr_ok (rg_region s)"
  shows "same_view s (facing env now name msg s)" "rs_sent (rg_router (facing env now name msg s)) = rs_sent (rg_router s)"
    "rs_peers (rg_router (facing env now name msg s)) = rs_peers (rg_router s)"
  using refreshed_view [of "upd_stream (entry_copies env now name msg) s" env now] assms
    same_view_trans [OF stream_view [OF assms]] by (simp_all add: facing_def upd_stream_def)

lemma reload_spec:
  "spec False s0 (\<lambda>f. fst f \<in> ToPeer ` set (rs_peers s0)) (\<lambda>_. True)
     (if n \<ge> 2 then broadcast_to_peers env msg else ret ())" for n :: nat
proof -
  have "spec False s0 (\<lambda>f. fst f \<in> ToPeer ` set (rs_peers s0)) (\<lambda>_. True) (broadcast_to_peers env msg)"
    unfolding broadcast_to_peers_def by (rule spec_andthen [OF spec_lock], simp, intro spec_rules) auto
  then show ?thesis by (simp add: spec_ret)
qed

lemma take_reload_view:
  assumes "rr_ok (rg_region s)" "take_reload env now msg s = (st, s')"
  shows "same_view s s' \<and> (st = Serving \<or> st = Blocked) \<and> (\<exists>new. rs_sent (rg_router s') = rs_sent (rg_router s) @ new \<and>
    (\<forall>f \<in> set new. fst f \<in> ToPeer ` set (rs_peers (rg_router s))))"
proof (cases "ve_reload env (msg_payload msg)")
  case None
  with assms show ?thesis using same_viewI [OF refl refl assms(1) refl refl] by (simp add: take_reload_def)
next
  case (Some payload)
  let ?s1 = "s\<lparr>rg_opa := apply_opa_reload (ve_opa env) (ve_site env) (rg_policy_region s) payload (rg_opa s)\<rparr>"
  have "same_view s ?s1" by (rule same_viewI) (simp_all add: assms)
  moreover from assms(2) Some have "run (if rt_ttl (msg_routing msg) \<ge> 2 then broadcast_to_peers (at_time now (ve_router env)) msg else ret ()) ?s1
      = (st, s')" by (simp add: take_reload_def)
  from run_view [OF reload_spec this] assms(1) have "same_view ?s1 s' \<and> (st = Serving \<or> st = Blocked) \<and>
      (\<exists>new. rs_sent (rg_router s') = rs_sent (rg_router ?s1) @ new \<and> (\<forall>f \<in> set new. fst f \<in> ToPeer ` set (rs_peers (rg_router ?s1))))"
    by simp
  ultimately show ?thesis using same_view_trans by auto
qed

lemma on_frame_view:
  assumes ok: "rr_ok (rg_region s)" and e: "entries s u = Some (nh_name h, t)" and f: "on_frame env now u h msg s = (st, s')"
  shows "same_view s s' \<and> st \<in> {Serving, Blocked, Ending} \<and> (\<exists>new. rs_sent (rg_router s') = rs_sent (rg_router s) @ new \<and>
    (\<forall>f \<in> set new. speaks_for env now u (nh_name h) msg (rg_router (facing env now (nh_name h) msg s)) f))"
proof (cases "frame_is_from_connection env msg u")
  case False
  with f same_viewI [OF refl refl ok refl refl] show ?thesis by (simp add: on_frame_def)
next
  case True
  let ?g = "entry_copies env now (nh_name h) msg" and ?s1 = "facing env now (nh_name h) msg s"
  have v: "same_view s (upd_stream g s)" "rs_sent (rg_router (upd_stream g s)) = rs_sent (rg_router s)" for g
    using stream_view [OF ok] by (simp_all add: upd_stream_def)
  note s1 = facing_view [OF ok, of env now "nh_name h" msg]
  consider (append) "names msg ''STREAM_APPEND''" | (withdraw) "\<not> names msg ''STREAM_APPEND''" "names msg ''WITHDRAW''"
    | (reload) "\<not> names msg ''STREAM_APPEND''" "\<not> names msg ''WITHDRAW''" "names msg ''OPA_RELOAD''"
    | (other) "\<not> names msg ''STREAM_APPEND''" "\<not> names msg ''WITHDRAW''" "\<not> names msg ''OPA_RELOAD''" by blast
  then show ?thesis
  proof cases
    case reload
    with f True have t: "take_reload env now msg (upd_stream ?g s) = (st, s')" by (simp add: on_frame_def Let_def)
    have "rs_peers (rg_router (upd_stream ?g s)) = rs_peers (rg_router ?s1)" using s1(3) by (simp add: upd_stream_def)
    with take_reload_view [OF _ t] ok same_view_trans [OF v(1)] True reload(3) v(2) show ?thesis
      by (auto simp: speaks_for_def)
  next
    case other
    from s1(1) e have "entries ?s1 u = Some (nh_name h, t)" by (simp add: same_view_def)
    then obtain e' where e': "map_of (table ?s1) u = Some e'" "nh_name e' = nh_name h" by (auto simp: entries_def)
    from True have src: "parse_uuid (at_time now (ve_router env)) (rt_src (msg_routing msg)) = Some u"
      by (simp add: frame_is_from_connection_def parse_uuid_def at_time_def)
    from other f True have r: "run (handle_message (at_time now (ve_router env)) msg) ?s1 = (st, s')"
      by (simp add: on_frame_def Let_def facing_def)
    from run_view [OF spec_handle_message r] s1(1) have "same_view ?s1 s' \<and> (st = Serving \<or> st = Blocked) \<and>
        (\<exists>new. rs_sent (rg_router s') = rs_sent (rg_router ?s1) @ new \<and> (\<forall>f \<in> set new. speaks_for env now u (nh_name h) msg (rg_router ?s1) f))"
      using e' src True by (fastforce simp: speaks_for_def same_view_def)
    with same_view_trans [OF s1(1)] s1(2) show ?thesis by auto
  qed (use f True v in \<open>auto simp: on_frame_def Let_def\<close>)
qed


section \<open>Invariant\<close>

definition holds_uuid :: "conn option \<Rightarrow> uuid \<Rightarrow> bool" where
  "holds_uuid x u \<longleftrightarrow> (\<exists>st h m. x = Some (Held st u h m))"

text \<open>What is known of a connection, from the table and from what the region shows.\<close>

definition conn_ok ::
  "'w node_env \<Rightarrow> int option \<Rightarrow> (uuid \<rightharpoonup> str \<times> nat) \<Rightarrow> (uuid \<rightharpoonup> str \<times> nat) \<Rightarrow> conn \<Rightarrow> bool" where
  "conn_ok env pid en sh x =
     (case x of
        Named u name m \<Rightarrow> rt_name_allowed name pid (ve_own_pid env)
      | Assigned u h m \<Rightarrow> rt_name_allowed (nh_name h) pid (ve_own_pid env)
      | Held st u h m \<Rightarrow> rt_name_allowed (nh_name h) pid (ve_own_pid env) \<and> en u = Some (nh_name h, nh_connected_at h) \<and>
          sh u = (if st = Claimed \<or> st = Refused then None else Some (nh_name h, nh_connected_at h))
      | _ \<Rightarrow> True)"

definition serialises :: "'w node_env \<Rightarrow> bool" where
  "serialises env \<longleftrightarrow> (\<forall>m. de_to_vec (rv_delivery (ve_router env)) m \<noteq> None)"

definition reg_inv :: "'w node_env \<Rightarrow> 'w registry \<Rightarrow> bool" where
  "reg_inv env s \<longleftrightarrow> rr_ok (rg_region s) \<and>
     (\<forall>c x. rg_conns s c = Some x \<longrightarrow> conn_ok env (rg_pid s c) (entries s) (shown s) x) \<and>
     (\<forall>c c' u. holds_uuid (rg_conns s c) u \<and> holds_uuid (rg_conns s c') u \<longrightarrow> c = c') \<and>
     (\<forall>u. shown s u \<noteq> None \<longrightarrow> entries s u \<noteq> None) \<and>
     (serialises env \<longrightarrow> (\<forall>u. entries s u \<noteq> None \<longrightarrow> (\<exists>c. holds_uuid (rg_conns s c) u)))"

lemma holder_registered: "reg_inv env s \<Longrightarrow> holds_uuid (rg_conns s c) u \<Longrightarrow> entries s u \<noteq> None"
  by (fastforce simp: reg_inv_def conn_ok_def holds_uuid_def)

lemma conn_ok_agree:
  assumes "\<And>u. holds_uuid (Some x) u \<Longrightarrow> en' u = en u \<and> sh' u = sh u"
  shows "conn_ok env pid en' sh' x = conn_ok env pid en sh x"
  using assms by (cases x) (auto simp: conn_ok_def holds_uuid_def)

text \<open>One connection moves and touches only the entry it holds, or one that nobody has.\<close>

lemma inv_move:
  assumes inv: "reg_inv env s"
    and s': "rg_conns s' = (rg_conns s)(c \<mapsto> x)" "\<And>c'. c' \<noteq> c \<Longrightarrow> rg_pid s' c' = rg_pid s c'" "rr_ok (rg_region s')"
    and ok: "conn_ok env (rg_pid s' c) (entries s') (shown s') x"
    and only: "\<And>u. entries s' u \<noteq> entries s u \<or> shown s' u \<noteq> shown s u \<Longrightarrow> holds_uuid (rg_conns s c) u \<or> entries s u = None"
    and new: "\<And>u. holds_uuid (Some x) u \<Longrightarrow> holds_uuid (rg_conns s c) u \<or> entries s u = None"
    and dom: "\<And>u. shown s' u \<noteq> None \<Longrightarrow> entries s' u \<noteq> None"
    and left: "\<And>u. serialises env \<Longrightarrow> entries s' u \<noteq> None \<Longrightarrow>
      holds_uuid (Some x) u \<or> entries s u \<noteq> None \<and> \<not> holds_uuid (rg_conns s c) u"
  shows "reg_inv env s'"
proof -
  have uniq: "c1 = c2" if "holds_uuid (rg_conns s c1) u" "holds_uuid (rg_conns s c2) u" for c1 c2 u
    using inv that unfolding reg_inv_def by blast
  have other: "entries s' u = entries s u \<and> shown s' u = shown s u" if "holds_uuid (rg_conns s c') u" "c' \<noteq> c" for c' u
    using only [of u] uniq [OF that(1), of c] that holder_registered [OF inv that(1)] by blast
  have "conn_ok env (rg_pid s' c') (entries s') (shown s') y" if y: "rg_conns s' c' = Some y" for c' y
  proof (cases "c' = c")
    case False
    with y s'(1) have y': "rg_conns s c' = Some y" by simp
    with inv have "conn_ok env (rg_pid s c') (entries s) (shown s) y" by (simp add: reg_inv_def)
    moreover have "conn_ok env (rg_pid s c') (entries s') (shown s') y = conn_ok env (rg_pid s c') (entries s) (shown s) y"
      by (rule conn_ok_agree) (use other [of c'] False y' in simp)
    ultimately show ?thesis using False s'(2) by simp
  qed (use ok y s'(1) in simp)
  moreover have "c1 = c2" if "holds_uuid (rg_conns s' c1) u" "holds_uuid (rg_conns s' c2) u" for c1 c2 u
    using that uniq [of c1 u c2] uniq [of c u] new [of u] holder_registered [OF inv, of c1 u] holder_registered [OF inv, of c2 u] s'(1)
    by (auto split: if_splits)
  moreover have "\<exists>c'. holds_uuid (rg_conns s' c') u" if e: "serialises env" "entries s' u \<noteq> None" for u
  proof (cases "holds_uuid (Some x) u")
    case False
    with left [OF e] have e': "entries s u \<noteq> None" "\<not> holds_uuid (rg_conns s c) u" by simp_all
    with inv e(1) obtain c' where c': "holds_uuid (rg_conns s c') u" unfolding reg_inv_def by blast
    with e' have "c' \<noteq> c" by blast
    with c' s'(1) show ?thesis by (metis fun_upd_other)
  qed (use s'(1) in \<open>metis fun_upd_same\<close>)
  ultimately show ?thesis using s'(3) dom unfolding reg_inv_def by blast
qed

lemma inv_same: "reg_inv env s \<Longrightarrow> same_view s s' \<Longrightarrow> reg_inv env s'"
  by (simp add: reg_inv_def same_view_def)

text \<open>A connection that moves while the table and the region keep their names.\<close>

lemma inv_stay:
  assumes "reg_inv env s" "same_view s s'" "conn_ok env (rg_pid s c) (entries s) (shown s) x"
    and "\<And>u. holds_uuid (Some x) u = holds_uuid (rg_conns s c) u"
  shows "reg_inv env (set_conn c x s')"
proof (rule inv_move [OF assms(1), where c = c and x = x])
  fix u assume "serialises env" "entries (set_conn c x s') u \<noteq> None"
  with assms(2,4) show "holds_uuid (Some x) u \<or> entries s u \<noteq> None \<and> \<not> holds_uuid (rg_conns s c) u"
    by (simp add: same_view_def)
qed (use assms in \<open>auto simp: same_view_def reg_inv_def\<close>)

lemma assign_view:
  assumes "assign_node now name s = (h, s')" "rr_ok (rg_region s)"
  shows "same_view s s' \<and> nh_name h = name"
  using assms refresh_view [OF assms(2), of now] by (auto simp: assign_node_def split: prod.splits)

lemma claim_entries:
  assumes "claim_node_uuid u h s = Some s'"
  shows "entries s u = None" "entries s' = (entries s)(u \<mapsto> (nh_name h, nh_connected_at h))" "shown s' = shown s"
    "rg_region s' = rg_region s" "rg_conns s' = rg_conns s" "rg_pid s' = rg_pid s"
  using assms by (auto simp: claim_node_uuid_def entries_def fun_eq_iff split: if_splits)

lemma release_entries:
  assumes "entries s u = Some (name, nh_connected_at h)"
  shows "entries (release u h s) = (entries s)(u := None)" "shown (release u h s) = shown s" "own_entry u h s"
    "rg_region (release u h s) = rg_region s" "rg_conns (release u h s) = rg_conns s" "rg_pid (release u h s) = rg_pid s"
proof -
  show o: "own_entry u h s" using assms by (auto simp: own_entry_def entries_def)
  then show "entries (release u h s) = (entries s)(u := None)" "shown (release u h s) = shown s"
    "rg_region (release u h s) = rg_region s" "rg_conns (release u h s) = rg_conns s" "rg_pid (release u h s) = rg_pid s"
    by (simp_all add: release_def entries_def fun_eq_iff delete_conv)
qed

lemma register_view:
  assumes "register_in_region now u h s = (st, s')" "rr_ok (rg_region s)"
  shows "rr_ok (rg_region s') \<and> entries s' = entries s \<and> rg_conns s' = rg_conns s \<and> rg_pid s' = rg_pid s \<and>
    (st = Registered \<and> shown s' = (shown s)(u \<mapsto> (nh_name h, nh_connected_at h)) \<or> st = Refused \<and> shown s' = shown s)"
proof -
  obtain res r where r: "register_node now u (nh_name h) (nh_vpn_id h) (nh_connected_at h) (rg_region s) = (res, r)" by force
  have "take (ne_name_len e) (ne_name e) = name" if "e = node_entry_for u name vpn t" "length name \<le> 256" for e name vpn t
    using that by (simp add: node_entry_for_def empty_node_entry_def copied_into_def zeros_def)
  with assms(2) register_node_outcome [OF assms(2), where now = now and u = u and name = "nh_name h" and vpn = "nh_vpn_id h" and t = "nh_connected_at h"] r assms(1)
  show ?thesis by (auto simp: register_in_region_def entries_def shown_def fun_eq_iff split: sum.splits)
qed

lemma announce_view:
  assumes "announce_node env now u h m s = (x, s')"
  shows "entries s' = entries s \<and> shown s' = shown s \<and> rg_region s' = rg_region s \<and> rg_conns s' = rg_conns s \<and> rg_pid s' = rg_pid s \<and>
    (x = Held Serving u h m \<or> x = Closed \<and> \<not> serialises env)"
proof -
  have "entries (s\<lparr>rg_router := (rg_router s)\<lparr>rs_sent := d\<rparr>\<rparr>) = entries s" "shown (s\<lparr>rg_router := r\<rparr>) = shown s" for s :: "'a registry" and d r
    by (simp_all add: entries_def shown_def fun_eq_iff)
  with assms show ?thesis
    by (auto simp: announce_node_def Let_def serialises_def split: option.splits)
qed

lemma cleanup_view:
  assumes "entries s u = Some (name, nh_connected_at h)" "rr_ok (rg_region s)"
  shows "entries (cleanup env now u h s) = (entries s)(u := None)" "shown (cleanup env now u h s) = (shown s)(u := None)"
    "rr_ok (rg_region (cleanup env now u h s))" "rg_conns (cleanup env now u h s) = rg_conns s" "rg_pid (cleanup env now u h s) = rg_pid s"
proof -
  note r = release_entries [OF assms(1)] and un = unregister_node_outcome [OF assms(2), of now u]
  have "entries (t\<lparr>rg_region := x\<rparr>) = entries t" for t :: "'a registry" and x by (simp add: entries_def fun_eq_iff)
  with r un show "entries (cleanup env now u h s) = (entries s)(u := None)" "shown (cleanup env now u h s) = (shown s)(u := None)"
    "rr_ok (rg_region (cleanup env now u h s))" "rg_conns (cleanup env now u h s) = rg_conns s" "rg_pid (cleanup env now u h s) = rg_pid s"
    by (simp_all add: cleanup_def shown_def fun_eq_iff)
qed

lemma heartbeat_view:
  assumes "rr_ok (rg_region s)"
  shows "same_view s (heartbeat_pass env now s)"
proof -
  let ?s1 = "s\<lparr>rg_opa := maybe_refresh_opa_from_shm (ve_opa env) (ve_site env)
    (map_option op_header (rg_policy_region s)) (rg_policy_region s) (rg_opa s)\<rparr>"
  let ?s2 = "snd (refresh_config now ?s1)"
  have "same_view s ?s1" by (rule same_viewI) (simp_all add: assms)
  then have v: "same_view s ?s2" using refresh_view [of ?s1 now] same_view_trans by (simp add: assms)
  have "rr_ok (rg_region ?s2) \<Longrightarrow> rr_ok ((rg_region ?s2)\<lparr>rr_heartbeat := now\<rparr>)"
    "nodes_shown ((rg_region ?s2)\<lparr>rr_heartbeat := now\<rparr>) = nodes_shown (rg_region ?s2)" by (simp_all add: rr_ok_def nodes_shown_def)
  with v show ?thesis
    by (simp add: same_view_def heartbeat_pass_def Let_def entries_def shown_def fun_eq_iff split: prod.split)
qed

lemma reg_invD:
  assumes "reg_inv env s"
  shows "rr_ok (rg_region s)" "rg_conns s c = Some x \<Longrightarrow> conn_ok env (rg_pid s c) (entries s) (shown s) x"
    "shown s u \<noteq> None \<Longrightarrow> entries s u \<noteq> None"
  using assms by (simp_all add: reg_inv_def)

lemma held_entry:
  assumes "reg_inv env s" "rg_conns s c = Some (Held st u h m)"
  shows "entries s u = Some (nh_name h, nh_connected_at h)"
  using reg_invD(2) [OF assms] by (simp add: conn_ok_def)

lemmas held_defs = holds_uuid_def conn_ok_def

text \<open>One lemma per step that changes the table or the region.\<close>

lemma inv_connect:
  assumes "reg_inv env s" "rg_conns s c = None"
  shows "reg_inv env ((set_conn c Fresh s)\<lparr>rg_pid := (rg_pid s)(c := pid)\<rparr>)"
  by (rule inv_move [OF assms(1), of _ c Fresh])
    (use assms reg_invD [OF assms(1)] in \<open>auto simp: held_defs entries_def shown_def set_conn_def\<close>)

lemma inv_claim:
  assumes "reg_inv env s" "rg_conns s c = Some (Assigned u h m)" "claim_node_uuid u h s = Some s'"
  shows "reg_inv env (set_conn c (Held Claimed u h m) s')"
proof -
  note s' = claim_entries [OF assms(3)] and inv = reg_invD [OF assms(1)]
  have "shown s u = None" using inv(3) [of u] s'(1) by blast
  then show ?thesis
    by (intro inv_move [OF assms(1), of _ c "Held Claimed u h m"])
      (use s' assms(2) inv(2) [OF assms(2)] inv(1,3) in \<open>auto simp: held_defs split: if_splits\<close>)
qed

lemma inv_registers:
  assumes "reg_inv env s" "rg_conns s c = Some (Held Claimed u h m)" "register_in_region now u h s = (st, s')"
  shows "reg_inv env (set_conn c (Held st u h m) s')"
proof -
  note inv = reg_invD [OF assms(1)]
  note s' = register_view [OF assms(3) inv(1)]
  show ?thesis
    by (rule inv_move [OF assms(1), of _ c "Held st u h m"])
      (use s' assms(2) inv(2) [OF assms(2)] inv(3) in \<open>auto simp: held_defs split: if_splits\<close>)
qed

lemma inv_refused:
  assumes "reg_inv env s" "rg_conns s c = Some (Held Refused u h m)"
  shows "reg_inv env (set_conn c Closed (release u h s))"
proof -
  note inv = reg_invD [OF assms(1)]
  have "shown s u = None" using inv(2) [OF assms(2)] by (simp add: conn_ok_def)
  with release_entries [OF held_entry [OF assms]] show ?thesis
    by (intro inv_move [OF assms(1), of _ c Closed]) (use assms(2) inv(1,3) in \<open>auto simp: held_defs split: if_splits\<close>)
qed

lemma inv_announces:
  assumes "reg_inv env s" "rg_conns s c = Some (Held Registered u h m)" "announce_node env now u h m s = (x, s')"
  shows "reg_inv env (set_conn c x s')"
proof -
  note inv = reg_invD [OF assms(1)] and s' = announce_view [OF assms(3)]
  show ?thesis
    by (rule inv_move [OF assms(1), of _ c x])
      (use s' assms(2) inv(2) [OF assms(2)] inv(1,3) in \<open>auto simp: held_defs split: if_splits\<close>)
qed

lemma inv_cleans:
  assumes "reg_inv env s" "rg_conns s c = Some (Held Ending u h m)"
  shows "reg_inv env (set_conn c Closed (cleanup env now u h s))"
proof -
  note inv = reg_invD [OF assms(1)]
  note s' = cleanup_view [OF held_entry [OF assms] inv(1), of env now]
  show ?thesis
    by (rule inv_move [OF assms(1), of _ c Closed]) (use s' assms(2) inv(3) in \<open>auto simp: held_defs split: if_splits\<close>)
qed

lemma inv_own_step:
  assumes inv: "reg_inv env s" and step: "registry_step env s s'"
  shows "reg_inv env s'"
proof -
  note ok = reg_invD(1) [OF inv] and conn = reg_invD(2) [OF inv]
  have same: "same_view s s" by (rule same_viewI) (simp_all add: ok)
  note stay = inv_stay [OF inv] and moves = inv_connect inv_claim inv_registers inv_refused inv_announces inv_cleans
  show ?thesis using step
  proof cases
    case (hello c msg u name)
    then have "rt_name_allowed name (rg_pid s c) (ve_own_pid env)"
      by (auto simp: accept_hello_def Let_def split: if_splits option.splits prod.splits)
    with hello show ?thesis by (auto intro!: stay [OF same] simp: held_defs)
  next
    case (assign c u name m now h s1)
    from assign_view [OF assign(3) ok] assign conn [OF assign(2)] show ?thesis by (auto intro!: stay simp: held_defs)
  next
    case (frame c u h m now msg st s1)
    from on_frame_view [OF ok held_entry [OF inv frame(2)] frame(3)] frame conn [OF frame(2)] show ?thesis
      by (auto intro!: stay simp: held_defs)
  next
    case (gone c u h m)
    with conn [OF gone(2)] show ?thesis by (auto intro!: stay [OF same] simp: held_defs)
  next
    case (publish config)
    then show ?thesis by (auto intro!: inv_same [OF inv] same_viewI simp: ok)
  next
    case (policy region)
    then show ?thesis by (auto intro!: inv_same [OF inv] same_viewI simp: ok)
  next
    case (heartbeat now)
    then show ?thesis using inv_same [OF inv] heartbeat_view [OF ok] by simp
  qed (use inv moves in \<open>auto intro!: stay [OF same] simp: held_defs\<close>)
qed

interpretation registry: step_invariant registry_init "any_step env" "reg_inv env" for env :: "'w node_env"
proof
  fix s :: "'w registry" assume "registry_init s"
  then show "reg_inv env s" by (simp add: registry_init_def reg_inv_def entries_def shown_def holds_uuid_def)
next
  fix s s' :: "'w registry" assume "reg_inv env s" "any_step env s s'"
  from this(2,1) show "reg_inv env s'" by cases (auto intro: inv_own_step inv_same)
qed


section \<open>Properties\<close>

text \<open>C2: a node speaks only as itself.  Whatever connections come, go, reconnect and overlap, a connection
  that is being served is the only one with its UUID; a name of the form RT.* it has only if the router's own
  process opened it; and all that a frame from it makes the router send are notices of a reload to sibling
  routers, or sound frames under the name that connection registered with.  A frame with another
  source sends nothing.\<close>

theorem node_speaks_as_itself:
  assumes "reach registry_init (any_step env) s" "rg_conns s c = Some (Held Serving u h hello)"
    "on_frame env now u h msg s = (st, s')"
  shows "rt_name_allowed (nh_name h) (rg_pid s c) (ve_own_pid env) \<and> (\<forall>c'. holds_uuid (rg_conns s c') u = (c' = c)) \<and>
    (\<exists>new. rs_sent (rg_router s') = rs_sent (rg_router s) @ new \<and>
      (\<forall>f \<in> set new. speaks_for env now u (nh_name h) msg (rg_router (facing env now (nh_name h) msg s)) f))"
proof -
  note inv = registry.reach_inv [OF assms(1)]
  then have ok: "rr_ok (rg_region s)" and conn: "conn_ok env (rg_pid s c) (entries s) (shown s) (Held Serving u h hello)"
    using assms(2) by (simp_all add: reg_inv_def)
  then have e: "entries s u = Some (nh_name h, nh_connected_at h)" by (simp add: conn_ok_def)
  have "holds_uuid (rg_conns s c) u" using assms(2) by (simp add: holds_uuid_def)
  with inv have "holds_uuid (rg_conns s c') u = (c' = c)" for c' unfolding reg_inv_def by blast
  with on_frame_view [OF ok e assms(3)] conn show ?thesis by (simp add: conn_ok_def)
qed

text \<open>C11: the table and the region follow the connections.  As long as messages serialise, the table has
  exactly the UUIDs of the live connections, each with one connection and its name, and a reader of the router's
  region sees exactly those that got through registration, under their names: no ended connection
  keeps its UUID from being claimed again.\<close>

theorem registry_exact:
  assumes "reach registry_init (any_step env) s" "serialises env"
  shows "(\<forall>u. map_of (table s) u = None \<longleftrightarrow> (\<forall>c. \<not> holds_uuid (rg_conns s c) u)) \<and>
    (\<forall>c c' u. holds_uuid (rg_conns s c) u \<and> holds_uuid (rg_conns s c') u \<longrightarrow> c = c') \<and>
    (\<forall>u name. (\<exists>e \<in> set (read_router_snapshot (rg_region s)). ne_uuid e = u \<and> take (ne_name_len e) (ne_name e) = name) \<longleftrightarrow>
      (\<exists>c st h m. rg_conns s c = Some (Held st u h m) \<and> st \<noteq> Claimed \<and> st \<noteq> Refused \<and> nh_name h = name))"
proof (intro conjI allI)
  note inv = registry.reach_inv [OF assms(1)]
  have conn: "conn_ok env (rg_pid s c) (entries s) (shown s) x" if "rg_conns s c = Some x" for c x
    using inv that by (simp add: reg_inv_def)
  have left: "\<exists>c. holds_uuid (rg_conns s c) u" if "entries s u \<noteq> None" for u
    using inv assms(2) that unfolding reg_inv_def by blast
  show "map_of (table s) u = None \<longleftrightarrow> (\<forall>c. \<not> holds_uuid (rg_conns s c) u)" for u
  proof -
    have "map_of (table s) u = None \<longleftrightarrow> entries s u = None" by (simp add: entries_def)
    with left [of u] holder_registered [OF inv, of _ u] show ?thesis by blast
  qed
  show "holds_uuid (rg_conns s c) u \<and> holds_uuid (rg_conns s c') u \<longrightarrow> c = c'" for c c' u
    using inv unfolding reg_inv_def by blast
  fix u name
  have reads: "(\<exists>e \<in> set (read_router_snapshot (rg_region s)). ne_uuid e = u \<and> take (ne_name_len e) (ne_name e) = name) \<longleftrightarrow>
      (\<exists>t. shown s u = Some (name, t))"
    using inv snapshot_has [of "rg_region s" u "\<lambda>e. take (ne_name_len e) (ne_name e) = name"] by (auto simp: shown_def reg_inv_def)
  have "\<exists>c st h m. rg_conns s c = Some (Held st u h m) \<and> st \<noteq> Claimed \<and> st \<noteq> Refused \<and> nh_name h = name"
    if "shown s u = Some (name, t)" for t
  proof -
    from that inv have "entries s u \<noteq> None" unfolding reg_inv_def by blast
    from left [OF this] obtain c st h m where c: "rg_conns s c = Some (Held st u h m)" by (auto simp: holds_uuid_def)
    with conn [OF c] that show ?thesis by (auto simp: conn_ok_def split: if_splits)
  qed
  moreover have "\<exists>t. shown s u = Some (name, t)"
    if "rg_conns s c = Some (Held st u h m)" "st \<noteq> Claimed" "st \<noteq> Refused" "nh_name h = name" for c st h m
    using conn [OF that(1)] that by (simp add: conn_ok_def)
  ultimately show "(\<exists>e \<in> set (read_router_snapshot (rg_region s)). ne_uuid e = u \<and> take (ne_name_len e) (ne_name e) = name) \<longleftrightarrow>
      (\<exists>c st h m. rg_conns s c = Some (Held st u h m) \<and> st \<noteq> Claimed \<and> st \<noteq> Refused \<and> nh_name h = name)"
    unfolding reads by blast
qed

text \<open>C40: a node can keep the VPN of a configuration that is gone.  Its VPN is looked up before its UUID is
  claimed; when a pass of the heartbeat installs a new configuration in between, which assigns VPNs to the nodes of
  the table, the node enters the table with the VPN of the old one, and no later refresh changes it until the
  version changes again.\<close>

theorem late_claim_keeps_old_vpn:
  assumes "rg_conns s c = Some (Assigned u h m)" "map_of (table s) u = None"
    and "rg_config s = Some snap" "cs_config_version snap \<noteq> rg_config_version s"
    and "nh_vpn_id h \<noteq> assign_vpn (nh_name h) (Some (cs_vpns snap))"
  shows "\<exists>s'. claim_node_uuid u h (heartbeat_pass env now s) = Some s' \<and> map_of (table s') u = Some h \<and>
    nh_vpn_id h \<noteq> assign_vpn (nh_name h) (Some (lc_vpn_rules (rs_lsa (rg_router s')))) \<and>
    (\<forall>t. refresh_config t s' = (Some snap, s'))"
proof -
  let ?s1 = "heartbeat_pass env now s"
  have s1: "rg_config ?s1 = Some snap" "rg_config_version ?s1 = cs_config_version snap"
    "lc_vpn_rules (rs_lsa (rg_router ?s1)) = cs_vpns snap" "table ?s1 = reassign_vpns (cs_vpns snap) (table s)"
    using assms(3,4)
    by (simp_all add: heartbeat_pass_def Let_def refresh_config_def install_config_def upd_lsa_def rebuild_context_fib_def split: prod.split)
  then have "map_of (table ?s1) u = None" using assms(2) by (simp add: reassigned)
  with s1 assms(5) show ?thesis
    by (simp add: claim_node_uuid_def refresh_config_def set_table_def upd_lsa_def)
qed

text \<open>A run: one node connects and is served, or waits before its claim while a configuration is published.\<close>

definition demo_nenv :: "bytes node_env" where
  "demo_nenv =
     \<lparr> ve_router = \<lparr> rv_codec = demo_codec demo_payload, rv_delivery = demo_env, rv_resolve = (\<lambda>_. Some None),
         rv_opa_reload = (\<lambda>_. True), rv_readable = True, rv_fresh = (\<lambda>_. ''f''), rv_clock = [] \<rparr>,
       ve_own_pid = 1, ve_role = [], ve_hello = (\<lambda>_. Some (''a'', ''AI.a'')), ve_append = (\<lambda>_. None),
       ve_json_vec = (\<lambda>_. None), ve_reload = (\<lambda>_. None), ve_opa = demo_oenv, ve_site = demo_site \<rparr>"

definition demo_hello :: message where
  "demo_hello = build_system_message ''a'' (Unicast ''r'') 1 ''t'' ''HELLO'' JNull"

definition demo_nh :: node_handle where
  "demo_nh = \<lparr> nh_name = ''AI.a@m'', nh_vpn_id = 0, nh_connected_at = 1 \<rparr>"

definition demo_reg :: "bytes registry" where
  "demo_reg =
     \<lparr> rg_router = \<lparr> rs_lsa = demo_context, rs_is_gateway = False, rs_peers = [], rs_peer_routers = [],
         rs_broadcast_cache = broadcast_cache_new, rs_stream = demo_handle, rs_taps = None, rs_sent = [], rs_peers_locked = False \<rparr>,
       rg_region = (initialize_router_header ''r'' ''m'' [] False 0)\<lparr>rr_nodes := [empty_node_entry]\<rparr>,
       rg_opa = demo_ostate, rg_config_version = 0, rg_config = None, rg_policy_region = None, rg_conns = Map.empty,
       rg_pid = (\<lambda>_. None) \<rparr>"

definition demo_waiting :: "bytes registry" where
  "demo_waiting = set_conn 0 (Assigned ''a'' demo_nh demo_hello) (set_conn 0 (Named ''a'' ''AI.a@m'' demo_hello)
     ((set_conn 0 Fresh demo_reg)\<lparr>rg_pid := (\<lambda>_. None)(0 := None)\<rparr>))"

definition demo_registered :: "bytes registry" where
  "demo_registered = set_conn 0 (Held Registered ''a'' demo_nh demo_hello) (snd (register_in_region 2 ''a'' demo_nh
     (set_conn 0 (Held Claimed ''a'' demo_nh demo_hello) (set_table [(''a'', demo_nh)] demo_waiting))))"

definition demo_serving :: "bytes registry" where
  "demo_serving = set_conn 0 (Held Serving ''a'' demo_nh demo_hello) (snd (announce_node demo_nenv 2 ''a'' demo_nh demo_hello demo_registered))"

lemma demo_accepts: "accept_hello demo_nenv ''m'' None demo_hello = Some (''a'', ''AI.a@m'')"
  by code_simp

lemma demo_start: "registry_init demo_reg"
  by (simp add: registry_init_def demo_reg_def demo_context_def rr_ok_def slots_ok_def count_active_nodes_def
      initialize_router_header_def nodes_shown_def slot_of_def fun_eq_iff)

lemma demo_waiting_reached: "reach registry_init (registry_step demo_nenv) demo_waiting"
proof -
  let ?s1 = "(set_conn 0 Fresh demo_reg)\<lparr>rg_pid := (\<lambda>_. None)(0 := None)\<rparr>"
  let ?s2 = "set_conn 0 (Named ''a'' ''AI.a@m'' demo_hello) ?s1"
  note go = reach.move [where init = registry_init and step = "registry_step demo_nenv"]
  have "reach registry_init (registry_step demo_nenv) demo_reg" using demo_start by (rule reach.start)
  moreover have "registry_step demo_nenv demo_reg ?s1"
    using registry_step.connect [of demo_reg 0 demo_nenv None] by (simp add: demo_reg_def)
  ultimately have "reach registry_init (registry_step demo_nenv) ?s1" by (rule go)
  moreover have "registry_step demo_nenv ?s1 ?s2"
    by (rule registry_step.hello) (simp_all add: demo_accepts set_conn_def demo_reg_def demo_context_def)
  ultimately have "reach registry_init (registry_step demo_nenv) ?s2" by (rule go)
  moreover have "assign_node 1 ''AI.a@m'' ?s2 = (demo_nh, ?s2)"
    by (simp add: assign_node_def refresh_config_def set_conn_def demo_reg_def demo_nh_def assign_vpn_def)
  then have "registry_step demo_nenv ?s2 demo_waiting"
    unfolding demo_waiting_def by (intro registry_step.assign [of ?s2 0 "''a''" "''AI.a@m''" demo_hello 1]) simp_all
  ultimately show ?thesis by (rule go)
qed

lemma demo_serving_reached: "reach registry_init (any_step demo_nenv) demo_serving"
proof -
  let ?s1 = "set_table [(''a'', demo_nh)] demo_waiting"
  let ?s2 = "set_conn 0 (Held Claimed ''a'' demo_nh demo_hello) ?s1"
  let ?s3 = "snd (register_in_region 2 ''a'' demo_nh ?s2)"
  note go = reach.move [where init = registry_init and step = "any_step demo_nenv", OF _ any_step.own]
  have waiting: "reach registry_init (any_step demo_nenv) demo_waiting"
    using demo_waiting_reached by (induction rule: reach.induct) (auto intro: reach.intros any_step.own)
  have free: "table demo_waiting = []" "rg_conns demo_waiting 0 = Some (Assigned ''a'' demo_nh demo_hello)"
    by (simp_all add: demo_waiting_def set_conn_def demo_reg_def demo_context_def)
  then have "registry_step demo_nenv demo_waiting ?s2"
    by (intro registry_step.claim) (simp_all add: claim_node_uuid_def)
  from go [OF waiting this] have claimed: "reach registry_init (any_step demo_nenv) ?s2" .
  have "rg_region ?s2 = (initialize_router_header ''r'' ''m'' [] False 0)\<lparr>rr_nodes := [empty_node_entry]\<rparr>"
    by (simp add: demo_waiting_def demo_reg_def set_conn_def set_table_def upd_lsa_def)
  then have "register_in_region 2 ''a'' demo_nh ?s2 = (Registered, ?s3)"
    by (simp add: register_in_region_def register_node_def position_def demo_nh_def Let_def)
  then have "registry_step demo_nenv ?s2 demo_registered"
    unfolding demo_registered_def by (intro registry_step.registers) simp_all
  from go [OF claimed this] have registered: "reach registry_init (any_step demo_nenv) demo_registered" .
  have "announce_node demo_nenv 2 ''a'' demo_nh demo_hello demo_registered =
      (Held Serving ''a'' demo_nh demo_hello, snd (announce_node demo_nenv 2 ''a'' demo_nh demo_hello demo_registered))"
    by (simp add: announce_node_def demo_nenv_def demo_env_def demo_to_vec_def Let_def)
  then have "registry_step demo_nenv demo_registered demo_serving"
    unfolding demo_serving_def by (intro registry_step.announces) (simp_all add: demo_registered_def)
  from go [OF registered this] show ?thesis .
qed

theorem node_speaks_as_itself_witness:
  "rt_name_allowed ''AI.a@m'' (rg_pid demo_serving 0) 1 \<and> holds_uuid (rg_conns demo_serving 0) ''a'' \<and>
   \<not> holds_uuid (rg_conns demo_serving 1) ''a'' \<and>
   (\<exists>new. rs_sent (rg_router (snd (on_frame demo_nenv 3 ''a'' demo_nh demo_hello demo_serving))) = rs_sent (rg_router demo_serving) @ new)"
proof -
  have "rg_conns demo_serving 0 = Some (Held Serving ''a'' demo_nh demo_hello)" by (simp add: demo_serving_def)
  from node_speaks_as_itself [OF demo_serving_reached this surjective_pairing, of 3 demo_hello] show ?thesis
    by (auto simp: demo_nh_def demo_nenv_def)
qed

theorem registry_exact_witness:
  "map_of (table demo_serving) ''b'' = None \<and> holds_uuid (rg_conns demo_serving 0) ''a'' \<and>
   (\<exists>e \<in> set (read_router_snapshot (rg_region demo_serving)). ne_uuid e = ''a'' \<and> take (ne_name_len e) (ne_name e) = ''AI.a@m'')"
proof -
  have conn: "rg_conns demo_serving 0 = Some (Held Serving ''a'' demo_nh demo_hello)" by (simp add: demo_serving_def)
  then have a: "holds_uuid (rg_conns demo_serving 0) ''a''" by (simp add: holds_uuid_def)
  have "serialises demo_nenv" by (simp add: serialises_def demo_nenv_def demo_env_def demo_to_vec_def)
  note exact = registry_exact [OF demo_serving_reached this]
  have "rg_conns demo_serving c = None" if "c \<noteq> 0" for c
  proof -
    have "rg_conns (snd (announce_node demo_nenv 2 ''a'' demo_nh demo_hello demo_registered)) = rg_conns demo_registered"
      by (metis announce_view surjective_pairing)
    moreover have "rg_conns (snd (register_in_region n u h s)) = rg_conns s" for n u h and s :: "bytes registry"
      by (auto simp: register_in_region_def split: prod.splits sum.splits)
    ultimately show ?thesis using that by (simp add: demo_serving_def demo_registered_def demo_waiting_def demo_reg_def set_conn_def set_table_def upd_lsa_def)
  qed
  then have "\<not> holds_uuid (rg_conns demo_serving c) ''b''" for c
    using conn by (cases "c = 0") (simp_all add: holds_uuid_def)
  moreover have "\<exists>c st h m. rg_conns demo_serving c = Some (Held st ''a'' h m) \<and> st \<noteq> Claimed \<and> st \<noteq> Refused \<and> nh_name h = ''AI.a@m''"
    using conn by (intro exI) (auto simp: demo_nh_def)
  ultimately show ?thesis using exact a by blast
qed

definition demo_config :: config_snapshot where
  "demo_config = \<lparr> cs_config_version = 1, cs_routes = [], cs_vpns = [demo_vpn ''AI.*'' 7 5], cs_taps = [] \<rparr>"

theorem late_claim_keeps_old_vpn_witness:
  "reach registry_init (registry_step demo_nenv) (demo_waiting\<lparr>rg_config := Some demo_config\<rparr>) \<and>
   assign_vpn ''AI.a@m'' (Some (cs_vpns demo_config)) = 7 \<and>
   (\<exists>s'. claim_node_uuid ''a'' demo_nh (heartbeat_pass demo_nenv 2 (demo_waiting\<lparr>rg_config := Some demo_config\<rparr>)) = Some s' \<and>
     map_of (table s') ''a'' = Some demo_nh \<and> refresh_config 3 s' = (Some demo_config, s'))"
proof -
  have vpn: "assign_vpn ''AI.a@m'' (Some (cs_vpns demo_config)) = 7" by code_simp
  have "reach registry_init (registry_step demo_nenv) (demo_waiting\<lparr>rg_config := Some demo_config\<rparr>)"
    using demo_waiting_reached registry_step.publish by (rule reach.move)
  moreover have "\<exists>s'. claim_node_uuid ''a'' demo_nh (heartbeat_pass demo_nenv 2 (demo_waiting\<lparr>rg_config := Some demo_config\<rparr>)) = Some s' \<and>
     map_of (table s') ''a'' = Some demo_nh \<and> nh_vpn_id demo_nh \<noteq> assign_vpn (nh_name demo_nh) (Some (lc_vpn_rules (rs_lsa (rg_router s')))) \<and>
     (\<forall>t. refresh_config t s' = (Some demo_config, s'))"
    by (rule late_claim_keeps_old_vpn [of _ 0 _ _ demo_hello])
      (use vpn in \<open>simp_all add: demo_waiting_def set_conn_def demo_reg_def demo_context_def demo_config_def demo_nh_def\<close>)
  ultimately show ?thesis using vpn by blast
qed

end
