(* ===== verification/Spec2Isabelle.thy ===== *)
theory Spec2Isabelle
  imports Stream_Recovery Router_Properties Vpn_Gates Wildcard Seqlock Identity_Resolve Node_Registry
begin

text \<open>
  Verification of fluxbee, a message fabric.  Nodes connect to a router of their hive; the routers of a
  hive share memory regions and exchange frames; one router per hive, the gateway, holds sessions to
  the gateways of other hives.  The router decides who a frame is from, whom it may reach, and what it
  may ask for; it delivers locally, forwards to a sibling router or to another hive, and keeps a stream
  of turns on disk for the nodes that store and digest them.  Where a message names no destination, the
  identity of its sender and the operator's policy choose one.  The development models that core: the
  router (\<^verbatim>\<open>src/src/router\<close>), the operator's policy (\<^verbatim>\<open>src/src/opa.rs\<close>), the wire protocol and message trace of
  the SDK (\<^verbatim>\<open>src/crates/fluxbee_sdk\<close>), the system policy (\<^verbatim>\<open>src/policy/system.rego\<close>), and the shared regions the
  router and SY.identity write (\<^verbatim>\<open>src/src/shm\<close>).

  \<^bold>\<open>Conventions.\<close>  A byte is a \<^verbatim>\<open>char\<close>; Rust strings, byte vectors and UUIDs are lists of them, so
  string operations are on UTF-8 as in Rust.  A struct is a record, its fields prefixed; an enum is a
  datatype.  A \<^verbatim>\<open>HashMap\<close> is an association list, in the order the code would iterate it; no theorem
  depends on that order.  Integers are natural numbers with the saturation, wrap or cut of the code
  written out; flags are words of 16 bits.  An operation under a lock is one function; where threads
  interleave, the critical sections are the steps of an inductive relation.  Code that is not in the
  repository (\<^verbatim>\<open>serde_json\<close>, \<^verbatim>\<open>uuid\<close>, the WebAssembly evaluator of the policy) is an argument, in
  \<^verbatim>\<open>codec_env\<close>, \<^verbatim>\<open>delivery_env\<close>, \<^verbatim>\<open>router_env\<close>, \<^verbatim>\<open>opa_env\<close>, \<^verbatim>\<open>resolve_env\<close> and \<^verbatim>\<open>node_env\<close>; what is assumed of it is a
  named predicate (\<^verbatim>\<open>policy_faithful\<close>, \<^verbatim>\<open>turns_additive\<close>, \<^verbatim>\<open>serialises\<close>).

  \<^bold>\<open>Names, protocol, policy, gates.\<close>
  \<^item> \<^verbatim>\<open>Prelude\<close>: strings as Rust has them (\<^verbatim>\<open>trim\<close>, \<^verbatim>\<open>split_once\<close>, UTF-8 validity), saturating arithmetic,
    and the locale \<^verbatim>\<open>step_invariant\<close> for state machines.
  \<^item> \<^verbatim>\<open>Node_Names\<close>, \<^verbatim>\<open>Wildcard\<close>: names \<^verbatim>\<open>role.name@hive\<close> and their classes (\<^verbatim>\<open>router/mod.rs\<close>); the
    backtracking matcher \<^verbatim>\<open>wildcard_match\<close> ends and accepts exactly the glob language.
  \<^item> \<^verbatim>\<open>Protocol\<close> (\<^verbatim>\<open>protocol.rs\<close>, \<^verbatim>\<open>policy.rs\<close>, \<^verbatim>\<open>identity.rs\<close>): messages, destinations, builders, action
    classes.  \<^verbatim>\<open>Message_Trace\<close> (\<^verbatim>\<open>message_trace.rs\<close>): the trace in a message's context.
  \<^item> \<^verbatim>\<open>System_Policy\<close> (\<^verbatim>\<open>system_policy.rs\<close>, \<^verbatim>\<open>system.rego\<close>): which name may ask for which protected action.
  \<^item> \<^verbatim>\<open>Vpn_Gates\<close>: \<^verbatim>\<open>vpn_allows_between\<close> and its broadcast form; VPN isolation, the isolation of edges.

  \<^bold>\<open>Routing.\<close>
  \<^item> \<^verbatim>\<open>Lsa_Region\<close>: the entries of the region that holds what other hives advertise, and which node a UUID
    stands for; a contested UUID resolves to nobody.
  \<^item> \<^verbatim>\<open>Fib\<close>: building and ordering the forwarding table, \<^verbatim>\<open>resolve_by_name\<close>; another hive cannot redirect a
    local name.
  \<^item> \<^verbatim>\<open>Lsa_Exchange\<close>: this hive's advertisement, taking a peer's, hub-vouched nodes, the timers and the writing
    of the region, as a state machine \<^verbatim>\<open>lsa_step\<close> with restarts.  What one hive says does not change how
    names of others resolve; vouched nodes take no traffic of known ones; advertisements are not replayed;
    silent hives expire; an advertised node is found.
  \<^item> \<^verbatim>\<open>Delivery\<close>: the last gate, \<^verbatim>\<open>prepare_local_delivery\<close>, the memory package cut to a frame, and the copies of
    turns for the stream.
  \<^item> \<^verbatim>\<open>Router\<close>: \<^verbatim>\<open>handle_message\<close>, \<^verbatim>\<open>handle_wan_message\<close> and \<^verbatim>\<open>handle_peer_message\<close> with all they call, as actions on
    a \<^verbatim>\<open>router_state\<close> that end in a value, an error, or waiting for a lock the action itself holds.
    \<^verbatim>\<open>Router_Safety\<close> has one rule per combinator of actions and one lemma per operation;
    \<^verbatim>\<open>Router_Properties\<close> the properties: every frame sent is an error report, a copy with a smaller TTL or a
    gated delivery under the name the router knows; a spoke has no authority in another hive; a
    broadcast is taken once; and two behaviours the code does not intend, proved as such: a broadcast from a
    sibling stops a router that is not the gateway, and a broadcast reaches the gateway twice.

  \<^bold>\<open>Connections and regions\<close> (\<^verbatim>\<open>router/mod.rs\<close>, \<^verbatim>\<open>shm/mod.rs\<close>).
  \<^item> \<^verbatim>\<open>Router_Region\<close>: the slots in which a router shows its nodes, as a finite map from UUIDs.
  \<^item> \<^verbatim>\<open>Node_Registry\<close>: \<^verbatim>\<open>handle_node\<close> as a state machine of connections that interleave at its locks, from the HELLO
    to the cleanup, with the refresh of the configuration.  A node speaks only as itself; the table and the
    region follow the connections; and a behaviour the code does not intend: a node that claims its UUID after
    a new configuration was installed keeps the VPN of the old one.
  \<^item> \<^verbatim>\<open>Seqlock\<close>: writers and readers of a region at single loads and stores; an accepted copy is the region at one
    moment without a write.  The operations on regions elsewhere are whole writes, which this justifies.

  \<^bold>\<open>Identity and the operator's policy.\<close>
  \<^item> \<^verbatim>\<open>Ich_Table\<close>: the hash table of channels with open addressing and tombstones is a finite map, by an
    interpretation of the locale of bounded maps; clearing one person's channels can cut off another's.
  \<^item> \<^verbatim>\<open>Identity_Region\<close>: the region SY.identity writes, every operation of its writer on every path; it stays well
    formed and readable.
  \<^item> \<^verbatim>\<open>Opa_Policy\<close>: the resolver, its reload and what it is asked over; a new policy replaces the old one whole or
    not at all, and one that a reload refuses is loaded by the timer.
  \<^item> \<^verbatim>\<open>Identity_Resolve\<close>: \<^verbatim>\<open>resolve_target_with_identity\<close>; what SY.identity wrote about a person decides where the
    person's messages go.

  \<^bold>\<open>The stream\<close> (\<^verbatim>\<open>router/stream.rs\<close>).
  \<^item> \<^verbatim>\<open>Stream_Codec\<close>: records on disk; decoding recovers every whole record before a torn tail.
  \<^item> \<^verbatim>\<open>Stream_Log\<close>, \<^verbatim>\<open>Stream_Accounting\<close>: the shared log, its sinks, batches and acknowledgements, as a state
    machine; every accepted record is delivered, expired or still held, and counted once.
  \<^item> \<^verbatim>\<open>Stream_Disk\<close>, \<^verbatim>\<open>Stream_Recovery\<close>: segments, failing writes, trimming and recovery; what was written is
    recovered, and opening a stream starts the state machine in a reachable state.
  \<^item> \<^verbatim>\<open>Stream_Queue\<close>: the bounded queue in front of the disk thread, its appends interleaved at each atomic
    operation.

  \<^bold>\<open>Loops.\<close>  Every loop is a total function: by structural recursion, or with a measure (the matcher, the
  stripping of whitespace, cutting a package, trimming the log).  No fuel is used.

  \<^bold>\<open>Steps.\<close>  The handling of one frame, one write of a region and one refresh of the configuration are single
  steps where connections interleave; \<^verbatim>\<open>Node_Registry\<close> lets any change by other tasks that keeps the names of the
  nodes come between them, which includes the parts of a refresh.  Loads and stores of \<^verbatim>\<open>Seqlock\<close> are
  seen in program order: the orderings of the atomics are outside the model.

  \<^bold>\<open>Not modelled.\<close>  Sockets, TLS, HMAC and the handshakes; the mapping and layout of shared memory; the compiled
  policies, whose answers are arguments; tracing and counters that only feed log lines.  The nodes themselves
  (\<^verbatim>\<open>SY.orchestrator\<close>, \<^verbatim>\<open>SY.admin\<close>, \<^verbatim>\<open>SY.identity\<close> and the other \<^verbatim>\<open>src/src/bin\<close> programs, the AI, IO and workflow
  nodes, the Go services) are clients of the fabric: they are databases, HTTP services, processes and language
  models behind a socket, and the router's properties hold whatever they send.  Constants keep the names
  of the source and are defined next to their first use.
\<close>

end
